(* ===== verification/Prelude.thy ===== *)
theory Prelude
  imports Main "HOL-Library.Word" "HOL-Library.Char_ord" "HOL-Library.List_Lexorder"
begin

text \<open>
  Shared vocabulary of the development: Go strings, byte slices and maps, the decimal
  formatting of integers, and the generic lemmas and named collections the component
  theories use.

  \<^item> A Go \<open>string\<close> is a sequence of bytes, so it is a HOL \<open>string\<close> (a list of 8-bit
    characters): \<open>len(s)\<close> is \<open>length s\<close>, \<open>s[:n]\<close> is \<open>take n s\<close>.
  \<^item> A Go \<open>map[string]T\<close> is kept as an association list in strictly increasing key
    order (\<open>gomap\<close>): equal maps are equal lists, a lookup is \<open>map_of\<close>, an assignment
    is \<open>gm_put\<close>, \<open>delete\<close> is \<open>gm_del\<close>. Where the code ranges over a map the order is
    unspecified in Go; the theorems that depend on a range say so.
  \<^item> A \<open>float32\<close> and a \<open>float64\<close> are their IEEE-754 bit patterns, words of 32 and 64 bits.
\<close>

named_theorems bus_simps \<open>the registry and its streams, unfolded on concrete values\<close>

type_synonym byte = "8 word"
type_synonym f32 = "32 word"
type_synonym f64 = "64 word"
type_synonym 'v gomap = "(string \<times> 'v) list"

section \<open>Go maps as sorted association lists\<close>

fun gm_put :: "string \<Rightarrow> 'v \<Rightarrow> 'v gomap \<Rightarrow> 'v gomap" where
  "gm_put k v [] = [(k, v)]"
| "gm_put k v ((a, b) # m) =
     (if k = a then (k, v) # m
      else if k < a then (k, v) # (a, b) # m
      else (a, b) # gm_put k v m)"

definition gm_del :: "string \<Rightarrow> 'v gomap \<Rightarrow> 'v gomap" where
  "gm_del k m = filter (\<lambda>p. fst p \<noteq> k) m"

definition gm_of :: "(string \<times> 'v) list \<Rightarrow> 'v gomap" where
  "gm_of xs = fold (\<lambda>p. gm_put (fst p) (snd p)) xs []"

definition gm_wf :: "'v gomap \<Rightarrow> bool" where
  "gm_wf m \<longleftrightarrow> sorted_wrt (<) (map fst m)"

lemma gm_wf_Nil [simp]: "gm_wf []"
  by (simp add: gm_wf_def)

lemma gm_wf_Cons: "gm_wf ((a, b) # m) \<longleftrightarrow> (\<forall>p \<in> set m. a < fst p) \<and> gm_wf m"
  by (auto simp: gm_wf_def)

lemma map_of_gm_put [simp]: "map_of (gm_put k v m) = (map_of m)(k \<mapsto> v)"
  by (induction k v m rule: gm_put.induct) auto

lemma map_of_gm_del [simp]: "map_of (gm_del k m) = (map_of m)(k := None)"
  by (induction m) (auto simp: gm_del_def)

lemma fst_set_gm_put: "fst ` set (gm_put k v m) = insert k (fst ` set m)"
  by (induction k v m rule: gm_put.induct) auto

lemma set_gm_put_sub: "set (gm_put k v m) \<subseteq> insert (k, v) (set m)"
  by (induction k v m rule: gm_put.induct) auto

lemma gm_put_neq_Nil [simp]: "gm_put k v m \<noteq> []"
  by (induction k v m rule: gm_put.induct) auto

lemma gm_wf_put [simp]:
  assumes "gm_wf m"
  shows "gm_wf (gm_put k v m)"
  using assms
proof (induction k v m rule: gm_put.induct)
  case (2 k v a b m)
  from "2.prems" have le: "\<forall>x \<in> fst ` set m. a < x" and wf: "gm_wf m"
    by (auto simp: gm_wf_Cons)
  consider "k = a" | "k < a" | "a < k" by fastforce
  then show ?case
  proof cases
    case 3
    with "2.IH" wf have "gm_wf (gm_put k v m)" by (simp add: not_less_iff_gr_or_eq)
    moreover have "\<forall>x \<in> fst ` set (gm_put k v m). a < x"
      unfolding fst_set_gm_put using le 3 by auto
    ultimately show ?thesis using 3 by (auto simp: gm_wf_Cons)
  qed (use le wf in \<open>auto simp: gm_wf_Cons\<close>)
qed (simp add: gm_wf_Cons)

lemma gm_wf_del [simp]: "gm_wf m \<Longrightarrow> gm_wf (gm_del k m)"
  by (induction m) (auto simp: gm_del_def gm_wf_Cons)

lemma gm_wf_distinct: "gm_wf m \<Longrightarrow> distinct (map fst m)"
  by (induction m) (force simp: gm_wf_Cons)+

lemma gm_wf_fold_put: "gm_wf m \<Longrightarrow> gm_wf (fold (\<lambda>p. gm_put (fst p) (snd p)) xs m)"
  by (induction xs arbitrary: m) auto

lemma gm_wf_of [simp]: "gm_wf (gm_of xs)"
  by (simp add: gm_of_def gm_wf_fold_put)

text \<open>Two sorted association lists with the same lookups are the same list.\<close>

lemma gm_wf_notin: "gm_wf ((a, b) # m) \<Longrightarrow> map_of m a = None"
  by (force simp: gm_wf_Cons map_of_eq_None_iff)

lemma gm_wf_head_least:
  assumes "gm_wf ((a, b) # m)" "gm_wf ((c, d) # n)"
    and "map_of ((a, b) # m) = map_of ((c, d) # n)"
  shows "a = c"
proof (rule ccontr)
  assume ne: "a \<noteq> c"
  have "map_of ((c, d) # n) a = Some b" "map_of ((a, b) # m) c = Some d"
    using fun_cong [OF assms(3), of a] fun_cong [OF assms(3), of c] by simp_all
  with ne have "map_of n a = Some b" "map_of m c = Some d" by simp_all
  then have "(a, b) \<in> set n" "(c, d) \<in> set m"
    by (simp_all add: map_of_SomeD)
  with assms(1,2) have "c < a" "a < c" unfolding gm_wf_Cons by (metis fst_conv)+
  then show False by simp
qed

lemma gm_wf_eqI:
  assumes "gm_wf m" "gm_wf n" "map_of m = map_of n"
  shows "m = n"
  using assms
proof (induction m arbitrary: n)
  case Nil
  then show ?case using map_of_eq_empty_iff [of n] by simp
next
  case (Cons p m)
  obtain a b where p: "p = (a, b)" by (cases p)
  have "n \<noteq> []" using fun_cong [OF Cons.prems(3), of a] by (auto simp: p)
  then obtain c d n' where n: "n = (c, d) # n'" by (cases n) auto
  have ac: "a = c"
    by (rule gm_wf_head_least [OF Cons.prems [unfolded p n]])
  have bd: "b = d"
    using fun_cong [OF Cons.prems(3), of c] by (simp add: p n ac)
  have "map_of m x = map_of n' x" for x
  proof (cases "x = c")
    case True
    then show ?thesis
      using gm_wf_notin [OF Cons.prems(1) [unfolded p]] gm_wf_notin [OF Cons.prems(2) [unfolded n]]
      by (simp add: ac)
  next
    case False
    then show ?thesis
      using fun_cong [OF Cons.prems(3), of x] by (simp add: p n ac)
  qed
  then have "map_of m = map_of n'" ..
  then have "m = n'"
    using Cons.IH Cons.prems(1,2) unfolding p n by (simp add: gm_wf_Cons)
  then show ?case by (simp add: p n ac bd)
qed

lemma gm_put_snoc: "\<forall>p \<in> set m. fst p < k \<Longrightarrow> gm_put k v m = m @ [(k, v)]"
  by (induction k v m rule: gm_put.induct) auto

lemma gm_wf_append: "gm_wf (m @ n) \<longleftrightarrow> gm_wf m \<and> gm_wf n \<and> (\<forall>p \<in> set m. \<forall>q \<in> set n. fst p < fst q)"
  by (auto simp: gm_wf_def sorted_wrt_append)

lemma gm_of_wf: "gm_wf m \<Longrightarrow> gm_of m = m"
proof -
  have "gm_wf (acc @ m) \<Longrightarrow> fold (\<lambda>p. gm_put (fst p) (snd p)) m acc = acc @ m" for acc
  proof (induction m arbitrary: acc)
    case (Cons p m)
    then have "gm_put (fst p) (snd p) acc = acc @ [p]"
      by (simp add: gm_put_snoc gm_wf_append)
    with Cons show ?case by simp
  qed simp
  from this [of "[]"] show "gm_wf m \<Longrightarrow> gm_of m = m" by (simp add: gm_of_def)
qed

lemma map_of_fold_put: "map_of (fold (\<lambda>p. gm_put (fst p) (snd p)) xs m) = map_of m ++ map_of (rev xs)"
  by (induction xs arbitrary: m) (simp_all add: map_add_assoc [symmetric] fun_upd_def map_add_def fun_eq_iff split: option.split)

lemma map_of_gm_of: "map_of (gm_of xs) = map_of (rev xs)"
  by (simp add: gm_of_def map_of_fold_put)

lemma list_all_gm_put: "list_all Q m \<Longrightarrow> Q (k, v) \<Longrightarrow> list_all Q (gm_put k v m)"
  using set_gm_put_sub [of k v m] by (auto simp: list_all_iff)

lemma list_all_gm_of: "list_all Q xs \<Longrightarrow> list_all Q (gm_of xs)"
proof -
  have "list_all Q xs \<Longrightarrow> list_all Q acc \<Longrightarrow> list_all Q (fold (\<lambda>p. gm_put (fst p) (snd p)) xs acc)" for acc
    by (induction xs arbitrary: acc) (simp_all add: list_all_gm_put)
  from this [of "[]"] show "list_all Q xs \<Longrightarrow> list_all Q (gm_of xs)" by (simp add: gm_of_def)
qed

section \<open>Joining strings\<close>

text \<open>\<open>strings.Join\<close>.\<close>

fun join :: "string \<Rightarrow> string list \<Rightarrow> string" where
  "join sep [] = []"
| "join sep [x] = x"
| "join sep (x # xs) = x @ sep @ join sep xs"

section \<open>Decimal digits\<close>

text \<open>\<open>strconv\<close>'s decimal form of a natural number and of an integer (\<open>%d\<close>).\<close>

definition digit_char :: "nat \<Rightarrow> char" where
  "digit_char d = char_of (48 + d)"

definition digit_val :: "char \<Rightarrow> nat" where
  "digit_val c = of_char c - 48"

definition is_digit :: "char \<Rightarrow> bool" where
  "is_digit c \<longleftrightarrow> 48 \<le> (of_char c :: nat) \<and> (of_char c :: nat) \<le> 57"

fun dec_nat :: "nat \<Rightarrow> string" where
  "dec_nat n = (if n < 10 then [digit_char n] else dec_nat (n div 10) @ [digit_char (n mod 10)])"

declare dec_nat.simps [simp del]

definition dec_int :: "int \<Rightarrow> string" where
  "dec_int n = (if n < 0 then CHR ''-'' # dec_nat (nat (- n)) else dec_nat (nat n))"

definition digits_val :: "string \<Rightarrow> nat" where
  "digits_val s = foldl (\<lambda>a c. 10 * a + digit_val c) 0 s"

lemma of_char_digit: "d < 10 \<Longrightarrow> (of_char (digit_char d) :: nat) = 48 + d"
  by (simp add: digit_char_def)

lemma is_digit_char [simp]: "d < 10 \<Longrightarrow> is_digit (digit_char d)"
  by (simp add: is_digit_def of_char_digit)

lemma digit_val_char [simp]: "d < 10 \<Longrightarrow> digit_val (digit_char d) = d"
  by (simp add: digit_val_def of_char_digit)

lemma digits_val_Nil [simp]: "digits_val [] = 0"
  by (simp add: digits_val_def)

lemma digits_val_snoc [simp]: "digits_val (s @ [c]) = 10 * digits_val s + digit_val c"
  by (simp add: digits_val_def)

lemma foldl_digits:
  "foldl (\<lambda>a c. 10 * a + digit_val c) z s = z * 10 ^ length s + digits_val s"
proof (induction s rule: rev_induct)
  case (snoc c s)
  then show ?case by (simp add: algebra_simps)
qed simp

lemma digits_val_append: "digits_val (s @ t) = digits_val s * 10 ^ length t + digits_val t"
  using foldl_digits [of "digits_val s" t] by (simp add: digits_val_def)

lemma digits_val_zeros [simp]: "digits_val (replicate n (CHR ''0'')) = 0"
proof (induction n)
  case (Suc n)
  have "replicate (Suc n) (CHR ''0'') = replicate n (CHR ''0'') @ [CHR ''0'']"
    by (simp add: replicate_append_same)
  with Suc show ?case by (simp only: digits_val_snoc) (simp add: digit_val_def)
qed simp

lemma digits_val_dec_nat [simp]: "digits_val (dec_nat n) = n"
proof (induction n rule: dec_nat.induct)
  case (1 n)
  then show ?case
    using digits_val_snoc [of "[]" "digit_char n"] by (subst dec_nat.simps) auto
qed

lemma dec_nat_digits: "list_all is_digit (dec_nat n)"
proof (induction n rule: dec_nat.induct)
  case (1 n)
  then show ?case by (subst dec_nat.simps) auto
qed

lemma dec_nat_neq_Nil [simp]: "dec_nat n \<noteq> []"
  by (subst dec_nat.simps) simp

lemma dec_nat_inject [simp]: "dec_nat m = dec_nat n \<longleftrightarrow> m = n"
  by (metis digits_val_dec_nat)

lemma digit_char_eq_0: "d < 10 \<Longrightarrow> digit_char d = CHR ''0'' \<longleftrightarrow> d = 0"
proof
  assume "d < 10" "digit_char d = CHR ''0''"
  then have "digit_val (CHR ''0'') = d" by (metis digit_val_char)
  then show "d = 0" by (simp add: digit_val_def)
qed (simp add: digit_char_def char_of_eq_iff)

lemma hd_dec_nat: "0 < n \<Longrightarrow> hd (dec_nat n) \<noteq> CHR ''0''"
proof (induction n rule: dec_nat.induct)
  case (1 n)
  show ?case
  proof (cases "n < 10")
    case True
    with 1 show ?thesis by (subst dec_nat.simps) (simp add: digit_char_eq_0)
  next
    case False
    with 1 show ?thesis by (subst dec_nat.simps) simp
  qed
qed

lemma dec_nat_not_minus: "dec_nat n \<noteq> CHR ''-'' # s"
  using dec_nat_digits [of n] by (auto simp: is_digit_def)

lemma dec_int_inject [simp]: "dec_int m = dec_int n \<longleftrightarrow> m = n"
  using dec_nat_not_minus [of "nat m"] dec_nat_not_minus [of "nat n"]
  by (auto simp: dec_int_def split: if_splits dest: sym)

text \<open>A decimal number is cut off at the first character that is no digit.\<close>

lemma takeWhile_digits [simp]:
  assumes "list_all is_digit s" "rest = [] \<or> \<not> is_digit (hd rest)"
  shows "takeWhile is_digit (s @ rest) = s" and "dropWhile is_digit (s @ rest) = rest"
proof -
  have all: "\<forall>x \<in> set s. is_digit x" using assms(1) by (simp add: list_all_iff)
  show "takeWhile is_digit (s @ rest) = s"
    using all assms(2) by (cases rest) (auto simp: takeWhile_append)
  show "dropWhile is_digit (s @ rest) = rest"
    using all assms(2) by (cases rest) (auto simp: dropWhile_append)
qed

end
