(* ===== verification/GoFloat.thy ===== *)
theory GoFloat
  imports Prelude
begin

unbundle bit_operations_syntax

text \<open>
  IEEE-754 arithmetic of the Go language on bit patterns, as far as the program uses it:
  comparison and subtraction of \<open>float32\<close> scores, and the conversion of \<open>float64\<close> to and
  from decimal text (\<open>strconv\<close>), which the JSON encoder uses.

  A format has \<open>p\<close> bits of precision (24 or 53). A non-negative finite value is given by
  its magnitude bits (exponent and fraction fields); \<open>mag_val p b\<close> is the value as a whole
  number of units of the least positive value (\<open>2^-149\<close> or \<open>2^-1074\<close>). \<open>round_mag\<close> rounds a
  fraction of units to the nearest representable magnitude, ties to even.
\<close>

section \<open>Magnitudes and rounding\<close>

definition mag_val :: "nat \<Rightarrow> nat \<Rightarrow> nat" where
  "mag_val p b =
     (let e = b div 2 ^ (p - 1); m = b mod 2 ^ (p - 1)
      in if e = 0 then m else (2 ^ (p - 1) + m) * 2 ^ (e - 1))"

fun bitlen :: "nat \<Rightarrow> nat" where
  "bitlen n = (if n = 0 then 0 else Suc (bitlen (n div 2)))"

declare bitlen.simps [simp del]

definition div_even :: "nat \<Rightarrow> nat \<Rightarrow> nat" where
  "div_even num den =
     (let q = num div den; r = num mod den
      in if 2 * r < den then q
         else if den < 2 * r then q + 1
         else if even q then q else q + 1)"

definition round_mag :: "nat \<Rightarrow> nat \<Rightarrow> nat \<Rightarrow> nat" where
  "round_mag p num den =
     (let k = bitlen (num div den) - p
      in k * 2 ^ (p - 1) + div_even num (den * 2 ^ k))"

lemma bitlen_0 [simp]: "bitlen 0 = 0"
  by (simp add: bitlen.simps)

lemma bitlen_bounds: "0 < n \<Longrightarrow> 2 ^ (bitlen n - 1) \<le> n \<and> n < 2 ^ bitlen n"
proof (induction n rule: bitlen.induct)
  case (1 n)
  show ?case
  proof (cases "n div 2 = 0")
    case True
    with 1 have "n = 1" by simp
    then show ?thesis by (simp add: bitlen.simps)
  next
    case False
    with 1 have "2 ^ (bitlen (n div 2) - 1) \<le> n div 2 \<and> n div 2 < 2 ^ bitlen (n div 2)"
      by simp
    moreover have "bitlen n = Suc (bitlen (n div 2))"
      using 1(2) by (subst bitlen.simps) simp
    moreover have "0 < bitlen (n div 2)"
      using False by (subst bitlen.simps) simp
    ultimately show ?thesis
      by (cases "bitlen (n div 2)") auto
  qed
qed

lemma bitlen_unique:
  assumes "2 ^ k \<le> n" "n < 2 ^ Suc k"
  shows "bitlen n = Suc k"
proof -
  have pos: "0 < n" using assms(1) by (metis gr0I leD zero_less_numeral zero_less_power)
  from bitlen_bounds [OF pos] have lo: "2 ^ (bitlen n - 1) \<le> n" and hi: "n < 2 ^ bitlen n"
    by auto
  have "(2::nat) ^ k < 2 ^ bitlen n" using assms(1) hi by linarith
  moreover have "(2::nat) ^ (bitlen n - 1) < 2 ^ Suc k" using lo assms(2) by linarith
  ultimately have "k < bitlen n" "bitlen n - 1 < Suc k"
    using power_less_imp_less_exp [of "2::nat" k "bitlen n"]
      power_less_imp_less_exp [of "2::nat" "bitlen n - 1" "Suc k"] by simp_all
  then show ?thesis by linarith
qed

lemma div_even_exact [simp]: "0 < den \<Longrightarrow> den dvd num \<Longrightarrow> div_even num den = num div den"
  by (simp add: div_even_def Let_def)

lemma div_even_scale: "0 < c \<Longrightarrow> div_even (num * c) (den * c) = div_even num den"
  by (simp add: div_even_def Let_def mult.assoc [symmetric] mod_mult_mult2)

lemma round_mag_scale: "0 < c \<Longrightarrow> round_mag p (num * c) (den * c) = round_mag p num den"
proof -
  assume c: "0 < c"
  have "div_even (num * c) (den * c * 2 ^ k) = div_even num (den * 2 ^ k)" for k
    using div_even_scale [OF c, of num "den * 2 ^ k"] by (simp add: ac_simps)
  with c show ?thesis by (simp add: round_mag_def Let_def)
qed

lemma div_even_near: "0 < den \<Longrightarrow> 2 * \<bar>int (div_even num den) * int den - int num\<bar> \<le> int den"
proof -
  assume den: "0 < den"
  have e: "int num = int (num div den) * int den + int (num mod den)"
    by (metis div_mult_mod_eq of_nat_add of_nat_mult)
  have "num mod den < den" using den by simp
  then show ?thesis unfolding e by (auto simp: div_even_def Let_def algebra_simps abs_if)
qed

lemma div_even_bounds: "num div den \<le> div_even num den \<and> div_even num den \<le> num div den + 1"
  by (simp add: div_even_def Let_def)

text \<open>
  A value of at least \<open>2^(p-1)\<close> units is rounded with a relative error of at most \<open>2^-p\<close>, and the
  result is as long as the value or a power of two.
\<close>

lemma mag_val_normal:
  assumes "0 < p" "2 ^ (p - 1) \<le> q" "q \<le> 2 ^ p"
  shows "mag_val p (k * 2 ^ (p - 1) + q) = q * 2 ^ k"
proof -
  obtain r where p: "p = Suc r" using assms(1) by (cases p) auto
  define m where "m = (if q = 2 ^ p then 0 else q - 2 ^ r)"
  define j where "j = (if q = 2 ^ p then Suc (Suc k) else Suc k)"
  have m: "m < 2 ^ r" using assms by (auto simp: m_def p)
  have b: "k * 2 ^ (p - 1) + q = j * 2 ^ r + m" using assms by (auto simp: m_def j_def p algebra_simps)
  have parts: "(j * 2 ^ r + m) div 2 ^ r = j" "(j * 2 ^ r + m) mod 2 ^ r = m" using m by simp_all
  have "0 < j" by (simp add: j_def)
  then have "mag_val p (k * 2 ^ (p - 1) + q) = (2 ^ r + m) * 2 ^ (j - 1)"
    unfolding b mag_val_def Let_def using parts by (simp add: p)
  also have "\<dots> = q * 2 ^ k"
  proof (cases "q = 2 ^ p")
    case True
    then show ?thesis by (simp add: m_def j_def p)
  next
    case False
    then show ?thesis using assms(2) by (simp add: m_def j_def p)
  qed
  finally show ?thesis .
qed

lemma round_mag_parts:
  assumes p: "0 < p" and den: "0 < den" and normal: "2 ^ (p - 1) \<le> num div den"
  obtains k q where "bitlen (num div den) = k + p" "2 ^ (p - 1) \<le> q" "q \<le> 2 ^ p"
    "round_mag p num den = k * 2 ^ (p - 1) + q" "q = div_even num (den * 2 ^ k)"
    "2 ^ (k + p - 1) \<le> num div den"
proof -
  let ?n = "num div den"
  define k where "k = bitlen ?n - p"
  have pos: "0 < ?n" using normal by (metis gr0I leD zero_less_numeral zero_less_power)
  note b = bitlen_bounds [OF pos]
  have "(2::nat) ^ (p - 1) < 2 ^ bitlen ?n" using b normal by linarith
  then have "p - 1 < bitlen ?n" by (rule power_less_imp_less_exp [rotated]) simp
  then have len: "bitlen ?n = k + p" using p by (simp add: k_def)
  define q where "q = div_even num (den * 2 ^ k)"
  have quot: "num div (den * 2 ^ k) = ?n div 2 ^ k" by (simp add: div_mult2_eq)
  have "2 ^ k * 2 ^ (p - 1) \<le> ?n" using b len p by (simp add: power_add [symmetric])
  then have lo: "2 ^ (p - 1) \<le> ?n div 2 ^ k" by (simp add: less_eq_div_iff_mult_less_eq mult.commute)
  have "?n < 2 ^ p * 2 ^ k" using b len by (simp add: power_add mult.commute)
  then have hi: "?n div 2 ^ k < 2 ^ p" by (simp add: less_mult_imp_div_less)
  have "2 ^ (p - 1) \<le> q" "q \<le> 2 ^ p"
    using div_even_bounds [of num "den * 2 ^ k"] lo hi unfolding q_def quot by linarith+
  moreover have "round_mag p num den = k * 2 ^ (p - 1) + q" by (simp add: round_mag_def Let_def k_def q_def)
  moreover have "2 ^ (k + p - 1) \<le> ?n" using b len by simp
  ultimately show ?thesis using that len q_def by blast
qed

lemma round_mag_error:
  assumes "0 < p" "0 < den" "2 ^ (p - 1) \<le> num div den"
  shows "\<bar>int (mag_val p (round_mag p num den)) * int den - int num\<bar> * 2 ^ p \<le> int num"
proof -
  obtain k q where q: "2 ^ (p - 1) \<le> q" "q \<le> 2 ^ p" "round_mag p num den = k * 2 ^ (p - 1) + q"
    "q = div_even num (den * 2 ^ k)" "2 ^ (k + p - 1) \<le> num div den" by (rule round_mag_parts [OF assms])
  have v: "mag_val p (round_mag p num den) = q * 2 ^ k" unfolding q(3) by (rule mag_val_normal [OF assms(1) q(1,2)])
  let ?e = "\<bar>int q * int (den * 2 ^ k) - int num\<bar>"
  have "2 * ?e \<le> int (den * 2 ^ k)" unfolding q(4) by (rule div_even_near) (use assms(2) in simp)
  then have "2 * ?e * 2 ^ (p - 1) \<le> int (den * 2 ^ k) * 2 ^ (p - 1)" by (rule mult_right_mono) simp
  also have "\<dots> = int (2 ^ (k + p - 1) * den)" using assms(1) by (cases p) (simp_all add: power_add)
  also have "\<dots> \<le> int num" using q(5) by (simp only: of_nat_le_iff less_eq_div_iff_mult_less_eq [OF assms(2)])
  finally have "?e * 2 ^ p \<le> int num" using assms(1) by (cases p) (simp_all add: ac_simps)
  then show ?thesis unfolding v by (simp add: ac_simps)
qed

text \<open>Rounding an exactly representable value gives its own bits.\<close>

lemma round_mag_exact:
  assumes p: "0 < p"
  shows "round_mag p (mag_val p b) 1 = b"
proof -
  define e where "e = b div 2 ^ (p - 1)"
  define m where "m = b mod 2 ^ (p - 1)"
  have b: "b = e * 2 ^ (p - 1) + m" and m: "m < 2 ^ (p - 1)"
    unfolding e_def m_def by (simp_all only: div_mult_mod_eq mod_less_divisor zero_less_power zero_less_numeral)
  have pow: "(2::nat) ^ p = 2 * 2 ^ (p - 1)" using p by (cases p) auto
  show ?thesis
  proof (cases "e = 0")
    case True
    then have "mag_val p b = m" by (simp add: mag_val_def Let_def e_def m_def)
    moreover have "bitlen m \<le> p"
    proof (cases "m = 0")
      case False
      with bitlen_bounds [of m] m have "(2::nat) ^ (bitlen m - 1) < 2 ^ (p - 1)" by linarith
      then show ?thesis using power_less_imp_less_exp [of "2::nat" "bitlen m - 1" "p - 1"] by simp
    qed simp
    ultimately show ?thesis using True b by (simp add: round_mag_def)
  next
    case False
    then have v: "mag_val p b = (2 ^ (p - 1) + m) * 2 ^ (e - 1)"
      by (simp add: mag_val_def Let_def e_def m_def)
    have "bitlen (mag_val p b) = Suc (p - 1 + (e - 1))"
    proof (rule bitlen_unique)
      show "2 ^ (p - 1 + (e - 1)) \<le> mag_val p b" by (simp add: v power_add)
      have "2 ^ (p - 1) + m < 2 * 2 ^ (p - 1)" using m by simp
      then have "mag_val p b < 2 * 2 ^ (p - 1) * 2 ^ (e - 1)" unfolding v by simp
      then show "mag_val p b < 2 ^ Suc (p - 1 + (e - 1))" by (simp add: power_add)
    qed
    then have "bitlen (mag_val p b) - p = e - 1" using p by simp
    moreover have "2 ^ (e - 1) dvd mag_val p b" by (simp add: v)
    ultimately have "round_mag p (mag_val p b) 1 = (e - 1) * 2 ^ (p - 1) + (2 ^ (p - 1) + m)"
      by (simp add: round_mag_def Let_def v)
    also have "\<dots> = b" using False b by (cases e) auto
    finally show ?thesis .
  qed
qed

section \<open>float32\<close>

definition f32_mag :: "f32 \<Rightarrow> nat" where
  "f32_mag x = unat x mod 2 ^ 31"

definition f32_neg :: "f32 \<Rightarrow> bool" where
  "f32_neg x \<longleftrightarrow> 2 ^ 31 \<le> unat x"

definition f32_nan :: "f32 \<Rightarrow> bool" where
  "f32_nan x \<longleftrightarrow> 0x7F800000 < f32_mag x"

definition f32_inf :: "f32 \<Rightarrow> bool" where
  "f32_inf x \<longleftrightarrow> f32_mag x = 0x7F800000"

text \<open>Magnitude bits grow with the value, so they order the finite and infinite values.\<close>

definition f32_key :: "f32 \<Rightarrow> int" where
  "f32_key x = (if f32_neg x then - int (f32_mag x) else int (f32_mag x))"

definition f32_gt :: "f32 \<Rightarrow> f32 \<Rightarrow> bool" where
  "f32_gt x y \<longleftrightarrow> \<not> f32_nan x \<and> \<not> f32_nan y \<and> f32_key y < f32_key x"

text \<open>The value in units of \<open>2^-149\<close>, and the nearest \<open>float32\<close> of a number of units.\<close>

definition f32_units :: "f32 \<Rightarrow> int" where
  "f32_units x =
     (if f32_neg x then - int (mag_val 24 (f32_mag x)) else int (mag_val 24 (f32_mag x)))"

definition f32_of_units :: "int \<Rightarrow> f32" where
  "f32_of_units n =
     (let m = min 0x7F800000 (round_mag 24 (nat \<bar>n\<bar>) 1)
      in of_nat (if n < 0 then 2 ^ 31 + m else m))"

text \<open>Subtraction: a NaN operand and \<open>Inf - Inf\<close> give NaN, an infinity wins, the rest is rounded.\<close>

definition f32_sub :: "f32 \<Rightarrow> f32 \<Rightarrow> f32" where
  "f32_sub x y =
     (if f32_nan x then x OR 0x00400000
      else if f32_nan y then y OR 0x00400000
      else if f32_inf x \<and> f32_inf y then (if f32_neg x = f32_neg y then 0xFFC00000 else x)
      else if f32_inf x then x
      else if f32_inf y then y XOR 0x80000000
      else if f32_mag x = 0 \<and> f32_mag y = 0 \<and> f32_neg x \<and> \<not> f32_neg y then x
      else f32_of_units (f32_units x - f32_units y))"

definition f32_one :: f32 where
  "f32_one = 0x3F800000"

lemma f32_gt_irrefl [simp]: "\<not> f32_gt x x"
  by (simp add: f32_gt_def)

lemma f32_gt_trans: "f32_gt x y \<Longrightarrow> f32_gt y z \<Longrightarrow> f32_gt x z"
  by (simp add: f32_gt_def)

lemma f32_gt_asym: "f32_gt x y \<Longrightarrow> \<not> f32_gt y x"
  by (simp add: f32_gt_def)

text \<open>Subtracting zero from a finite number that is not negative leaves it as it is.\<close>

lemma f32_sub_zero:
  assumes "\<not> f32_nan x" "\<not> f32_inf x" "\<not> f32_neg x"
  shows "f32_sub x 0 = x"
proof -
  have mag: "f32_mag x = unat x" using assms(3) by (simp add: f32_mag_def f32_neg_def)
  have le: "unat x \<le> 0x7F800000" using assms(1) by (simp add: f32_nan_def mag)
  have zero: "f32_units 0 = 0" by (simp add: f32_units_def f32_neg_def f32_mag_def mag_val_def)
  have units: "f32_units x = int (mag_val 24 (unat x))" using assms(3) by (simp add: f32_units_def mag)
  have "f32_of_units (f32_units x - f32_units 0) = x"
    unfolding units zero using le round_mag_exact [of 24 "unat x"]
    by (simp add: f32_of_units_def Let_def del: One_nat_def)
  then show ?thesis
    using assms by (simp add: f32_sub_def f32_nan_def f32_inf_def f32_neg_def f32_mag_def)
qed

lemma f32_one_finite: "\<not> f32_nan f32_one" "\<not> f32_inf f32_one" "\<not> f32_neg f32_one"
  by (simp_all add: f32_nan_def f32_inf_def f32_neg_def f32_mag_def f32_one_def)

end
