(* ===== verification/GoNumber.thy ===== *)
theory GoNumber
  imports GoFloat
begin

text \<open>
  The decimal text of a \<open>float64\<close>: \<open>strconv.AppendFloat\<close> with precision \<open>-1\<close> in the two
  layouts \<open>encoding/json\<close> chooses between, and the reading of a JSON number literal. The
  shortest decimal is found by trying 1 to 17 digits and keeping the first one that reads
  back to the same number; the exact decimal expansion stands at the end of the search, so
  the search always succeeds (no \<open>float64\<close> needs it).
\<close>

section \<open>Decimals and their nearest float64\<close>

definition f64_mag :: "f64 \<Rightarrow> nat" where
  "f64_mag x = unat x mod 2 ^ 63"

definition f64_neg :: "f64 \<Rightarrow> bool" where
  "f64_neg x \<longleftrightarrow> 2 ^ 63 \<le> unat x"

definition f64_finite :: "f64 \<Rightarrow> bool" where
  "f64_finite x \<longleftrightarrow> f64_mag x < 0x7FF0000000000000"

definition mk_f64 :: "bool \<Rightarrow> nat \<Rightarrow> f64" where
  "mk_f64 neg m = of_nat (if neg then 2 ^ 63 + m else m)"

text \<open>The least positive \<open>float64\<close> is \<open>2 ^ - unit_exp\<close>.\<close>

definition unit_exp :: nat where
  "unit_exp = 1074"

text \<open>The magnitude bits nearest to \<open>q * 10 ^ e\<close>.\<close>

definition dec_to_mag :: "nat \<Rightarrow> int \<Rightarrow> nat" where
  "dec_to_mag q e = round_mag 53 (q * 10 ^ nat e * 2 ^ unit_exp) (10 ^ nat (- e))"

text \<open>The position of the decimal point: \<open>10 ^ (dp - 1) \<le> value < 10 ^ dp\<close>.\<close>

definition dec_point :: "nat \<Rightarrow> int" where
  "dec_point b = int (length (dec_nat (mag_val 53 b * 10 ^ 400 div 2 ^ unit_exp))) - 400"

text \<open>The two decimals of \<open>n\<close> digits around the value, the nearer one first.\<close>

definition candidates :: "nat \<Rightarrow> nat \<Rightarrow> (nat \<times> int) list" where
  "candidates b n =
     (let e = dec_point b - int n;
          num = mag_val 53 b * 10 ^ nat (- e);
          den = 2 ^ unit_exp * 10 ^ nat e;
          near = div_even num den;
          far = (if near = num div den then near + 1 else num div den)
      in [(near, e), (far, e)])"

definition exact_dec :: "nat \<Rightarrow> nat \<times> int" where
  "exact_dec b = (mag_val 53 b * 5 ^ unit_exp, - int unit_exp)"

fun strip_zeros :: "nat \<Rightarrow> int \<Rightarrow> nat \<times> int" where
  "strip_zeros q e = (if q \<noteq> 0 \<and> q mod 10 = 0 then strip_zeros (q div 10) (e + 1) else (q, e))"

declare strip_zeros.simps [simp del]

definition shortest_dec :: "nat \<Rightarrow> nat \<times> int" where
  "shortest_dec b =
     (case find (\<lambda>(q, e). dec_to_mag q e = b) (concat (map (candidates b) [1..<18])) of
        Some (q, e) \<Rightarrow> strip_zeros q e
      | None \<Rightarrow> (case exact_dec b of (q, e) \<Rightarrow> strip_zeros q e))"

lemma f64_mag_mk:
  assumes "m < 2 ^ 63"
  shows "f64_mag (mk_f64 neg m) = m"
proof -
  have "unat (of_nat (if neg then 2 ^ 63 + m else m) :: 64 word) = (if neg then 2 ^ 63 + m else m)"
    using assms by (simp add: unsigned_of_nat take_bit_eq_mod)
  then show ?thesis using assms by (simp add: f64_mag_def mk_f64_def)
qed

lemma mk_f64_parts [simp]: "mk_f64 (f64_neg x) (f64_mag x) = x"
proof -
  have lt: "unat x < 2 ^ 64" using unsigned_less [of x, where 'a = nat] by simp
  have "(if f64_neg x then 2 ^ 63 + f64_mag x else f64_mag x) = unat x"
  proof (cases "f64_neg x")
    case True
    then have "unat x mod 2 ^ 63 = unat x - 2 ^ 63"
      using lt by (simp add: f64_neg_def mod_if [of "unat x"] mod_less)
    with True show ?thesis by (simp add: f64_neg_def f64_mag_def)
  qed (simp add: f64_neg_def f64_mag_def)
  then show ?thesis by (simp add: mk_f64_def)
qed

lemma dec_to_mag_shift: "dec_to_mag (q * 10) e = dec_to_mag q (e + 1)"
proof (cases "0 \<le> e")
  case True
  then have "nat (e + 1) = Suc (nat e)" "nat (- e) = 0" "nat (- (e + 1)) = 0" by auto
  then show ?thesis by (simp add: dec_to_mag_def ac_simps)
next
  case False
  then have e: "nat (- e) = Suc (nat (- (e + 1)))" "nat e = 0" "nat (e + 1) = 0" by auto
  have "round_mag 53 (q * 2 ^ unit_exp * 10) (10 ^ nat (- (e + 1)) * 10) =
      round_mag 53 (q * 2 ^ unit_exp) (10 ^ nat (- (e + 1)))"
    by (rule round_mag_scale) simp
  then show ?thesis
    unfolding dec_to_mag_def e by (simp only: power_0 mult_1_right mult_1 power_Suc ac_simps)
qed

lemma dec_to_mag_shifts: "dec_to_mag (q * 10 ^ k) e = dec_to_mag q (e + int k)"
proof (induction k arbitrary: e)
  case (Suc k)
  have "dec_to_mag (q * 10 ^ Suc k) e = dec_to_mag (q * 10 ^ k * 10) e"
    by (simp only: power_Suc ac_simps)
  also have "\<dots> = dec_to_mag q (e + 1 + int k)"
    by (simp only: dec_to_mag_shift Suc.IH)
  finally show ?case by (simp add: ac_simps)
qed simp

lemma dec_to_mag_0 [simp]: "dec_to_mag 0 e = 0"
  by (simp add: dec_to_mag_def round_mag_def div_even_def Let_def)

lemma dec_to_mag_exact: "dec_to_mag (fst (exact_dec b)) (snd (exact_dec b)) = b"
proof -
  have "mag_val 53 b * 5 ^ unit_exp * 2 ^ unit_exp = mag_val 53 b * 10 ^ unit_exp"
  proof -
    have "(10::nat) ^ unit_exp = (5 * 2) ^ unit_exp" by simp
    also have "\<dots> = 5 ^ unit_exp * 2 ^ unit_exp" by (rule power_mult_distrib)
    finally show ?thesis by (simp only: mult.assoc)
  qed
  then have "dec_to_mag (fst (exact_dec b)) (snd (exact_dec b)) =
      round_mag 53 (mag_val 53 b * 10 ^ unit_exp) (1 * 10 ^ unit_exp)"
    by (simp only: dec_to_mag_def exact_dec_def fst_conv snd_conv minus_minus nat_int
        nat_zminus_int power_0 mult_1_right mult_1)
  also have "\<dots> = round_mag 53 (mag_val 53 b) 1"
    by (rule round_mag_scale) simp
  finally show ?thesis by (simp only: round_mag_exact zero_less_numeral)
qed

lemma strip_zeros_value:
  "dec_to_mag (fst (strip_zeros q e)) (snd (strip_zeros q e)) = dec_to_mag q e"
proof (induction q e rule: strip_zeros.induct)
  case (1 q e)
  show ?case
  proof (cases "q \<noteq> 0 \<and> q mod 10 = 0")
    case True
    then have q: "q div 10 * 10 = q" by (simp add: dvd_eq_mod_eq_0)
    have "strip_zeros q e = strip_zeros (q div 10) (e + 1)"
      using True by (simp add: strip_zeros.simps [of q])
    then show ?thesis
      using 1 [OF True] dec_to_mag_shift [of "q div 10" e] by (simp only: q)
  next
    case False
    then have "strip_zeros q e = (q, e)" by (auto simp: strip_zeros.simps [of q])
    then show ?thesis by simp
  qed
qed

lemma shortest_dec_value:
  "dec_to_mag (fst (shortest_dec b)) (snd (shortest_dec b)) = b"
proof (cases "find (\<lambda>(q, e). dec_to_mag q e = b) (concat (map (candidates b) [1..<18]))")
  case None
  then show ?thesis
    using dec_to_mag_exact [of b]
    by (simp only: shortest_dec_def option.case split_beta strip_zeros_value)
next
  case (Some p)
  then have "dec_to_mag (fst p) (snd p) = b"
    by (auto simp: find_Some_iff split_beta)
  with Some show ?thesis
    by (simp only: shortest_dec_def option.case split_beta strip_zeros_value)
qed

lemma shortest_dec_pos: "0 < b \<Longrightarrow> 0 < fst (shortest_dec b)"
  by (metis dec_to_mag_0 gr0I less_irrefl shortest_dec_value)

section \<open>Layout\<close>

definition exp_text :: "int \<Rightarrow> string" where
  "exp_text x =
     (if x < 0 then ''e-'' @ dec_nat (nat (- x)) else ''e+'' @ dec_nat (nat x))"

text \<open>
  Layout \<open>%e\<close> (\<open>d.ddde-9\<close>, with the leading zero of a two-digit negative exponent removed
  as the encoder does) for magnitudes below \<open>1e-6\<close> and from \<open>1e21\<close>, else layout \<open>%f\<close>.
\<close>

definition dec_text :: "bool \<Rightarrow> nat \<Rightarrow> int \<Rightarrow> string" where
  "dec_text efmt q e =
     (let ds = dec_nat q; dp = int (length ds) + e
      in if efmt then
           hd ds # (if tl ds = [] then [] else CHR ''.'' # tl ds) @ exp_text (dp - 1)
         else if dp \<le> 0 then ''0.'' @ replicate (nat (- dp)) (CHR ''0'') @ ds
         else if int (length ds) \<le> dp then ds @ replicate (nat (dp - int (length ds))) (CHR ''0'')
         else take (nat dp) ds @ CHR ''.'' # drop (nat dp) ds)"

definition f64_text :: "f64 \<Rightarrow> string" where
  "f64_text x =
     (let b = f64_mag x
      in (if f64_neg x then ''-'' else []) @
         (if b = 0 then ''0''
          else dec_text (b < 0x3EB0C6F7A0B5ED8D \<or> 0x444B1AE4D6E2EF50 \<le> b)
                 (fst (shortest_dec b)) (snd (shortest_dec b))))"

section \<open>Reading a number literal\<close>

definition parse_frac :: "string \<Rightarrow> (string \<times> string) option" where
  "parse_frac s =
     (case s of
        [] \<Rightarrow> Some ([], [])
      | c # t \<Rightarrow>
          if c = CHR ''.'' then
            (if takeWhile is_digit t = [] then None
             else Some (takeWhile is_digit t, dropWhile is_digit t))
          else Some ([], s))"

definition parse_exp :: "string \<Rightarrow> (int \<times> string) option" where
  "parse_exp s =
     (case s of
        [] \<Rightarrow> Some (0, [])
      | c # t \<Rightarrow>
          if c = CHR ''e'' \<or> c = CHR ''E'' then
            (let neg = (t \<noteq> [] \<and> hd t = CHR ''-'');
                 u = (if t \<noteq> [] \<and> (hd t = CHR ''-'' \<or> hd t = CHR ''+'') then tl t else t);
                 ds = takeWhile is_digit u
             in if ds = [] then None
                else Some ((if neg then - 1 else 1) * int (digits_val ds), dropWhile is_digit u))
          else Some (0, s))"

definition parse_number :: "string \<Rightarrow> (f64 \<times> string) option" where
  "parse_number s =
     (let neg = (s \<noteq> [] \<and> hd s = CHR ''-'');
          s1 = (if neg then tl s else s);
          ip = takeWhile is_digit s1
      in if ip = [] \<or> hd ip = CHR ''0'' \<and> 1 < length ip then None
         else (case parse_frac (dropWhile is_digit s1) of
                 None \<Rightarrow> None
               | Some (fp, s2) \<Rightarrow>
                   (case parse_exp s2 of
                      None \<Rightarrow> None
                    | Some (x, s3) \<Rightarrow>
                        (let m = dec_to_mag (digits_val (ip @ fp)) (x - int (length fp))
                         in if 0x7FF0000000000000 \<le> m then None
                            else Some (mk_f64 neg m, s3)))))"

text \<open>What may follow a number literal in a document.\<close>

definition number_end :: "string \<Rightarrow> bool" where
  "number_end rest \<longleftrightarrow>
     rest = [] \<or> \<not> is_digit (hd rest) \<and> hd rest \<notin> {CHR ''.'', CHR ''e'', CHR ''E''}"

text \<open>Reading an unsigned literal given by its three parts.\<close>

lemma parse_number_parts:
  assumes ip: "list_all is_digit ip" "ip \<noteq> []" "hd ip = CHR ''0'' \<longrightarrow> length ip = 1"
    and frac: "parse_frac r1 = Some (fp, r2)" "r1 = [] \<or> \<not> is_digit (hd r1)"
    and exp: "parse_exp r2 = Some (x, rest)"
    and m: "dec_to_mag (digits_val (ip @ fp)) (x - int (length fp)) = b"
    and b: "b < 0x7FF0000000000000"
  shows "parse_number ((if neg then ''-'' else []) @ ip @ r1) = Some (mk_f64 neg b, rest)"
proof -
  have hd: "hd ip \<noteq> CHR ''-''" using ip by (cases ip) (auto simp: is_digit_def)
  have len: "\<not> (ip = [] \<or> hd ip = CHR ''0'' \<and> 1 < length ip)" using ip by auto
  have tw: "takeWhile is_digit (ip @ r1) = ip" "dropWhile is_digit (ip @ r1) = r1"
    using takeWhile_digits [OF ip(1) frac(2)] by auto
  show ?thesis
    using hd ip(2) len frac(1) exp m b
    by (cases neg) (simp_all add: parse_number_def Let_def tw)
qed

lemma parse_frac_none: "number_end r \<Longrightarrow> parse_frac r = Some ([], r)"
  by (cases r) (auto simp: parse_frac_def number_end_def)

lemma parse_frac_exp_text: "parse_frac (exp_text x @ r) = Some ([], exp_text x @ r)"
  by (simp add: parse_frac_def exp_text_def)

lemma parse_frac_dot:
  assumes "list_all is_digit f" "f \<noteq> []" "r = [] \<or> \<not> is_digit (hd r)"
  shows "parse_frac (CHR ''.'' # f @ r) = Some (f, r)"
  using assms takeWhile_digits [OF assms(1,3)] by (simp add: parse_frac_def)

lemma parse_exp_none: "number_end r \<Longrightarrow> parse_exp r = Some (0, r)"
  by (cases r) (auto simp: parse_exp_def number_end_def)

lemma parse_exp_text:
  assumes "number_end r"
  shows "parse_exp (exp_text x @ r) = Some (x, r)"
proof -
  have r: "r = [] \<or> \<not> is_digit (hd r)" using assms by (auto simp: number_end_def)
  show ?thesis
    using takeWhile_digits [OF dec_nat_digits r]
    by (auto simp: parse_exp_def exp_text_def Let_def)
qed

lemma exp_text_hd: "\<not> is_digit (hd (exp_text x @ r))"
  by (simp add: exp_text_def is_digit_def)

lemma number_end_digit: "number_end r \<Longrightarrow> r = [] \<or> \<not> is_digit (hd r)"
  by (auto simp: number_end_def)

text \<open>Every layout of a decimal reads back to the magnitude the decimal denotes.\<close>

text \<open>The two layouts, read back.\<close>

lemma parse_exp_layout:
  assumes q: "0 < q" and b: "dec_to_mag q e = b" "b < 0x7FF0000000000000"
    and r: "number_end r"
  shows "parse_number ((if neg then ''-'' else []) @ dec_text True q e @ r) = Some (mk_f64 neg b, r)"
proof -
  define ds where "ds = dec_nat q"
  define dp where "dp = int (length ds) + e"
  have ds: "list_all is_digit ds" "ds \<noteq> []" "hd ds \<noteq> CHR ''0''" "digits_val ds = q"
    using q hd_dec_nat [of q] by (simp_all add: ds_def dec_nat_digits)
  have split: "ds = [hd ds] @ tl ds" using ds(2) by simp
  have dh: "list_all is_digit [hd ds]" "list_all is_digit (tl ds)"
    using ds(1) split by (metis list_all_append)+
  let ?fr = "if tl ds = [] then [] else CHR ''.'' # tl ds"
  have t: "dec_text True q e = [hd ds] @ ?fr @ exp_text (dp - 1)"
    by (simp add: dec_text_def Let_def ds_def dp_def)
  have fr: "parse_frac (?fr @ exp_text (dp - 1) @ r) = Some (tl ds, exp_text (dp - 1) @ r)"
    using parse_frac_exp_text [of "dp - 1" r] parse_frac_dot [OF dh(2) _ disjI2 [OF exp_text_hd], of "dp - 1" r]
    by auto
  have "dp - 1 - int (length (tl ds)) = e" using ds(2) by (cases ds) (simp_all add: dp_def)
  then have "dec_to_mag (digits_val ([hd ds] @ tl ds)) (dp - 1 - int (length (tl ds))) = b"
    using b(1) ds(4) split by simp
  from parse_number_parts [OF dh(1) _ _ fr _ parse_exp_text [OF r] this b(2), of neg]
  show ?thesis
    unfolding t using exp_text_hd [of "dp - 1" r] ds(3) by (auto simp: is_digit_def)
qed

lemma parse_point_layout:
  assumes q: "0 < q" and b: "dec_to_mag q e = b" "b < 0x7FF0000000000000"
    and r: "number_end r"
  shows "parse_number ((if neg then ''-'' else []) @ dec_text False q e @ r) = Some (mk_f64 neg b, r)"
proof -
  define ds where "ds = dec_nat q"
  define dp where "dp = int (length ds) + e"
  have ds: "list_all is_digit ds" "ds \<noteq> []" "hd ds \<noteq> CHR ''0''" "digits_val ds = q"
    using q hd_dec_nat [of q] by (simp_all add: ds_def dec_nat_digits)
  note rd = number_end_digit [OF r]
  consider (lead) "dp \<le> 0" | (trail) "\<not> dp \<le> 0" "int (length ds) \<le> dp"
    | (mid) "\<not> dp \<le> 0" "dp < int (length ds)" by linarith
  then show ?thesis
  proof cases
    case lead
    let ?z = "replicate (nat (- dp)) (CHR ''0'')"
    have t: "dec_text False q e = ''0'' @ CHR ''.'' # (?z @ ds)"
      using lead by (simp add: dec_text_def Let_def ds_def dp_def)
    have z: "list_all is_digit (?z @ ds)" using ds(1) by (auto simp: list_all_iff is_digit_def)
    have "digits_val (''0'' @ ?z @ ds) = q"
    proof -
      have "digits_val ''0'' = 0" by (simp add: digits_val_def digit_val_def)
      then show ?thesis
        using digits_val_append [of "''0''" "?z @ ds"] digits_val_append [of ?z ds] ds(4)
        by (simp only: digits_val_zeros)
    qed
    moreover have "0 - int (length (?z @ ds)) = e" using lead by (simp add: dp_def)
    ultimately have v: "dec_to_mag (digits_val (''0'' @ ?z @ ds)) (0 - int (length (?z @ ds))) = b"
      using b(1) by simp
    from parse_number_parts [OF _ _ _ parse_frac_dot [OF z _ rd] _ parse_exp_none [OF r] v b(2), of neg]
    show ?thesis unfolding t using ds(2) by (simp add: is_digit_def)
  next
    case trail
    let ?z = "replicate (nat (dp - int (length ds))) (CHR ''0'')"
    have t: "dec_text False q e = ds @ ?z"
      using trail by (simp add: dec_text_def Let_def ds_def dp_def)
    have ip: "list_all is_digit (ds @ ?z)" "ds @ ?z \<noteq> []" "hd (ds @ ?z) \<noteq> CHR ''0''"
      using ds by (auto simp: list_all_iff is_digit_def)
    have "digits_val (ds @ ?z) = q * 10 ^ nat e"
      using ds(4) trail by (simp add: digits_val_append dp_def)
    then have v: "dec_to_mag (digits_val ((ds @ ?z) @ [])) (0 - int (length [])) = b"
      using b(1) dec_to_mag_shifts [of q "nat e" 0] trail by (simp add: dp_def)
    from parse_number_parts [OF ip(1,2) _ parse_frac_none [OF r] rd parse_exp_none [OF r] v b(2), of neg]
    show ?thesis unfolding t using ip(3) by simp
  next
    case mid
    let ?a = "take (nat dp) ds" and ?f = "drop (nat dp) ds"
    have t: "dec_text False q e = ?a @ CHR ''.'' # ?f"
      using mid by (simp add: dec_text_def Let_def ds_def dp_def)
    have a: "list_all is_digit ?a" "?a \<noteq> []" "hd ?a \<noteq> CHR ''0''" and f: "list_all is_digit ?f" "?f \<noteq> []"
      using ds mid by (auto simp: list_all_iff dest: in_set_takeD in_set_dropD)
    have v: "dec_to_mag (digits_val (?a @ ?f)) (0 - int (length ?f)) = b"
      using b(1) ds(4) mid by (simp add: dp_def)
    from parse_number_parts [OF a(1,2) _ parse_frac_dot [OF f rd] _ parse_exp_none [OF r] v b(2), of neg]
    show ?thesis unfolding t using a(3) by (simp add: is_digit_def)
  qed
qed

lemma parse_dec_text:
  assumes "0 < q" "dec_to_mag q e = b" "b < 0x7FF0000000000000" "number_end r"
  shows "parse_number ((if neg then ''-'' else []) @ dec_text efmt q e @ r) = Some (mk_f64 neg b, r)"
  using parse_exp_layout [OF assms] parse_point_layout [OF assms] by (cases efmt) simp_all

lemma parse_zero:
  assumes r: "number_end r"
  shows "parse_number ((if neg then ''-'' else []) @ ''0'' @ r) = Some (mk_f64 neg 0, r)"
proof (rule parse_number_parts [OF _ _ _ parse_frac_none [OF r] number_end_digit [OF r]
      parse_exp_none [OF r]])
  have "digits_val (''0'' @ []) = 0" by (simp add: digits_val_def digit_val_def)
  then show "dec_to_mag (digits_val (''0'' @ [])) (0 - int (length [])) = 0" by simp
qed (simp_all add: is_digit_def)

text \<open>A finite \<open>float64\<close> reads back from its text.\<close>

lemma parse_f64_text:
  assumes "f64_finite x" "number_end r"
  shows "parse_number (f64_text x @ r) = Some (x, r)"
proof (cases "f64_mag x = 0")
  case True
  have "mk_f64 (f64_neg x) 0 = x" using mk_f64_parts [of x] True by simp
  then show ?thesis
    using parse_zero [OF assms(2), of "f64_neg x"] True by (simp add: f64_text_def Let_def)
next
  case False
  then show ?thesis
    using parse_dec_text [OF shortest_dec_pos [of "f64_mag x"] shortest_dec_value _ assms(2)] assms(1)
    by (simp add: f64_text_def Let_def f64_finite_def)
qed

text \<open>The text starts with a digit or a minus sign.\<close>

lemma hd_f64_text: "\<exists>c t. f64_text x = c # t \<and> (is_digit c \<or> c = CHR ''-'')"
proof -
  have "\<exists>c t. dec_text ef q e = c # t \<and> is_digit c" for ef q e
  proof -
    obtain c t where ct: "dec_nat q = c # t" by (cases "dec_nat q") auto
    with dec_nat_digits [of q] have "is_digit c" by simp
    with ct show ?thesis
      by (auto simp: dec_text_def Let_def is_digit_def take_Cons' split: if_splits)
  qed
  note body = this
  have zero: "is_digit (CHR ''0'')" by (simp add: is_digit_def)
  show ?thesis
    using body [of "f64_mag x < 0x3EB0C6F7A0B5ED8D \<or> 0x444B1AE4D6E2EF50 \<le> f64_mag x"
        "fst (shortest_dec (f64_mag x))" "snd (shortest_dec (f64_mag x))"] zero
    by (cases "f64_neg x"; cases "f64_mag x = 0") (auto simp: f64_text_def Let_def)
qed

end
