(* ===== verification/Events.thy ===== *)
theory Events
  imports GoNumber
begin

text \<open>
  The data that flows over the bus: the event envelope of
  \<open>gen/go/pcas/events/v1/event.pb.go\<close>, the dynamic values (\<open>interface{}\<close>) its payload
  decodes to, and the classification of event types of \<open>internal/bus/util.go\<close>.

  The protobuf runtime is a third-party package, so a payload is kept as the \<open>Any\<close>
  message the code holds (a type URL and bytes) and the three runtime calls the code makes
  on it are a parameter, the record \<open>pb\<close>. \<open>pb_ok\<close> states what the code relies on.
\<close>

section \<open>Dynamic values\<close>

text \<open>
  \<open>gval\<close> is a Go \<open>interface{}\<close> value: what \<open>structpb.Value.AsInterface\<close> and
  \<open>json.Unmarshal\<close> produce (nil, bool, float64, string, []interface{},
  map[string]interface{}), and the three further dynamic types the bus code stores in such a
  map: an \<open>int\<close>, a \<open>map[string]string\<close> and a \<open>[]map[string]string\<close>.
\<close>

datatype gval =
    GNil
  | GBool bool
  | GNum f64
  | GStr string
  | GArr "gval list"
  | GObj "(string \<times> gval) list"
  | GInt int
  | GStrMap "(string \<times> string) list"
  | GMsgs "(string \<times> string) list list"

text \<open>The values a JSON document or a protobuf \<open>Value\<close> can denote.\<close>

fun json_shape :: "gval \<Rightarrow> bool" where
  "json_shape GNil = True"
| "json_shape (GBool b) = True"
| "json_shape (GNum n) = True"
| "json_shape (GStr s) = True"
| "json_shape (GArr vs) = list_all json_shape vs"
| "json_shape (GObj m) = (gm_wf m \<and> list_all (\<lambda>p. json_shape (snd p)) m)"
| "json_shape (GInt n) = False"
| "json_shape (GStrMap m) = False"
| "json_shape (GMsgs ms) = False"

text \<open>Every number in the value is finite.\<close>

fun nums_finite :: "gval \<Rightarrow> bool" where
  "nums_finite (GNum x) = f64_finite x"
| "nums_finite (GArr vs) = list_all nums_finite vs"
| "nums_finite (GObj m) = list_all (\<lambda>p. nums_finite (snd p)) m"
| "nums_finite _ = True"

text \<open>A Go type assertion \<open>v.(string)\<close> with its comma-ok result.\<close>

fun as_string :: "gval option \<Rightarrow> string option" where
  "as_string (Some (GStr s)) = Some s"
| "as_string _ = None"

section \<open>The event envelope\<close>

record any_msg =
  TypeUrl :: string
  AnyBytes :: "byte list"

record timestamp =
  tsSeconds :: int
  tsNanos :: int

record event =
  evId :: string
  evSource :: string
  evSpecversion :: string
  evType :: string
  evDatacontenttype :: string
  evDataschema :: string
  evSubject :: string
  evTime :: "timestamp option"
  evTraceId :: string
  evUserId :: string
  evSessionId :: string
  evCorrelationId :: string
  evAttributes :: "string gomap"
  evData :: "any_msg option"

text \<open>The zero value \<open>&eventsv1.Event{}\<close>.\<close>

definition empty_event :: event where
  "empty_event =
     \<lparr>evId = [], evSource = [], evSpecversion = [], evType = [], evDatacontenttype = [],
      evDataschema = [], evSubject = [], evTime = None, evTraceId = [], evUserId = [],
      evSessionId = [], evCorrelationId = [], evAttributes = [], evData = None\<rparr>"

section \<open>The protobuf runtime, as a parameter\<close>

text \<open>
  \<open>MessageIsValue a\<close> is \<open>a.MessageIs(&structpb.Value{})\<close>; \<open>ValueOfAny a\<close> is
  \<open>a.UnmarshalTo(value)\<close> followed by \<open>value.AsInterface()\<close>, \<open>None\<close> when the unmarshalling
  fails; \<open>AnyOfValue v\<close> is \<open>structpb.NewValue(v)\<close> followed by \<open>anypb.New\<close>, \<open>None\<close> when
  either fails.
\<close>

record pb =
  MessageIsValue :: "any_msg \<Rightarrow> bool"
  ValueOfAny :: "any_msg \<Rightarrow> gval option"
  AnyOfValue :: "gval \<Rightarrow> any_msg option"

text \<open>
  Documented behaviour the code relies on: an \<open>Any\<close> built from a JSON value with finite numbers
  is a \<open>Value\<close> message and unmarshals to that value again. (NaN and the infinities come back
  from \<open>AsInterface\<close> as strings.)
\<close>

definition pb_ok :: "pb \<Rightarrow> bool" where
  "pb_ok P \<longleftrightarrow>
     (\<forall>v a. json_shape v \<longrightarrow> nums_finite v \<longrightarrow> AnyOfValue P v = Some a \<longrightarrow>
        MessageIsValue P a \<and> ValueOfAny P a = Some v)"

lemma pb_okD:
  assumes "pb_ok P" "json_shape v" "nums_finite v" "AnyOfValue P v = Some a"
  shows "MessageIsValue P a" "ValueOfAny P a = Some v"
  using assms by (auto simp: pb_ok_def)

text \<open>
  The nested checks the handlers repeat: data present, a \<open>Value\<close>, unmarshalled, and (for
  the second function) a JSON object.
\<close>

definition event_value :: "pb \<Rightarrow> event \<Rightarrow> gval option" where
  "event_value P ev =
     (case evData ev of
        None \<Rightarrow> None
      | Some a \<Rightarrow> if MessageIsValue P a then ValueOfAny P a else None)"

definition event_object :: "pb \<Rightarrow> event \<Rightarrow> gval gomap option" where
  "event_object P ev =
     (case event_value P ev of Some (GObj m) \<Rightarrow> Some m | _ \<Rightarrow> None)"

section \<open>Fact events\<close>

definition factEventTypes :: "string list" where
  "factEventTypes =
     [''pcas.memory.create.v1'', ''pcas.user.fact.v1'', ''user.note.v1'',
      ''user.reminder.v1'', ''user.task.v1'', ''user.memory.v1'']"

fun fact_loop :: "string \<Rightarrow> string list \<Rightarrow> bool" where
  "fact_loop t [] = False"
| "fact_loop t (f # fs) = (if t = f then True else fact_loop t fs)"

definition IsFactEvent :: "string \<Rightarrow> bool" where
  "IsFactEvent eventType = fact_loop eventType factEventTypes"

lemma fact_loop_iff: "fact_loop t fs \<longleftrightarrow> t \<in> set fs"
  by (induction fs) auto

lemma IsFactEvent_iff: "IsFactEvent t \<longleftrightarrow> t \<in> set factEventTypes"
  by (simp add: IsFactEvent_def fact_loop_iff)

end
