(* ===== verification/Policy.thy ===== *)
theory Policy
  imports Events
begin

text \<open>
  The policy engine of \<open>internal/policy/engine.go\<close>: the configuration records, the
  loader and the two routing functions, with first-match routing as their specification.
\<close>

section \<open>Configuration\<close>

text \<open>\<open>Condition\<close> is a recursive struct: its \<open>AnyOf\<close> field is a slice of conditions.\<close>

datatype condition = Condition (condEventType: string) (condAnyOf: "condition list")

record action =
  actProvider :: string
  actPromptTemplate :: string

record rule =
  ruleName :: string
  ruleIf :: condition
  ruleThen :: action

record provider_config =
  pcName :: string
  pcType :: string
  pcConfig :: "gval gomap"

record policy =
  polVersion :: string
  polProviders :: "provider_config list"
  polRules :: "rule list"

record engine =
  engPolicy :: policy

definition NewEngine :: "policy \<Rightarrow> engine" where
  "NewEngine p = \<lparr>engPolicy = p\<rparr>"

text \<open>
  \<open>LoadPolicy\<close> reads a file and parses it with the YAML package; both are parameters, with
  their errors.
\<close>

datatype policy_error = FailedToReadPolicyFile string | FailedToParsePolicyFile string

definition LoadPolicy ::
    "(string \<Rightarrow> string + string) \<Rightarrow> (string \<Rightarrow> string + policy) \<Rightarrow> string
       \<Rightarrow> policy_error + policy" where
  "LoadPolicy readFile yamlUnmarshal path =
     (case readFile path of
        Inl e \<Rightarrow> Inl (FailedToReadPolicyFile e)
      | Inr data \<Rightarrow>
          (case yamlUnmarshal data of
             Inl e \<Rightarrow> Inl (FailedToParsePolicyFile e)
           | Inr p \<Rightarrow> Inr p))"

section \<open>Routing\<close>

text \<open>The inner loop over \<open>rule.If.AnyOf\<close>: does one of the conditions name the type?\<close>

fun any_of_loop :: "string \<Rightarrow> condition list \<Rightarrow> bool" where
  "any_of_loop t [] = False"
| "any_of_loop t (c # cs) = (if condEventType c = t then True else any_of_loop t cs)"

text \<open>The outer loop of \<open>SelectProvider\<close>.\<close>

fun select_loop :: "event \<Rightarrow> rule list \<Rightarrow> string \<times> string" where
  "select_loop ev [] = ([], [])"
| "select_loop ev (r # rs) =
     (if condEventType (ruleIf r) \<noteq> [] \<and> condEventType (ruleIf r) = evType ev
      then (actProvider (ruleThen r), actPromptTemplate (ruleThen r))
      else if 0 < length (condAnyOf (ruleIf r)) \<and> any_of_loop (evType ev) (condAnyOf (ruleIf r))
      then (actProvider (ruleThen r), actPromptTemplate (ruleThen r))
      else select_loop ev rs)"

definition SelectProvider :: "engine \<Rightarrow> event \<Rightarrow> string \<times> string" where
  "SelectProvider e ev = select_loop ev (polRules (engPolicy e))"

text \<open>\<open>SelectProviderForStream\<close> has a copy of the loop, over a plain event type.\<close>

fun stream_loop :: "string \<Rightarrow> rule list \<Rightarrow> string \<times> string" where
  "stream_loop t [] = ([], [])"
| "stream_loop t (r # rs) =
     (if condEventType (ruleIf r) \<noteq> [] \<and> condEventType (ruleIf r) = t
      then (actProvider (ruleThen r), actPromptTemplate (ruleThen r))
      else if 0 < length (condAnyOf (ruleIf r)) \<and> any_of_loop t (condAnyOf (ruleIf r))
      then (actProvider (ruleThen r), actPromptTemplate (ruleThen r))
      else stream_loop t rs)"

definition SelectProviderForStream :: "engine \<Rightarrow> string \<Rightarrow> string \<times> string" where
  "SelectProviderForStream e eventType = stream_loop eventType (polRules (engPolicy e))"

section \<open>First match\<close>

text \<open>
  The specification: a rule matches a type when its own (non-empty) \<open>event_type\<close> is that
  type or one of its \<open>any_of\<close> conditions names it; the first matching rule decides.
\<close>

definition rule_matches :: "string \<Rightarrow> rule \<Rightarrow> bool" where
  "rule_matches t r \<longleftrightarrow>
     t \<noteq> [] \<and> condEventType (ruleIf r) = t \<or> t \<in> condEventType ` set (condAnyOf (ruleIf r))"

definition first_match :: "string \<Rightarrow> rule list \<Rightarrow> string \<times> string" where
  "first_match t rs =
     (case find (rule_matches t) rs of
        None \<Rightarrow> ([], [])
      | Some r \<Rightarrow> (actProvider (ruleThen r), actPromptTemplate (ruleThen r)))"

lemma any_of_loop_iff: "any_of_loop t cs \<longleftrightarrow> t \<in> condEventType ` set cs"
  by (induction cs) auto

lemma stream_loop_first_match: "stream_loop t rs = first_match t rs"
  by (induction rs) (auto simp: first_match_def rule_matches_def any_of_loop_iff)

lemma select_loop_stream: "select_loop ev rs = stream_loop (evType ev) rs"
  by (induction rs) auto

lemma first_match_append:
  "first_match t (rs @ qs) =
     (if \<exists>r \<in> set rs. rule_matches t r then first_match t rs else first_match t qs)"
  by (induction rs) (auto simp: first_match_def)

text \<open>
  C33: both routing functions implement first-match routing: the action of the first rule
  that matches the type, or two empty strings when no rule matches.
\<close>

theorem routing_is_first_match:
  "SelectProvider e ev = first_match (evType ev) (polRules (engPolicy e)) \<and>
   SelectProviderForStream e t = first_match t (polRules (engPolicy e))"
  by (simp add: SelectProvider_def SelectProviderForStream_def select_loop_stream
      stream_loop_first_match)

end
