(* ===== verification/EmbeddingCache.thy ===== *)
theory EmbeddingCache
  imports Prelude
begin

text \<open>
  The LRU cache for query embeddings of \<open>internal/bus/server_rag.go\<close>. The code keeps a map
  from keys to elements of a doubly linked list; the list holds the recency order (front =
  most recent) and each element carries a pointer to its item. Elements are modelled by
  their identity (\<open>nat\<close>), the heap by \<open>elemValue\<close>. Every operation runs under the mutex,
  so an operation is one step.
\<close>

record embeddingCacheEntry =
  embedding :: "f32 list"
  entryTime :: int

record cacheItem =
  itemKey :: string
  itemValue :: embeddingCacheEntry

record embeddingCache =
  capacity :: int
  cacheMap :: "string \<Rightarrow> nat option"
  lruList :: "nat list"
  elemValue :: "nat \<Rightarrow> cacheItem"
  nextElem :: nat
  hits :: "64 word"
  misses :: "64 word"

definition no_item :: cacheItem where
  "no_item = \<lparr>itemKey = [], itemValue = \<lparr>embedding = [], entryTime = 0\<rparr>\<rparr>"

definition newEmbeddingCache :: "int \<Rightarrow> embeddingCache" where
  "newEmbeddingCache cap =
     \<lparr>capacity = cap, cacheMap = Map.empty, lruList = [], elemValue = (\<lambda>_. no_item),
      nextElem = 0, hits = 0, misses = 0\<rparr>"

text \<open>\<open>container/list\<close>: \<open>MoveToFront\<close>, \<open>PushFront\<close>, \<open>Back\<close> and \<open>Remove\<close> on element lists.\<close>

definition moveToFront :: "nat \<Rightarrow> nat list \<Rightarrow> nat list" where
  "moveToFront e l = e # removeAll e l"

definition listBack :: "nat list \<Rightarrow> nat option" where
  "listBack l = (if l = [] then None else Some (last l))"

definition cacheGet :: "embeddingCache \<Rightarrow> string \<Rightarrow> f32 list option \<times> embeddingCache" where
  "cacheGet c k =
     (case cacheMap c k of
        Some e \<Rightarrow>
          (Some (embedding (itemValue (elemValue c e))),
           c\<lparr>hits := hits c + 1, lruList := moveToFront e (lruList c)\<rparr>)
      | None \<Rightarrow> (None, c\<lparr>misses := misses c + 1\<rparr>))"

text \<open>The eviction at the end of \<open>Set\<close>.\<close>

definition evictOldest :: "embeddingCache \<Rightarrow> embeddingCache" where
  "evictOldest c =
     (if int (length (lruList c)) > capacity c
      then (case listBack (lruList c) of
              None \<Rightarrow> c
            | Some oldest \<Rightarrow>
                c\<lparr>lruList := removeAll oldest (lruList c),
                  cacheMap := (cacheMap c)(itemKey (elemValue c oldest) := None)\<rparr>)
      else c)"

text \<open>A new element at the front, registered under its key.\<close>

definition pushEntry :: "embeddingCache \<Rightarrow> string \<Rightarrow> embeddingCacheEntry \<Rightarrow> embeddingCache" where
  "pushEntry c k v =
     c\<lparr>elemValue := (elemValue c)(nextElem c := \<lparr>itemKey = k, itemValue = v\<rparr>),
       nextElem := Suc (nextElem c),
       lruList := nextElem c # lruList c,
       cacheMap := (cacheMap c)(k \<mapsto> nextElem c)\<rparr>"

text \<open>An existing element gets a new value and moves to the front.\<close>

definition touchEntry :: "embeddingCache \<Rightarrow> nat \<Rightarrow> embeddingCacheEntry \<Rightarrow> embeddingCache" where
  "touchEntry c e v =
     c\<lparr>lruList := moveToFront e (lruList c),
       elemValue := (elemValue c)(e := (elemValue c e)\<lparr>itemValue := v\<rparr>)\<rparr>"

definition cacheSet ::
    "embeddingCache \<Rightarrow> string \<Rightarrow> f32 list \<Rightarrow> int \<Rightarrow> embeddingCache" where
  "cacheSet c k emb now =
     (let v = \<lparr>embedding = emb, entryTime = now\<rparr>
      in case cacheMap c k of
           Some e \<Rightarrow> touchEntry c e v
         | None \<Rightarrow> evictOldest (pushEntry c k v))"

section \<open>Representation invariant\<close>

text \<open>
  The list has no element twice, its elements are allocated, the map and the list agree (a
  key is mapped to exactly the list element that carries it), and the capacity is respected.
\<close>

definition cache_shape :: "embeddingCache \<Rightarrow> bool" where
  "cache_shape c \<longleftrightarrow>
     distinct (lruList c) \<and>
     (\<forall>e \<in> set (lruList c). e < nextElem c) \<and>
     (\<forall>k e. cacheMap c k = Some e \<longleftrightarrow>
        e \<in> set (lruList c) \<and> itemKey (elemValue c e) = k)"

definition cache_inv :: "embeddingCache \<Rightarrow> bool" where
  "cache_inv c \<longleftrightarrow> cache_shape c \<and> int (length (lruList c)) \<le> max 0 (capacity c)"

lemma cache_shape_Some:
  "cache_shape c \<Longrightarrow>
     cacheMap c k = Some e \<longleftrightarrow> e \<in> set (lruList c) \<and> itemKey (elemValue c e) = k"
  by (simp add: cache_shape_def)

lemma cache_shape_None:
  assumes "cache_shape c" "cacheMap c k = None" "e \<in> set (lruList c)"
  shows "itemKey (elemValue c e) \<noteq> k"
  using assms cache_shape_Some [of c k e] by auto

lemma cacheGet_Some:
  "cacheMap c k = Some e \<Longrightarrow> cacheGet c k =
     (Some (embedding (itemValue (elemValue c e))),
      c\<lparr>hits := hits c + 1, lruList := moveToFront e (lruList c)\<rparr>)"
  by (simp add: cacheGet_def)

lemma cacheGet_None:
  "cacheMap c k = None \<Longrightarrow> cacheGet c k = (None, c\<lparr>misses := misses c + 1\<rparr>)"
  by (simp add: cacheGet_def)

lemma cache_shape_key_inj:
  assumes "cache_shape c" "e \<in> set (lruList c)" "e' \<in> set (lruList c)"
    and "itemKey (elemValue c e) = itemKey (elemValue c e')"
  shows "e = e'"
  using assms unfolding cache_shape_def by (metis option.inject)

lemma cache_inv_new: "cache_inv (newEmbeddingCache cap)"
  by (simp add: cache_inv_def cache_shape_def newEmbeddingCache_def)

lemma length_moveToFront:
  "distinct l \<Longrightarrow> e \<in> set l \<Longrightarrow> length (moveToFront e l) = length l"
  using length_remove1 [of e l] length_pos_if_in_set [of e l]
  by (simp add: moveToFront_def distinct_remove1_removeAll [symmetric])

lemma set_moveToFront [simp]: "set (moveToFront e l) = insert e (set l)"
  by (auto simp: moveToFront_def)

lemma distinct_moveToFront [simp]: "distinct l \<Longrightarrow> distinct (moveToFront e l)"
  by (simp add: moveToFront_def distinct_removeAll)

text \<open>The shape depends on the elements and their keys, not on their order or values.\<close>

lemma cache_shape_cong:
  assumes "cache_shape c" "distinct (lruList c')" "set (lruList c') = set (lruList c)"
    and "nextElem c' = nextElem c" "cacheMap c' = cacheMap c"
    and "\<And>e. itemKey (elemValue c' e) = itemKey (elemValue c e)"
  shows "cache_shape c'"
  using assms by (simp add: cache_shape_def)

lemma cache_shape_touch:
  assumes "cache_shape c" "e \<in> set (lruList c)"
  shows "cache_shape (touchEntry c e v)"
  by (rule cache_shape_cong [OF assms(1)])
    (use assms in \<open>auto simp: touchEntry_def cache_shape_def\<close>)

lemma cache_shape_push:
  assumes "cache_shape c" "cacheMap c k = None"
  shows "cache_shape (pushEntry c k v)"
proof -
  have new: "nextElem c \<notin> set (lruList c)"
    using assms(1) by (auto simp: cache_shape_def)
  have nk: "\<forall>e \<in> set (lruList c). itemKey (elemValue c e) \<noteq> k"
    using assms cache_shape_None by blast
  show ?thesis
    unfolding cache_shape_def
  proof (intro conjI allI)
    fix k' e
    show "cacheMap (pushEntry c k v) k' = Some e \<longleftrightarrow>
        e \<in> set (lruList (pushEntry c k v)) \<and> itemKey (elemValue (pushEntry c k v) e) = k'"
    proof (cases "e = nextElem c")
      case True
      then show ?thesis using assms new by (auto simp: pushEntry_def cache_shape_def)
    next
      case False
      then show ?thesis using assms new nk by (auto simp: pushEntry_def cache_shape_def)
    qed
  qed (use assms new in \<open>auto simp: pushEntry_def cache_shape_def less_Suc_eq\<close>)
qed

lemma cache_inv_get:
  assumes inv: "cache_inv c"
  shows "cache_inv (snd (cacheGet c k))"
proof (cases "cacheMap c k")
  case None
  with inv show ?thesis by (simp add: cacheGet_None cache_inv_def cache_shape_def)
next
  case (Some e)
  from inv have sh: "cache_shape c" by (simp add: cache_inv_def)
  with Some have e: "e \<in> set (lruList c)" by (simp add: cache_shape_Some)
  have "cache_shape (snd (cacheGet c k))"
    by (rule cache_shape_cong [OF sh])
      (use sh e in \<open>auto simp: cacheGet_Some [OF Some] cache_shape_def\<close>)
  moreover have "length (moveToFront e (lruList c)) = length (lruList c)"
    using sh e by (simp add: length_moveToFront cache_shape_def)
  ultimately show ?thesis
    using inv by (simp add: cacheGet_Some [OF Some] cache_inv_def)
qed

lemma removeAll_last:
  "distinct l \<Longrightarrow> l \<noteq> [] \<Longrightarrow> removeAll (last l) l = butlast l"
  by (induction l rule: rev_induct) auto

lemma cache_inv_evict:
  assumes sh: "cache_shape c" and len: "int (length (lruList c)) \<le> max 0 (capacity c) + 1"
  shows "cache_inv (evictOldest c)"
proof (cases "int (length (lruList c)) > capacity c \<and> lruList c \<noteq> []")
  case True
  let ?o = "last (lruList c)"
  from True have ev: "evictOldest c = c\<lparr>lruList := removeAll ?o (lruList c),
      cacheMap := (cacheMap c)(itemKey (elemValue c ?o) := None)\<rparr>"
    by (simp add: evictOldest_def listBack_def)
  have "length (removeAll ?o (lruList c)) = length (lruList c) - 1"
    using sh True by (simp add: removeAll_last cache_shape_def)
  with len True have "int (length (removeAll ?o (lruList c))) \<le> max 0 (capacity c)"
    by linarith
  moreover have "cache_shape (evictOldest c)"
  proof -
    have "e = ?o" if "e \<in> set (lruList c)" "itemKey (elemValue c e) = itemKey (elemValue c ?o)" for e
      using cache_shape_key_inj [OF sh that(1) _ that(2)] True by simp
    then show ?thesis
      using sh by (auto simp: ev cache_shape_def distinct_removeAll)
  qed
  ultimately show ?thesis by (simp add: ev cache_inv_def)
next
  case False
  then show ?thesis
    using assms by (auto simp: cache_inv_def evictOldest_def listBack_def)
qed

lemma cache_inv_set:
  assumes inv: "cache_inv c"
  shows "cache_inv (cacheSet c k emb now)"
proof (cases "cacheMap c k")
  case None
  let ?v = "\<lparr>embedding = emb, entryTime = now\<rparr>"
  have "cache_inv (evictOldest (pushEntry c k ?v))"
  proof (rule cache_inv_evict)
    show "cache_shape (pushEntry c k ?v)"
      using inv None by (simp add: cache_shape_push cache_inv_def)
    show "int (length (lruList (pushEntry c k ?v))) \<le> max 0 (capacity (pushEntry c k ?v)) + 1"
      using inv by (simp add: pushEntry_def cache_inv_def)
  qed
  with None show ?thesis by (simp add: cacheSet_def Let_def)
next
  case (Some e)
  with inv have e: "e \<in> set (lruList c)" by (simp add: cache_inv_def cache_shape_def)
  with inv have "length (moveToFront e (lruList c)) = length (lruList c)"
    by (simp add: length_moveToFront cache_inv_def cache_shape_def)
  with inv e Some show ?thesis
    using cache_shape_touch [of c e] by (simp add: cacheSet_def cache_inv_def touchEntry_def)
qed

section \<open>Refinement to a recency list\<close>

text \<open>
  The abstract cache is the list of (key, embedding) pairs, most recently used first. A
  lookup moves the hit to the front; a store replaces and moves, or pushes and drops the
  last pair when the list is longer than the capacity.
\<close>

definition lruContents :: "embeddingCache \<Rightarrow> (string \<times> f32 list) list" where
  "lruContents c =
     map (\<lambda>e. (itemKey (elemValue c e), embedding (itemValue (elemValue c e)))) (lruList c)"

definition without_key :: "string \<Rightarrow> (string \<times> 'v) list \<Rightarrow> (string \<times> 'v) list" where
  "without_key k xs = filter (\<lambda>p. fst p \<noteq> k) xs"

definition spec_get ::
    "(string \<times> 'v) list \<Rightarrow> string \<Rightarrow> 'v option \<times> (string \<times> 'v) list" where
  "spec_get xs k =
     (case map_of xs k of
        None \<Rightarrow> (None, xs)
      | Some v \<Rightarrow> (Some v, (k, v) # without_key k xs))"

definition spec_set :: "int \<Rightarrow> (string \<times> 'v) list \<Rightarrow> string \<Rightarrow> 'v \<Rightarrow> (string \<times> 'v) list" where
  "spec_set cap xs k v =
     (if map_of xs k \<noteq> None then (k, v) # without_key k xs
      else if int (length ((k, v) # xs)) > cap then butlast ((k, v) # xs)
      else (k, v) # xs)"

lemma map_of_lruContents:
  assumes "cache_shape c"
  shows "map_of (lruContents c) k =
    map_option (\<lambda>e. embedding (itemValue (elemValue c e))) (cacheMap c k)"
proof (cases "cacheMap c k")
  case None
  then show ?thesis
    using cache_shape_None [OF assms None] by (fastforce simp: lruContents_def map_of_eq_None_iff)
next
  case (Some e)
  have inj: "inj_on (\<lambda>e. itemKey (elemValue c e)) (set (lruList c))"
    using cache_shape_key_inj [OF assms] by (auto simp: inj_on_def)
  have "distinct (map fst (lruContents c))"
    using inj assms by (simp add: lruContents_def o_def distinct_map cache_shape_def)
  moreover have "(k, embedding (itemValue (elemValue c e))) \<in> set (lruContents c)"
    using Some cache_shape_Some [OF assms, of k e] by (auto simp: lruContents_def)
  ultimately show ?thesis using Some by simp
qed

lemma lruContents_remove:
  assumes sh: "cache_shape c" and e: "e \<in> set (lruList c)"
  shows "map (\<lambda>x. (itemKey (elemValue c x), embedding (itemValue (elemValue c x))))
      (removeAll e (lruList c)) = without_key (itemKey (elemValue c e)) (lruContents c)"
proof -
  have "x = e \<longleftrightarrow> itemKey (elemValue c x) = itemKey (elemValue c e)" if "x \<in> set (lruList c)" for x
    using cache_shape_key_inj [OF sh that e] by auto
  then have "removeAll e (lruList c) =
      filter (\<lambda>x. itemKey (elemValue c x) \<noteq> itemKey (elemValue c e)) (lruList c)"
    by (auto simp: removeAll_filter_not_eq intro!: filter_cong)
  then show ?thesis
    by (simp add: lruContents_def without_key_def filter_map o_def)
qed

lemma lruContents_get:
  assumes sh: "cache_shape c"
  shows "fst (cacheGet c k) = fst (spec_get (lruContents c) k)"
    and "lruContents (snd (cacheGet c k)) = snd (spec_get (lruContents c) k)"
proof -
  have "fst (cacheGet c k) = fst (spec_get (lruContents c) k) \<and>
      lruContents (snd (cacheGet c k)) = snd (spec_get (lruContents c) k)"
  proof (cases "cacheMap c k")
    case None
    then show ?thesis
      by (simp add: cacheGet_None spec_get_def map_of_lruContents [OF sh])
        (simp add: lruContents_def)
  next
    case (Some e)
    then have e: "e \<in> set (lruList c)" and k: "itemKey (elemValue c e) = k"
      using cache_shape_Some [OF sh, of k e] by simp_all
    have "lruContents (snd (cacheGet c k)) =
        (k, embedding (itemValue (elemValue c e))) # without_key k (lruContents c)"
      using lruContents_remove [OF sh e] k
      by (simp add: cacheGet_Some [OF Some] lruContents_def moveToFront_def)
    then show ?thesis
      by (simp add: cacheGet_Some [OF Some] spec_get_def map_of_lruContents [OF sh] Some)
  qed
  then show "fst (cacheGet c k) = fst (spec_get (lruContents c) k)"
    and "lruContents (snd (cacheGet c k)) = snd (spec_get (lruContents c) k)" by simp_all
qed

lemma lruContents_evict:
  assumes "cache_shape c"
  shows "lruContents (evictOldest c) =
    (if int (length (lruContents c)) > capacity c then butlast (lruContents c)
     else lruContents c)"
proof (cases "lruList c = []")
  case True
  then show ?thesis by (simp add: evictOldest_def listBack_def lruContents_def)
next
  case False
  then show ?thesis
    using assms
    by (simp add: evictOldest_def listBack_def lruContents_def removeAll_last cache_shape_def
        map_butlast)
qed

lemma lruContents_set:
  assumes sh: "cache_shape c"
  shows "lruContents (cacheSet c k emb now) = spec_set (capacity c) (lruContents c) k emb"
proof (cases "cacheMap c k")
  case None
  let ?v = "\<lparr>embedding = emb, entryTime = now\<rparr>"
  have new: "nextElem c \<notin> set (lruList c)" using sh by (auto simp: cache_shape_def)
  have push: "lruContents (pushEntry c k ?v) = (k, emb) # lruContents c"
    using new by (auto simp: lruContents_def pushEntry_def)
  have cap: "capacity (pushEntry c k ?v) = capacity c" by (simp add: pushEntry_def)
  show ?thesis
    using None lruContents_evict [OF cache_shape_push [OF sh None], of ?v]
    by (simp add: cacheSet_def Let_def spec_set_def map_of_lruContents [OF sh] push cap)
next
  case (Some e)
  let ?v = "\<lparr>embedding = emb, entryTime = now\<rparr>"
  have e: "e \<in> set (lruList c)" and k: "itemKey (elemValue c e) = k"
    using Some cache_shape_Some [OF sh, of k e] by simp_all
  have "map (\<lambda>x. (itemKey (elemValue (touchEntry c e ?v) x),
        embedding (itemValue (elemValue (touchEntry c e ?v) x)))) (removeAll e (lruList c)) =
      map (\<lambda>x. (itemKey (elemValue c x), embedding (itemValue (elemValue c x))))
        (removeAll e (lruList c))"
    by (auto simp: touchEntry_def)
  then have "lruContents (touchEntry c e ?v) = (k, emb) # without_key k (lruContents c)"
    using lruContents_remove [OF sh e] k
    by (simp add: lruContents_def touchEntry_def moveToFront_def)
  then show ?thesis
    by (simp add: cacheSet_def Let_def Some spec_set_def map_of_lruContents [OF sh])
qed

section \<open>Runs of operations\<close>

datatype cache_op = OpGet string | OpSet string "f32 list" int

primrec op_key :: "cache_op \<Rightarrow> string" where
  "op_key (OpGet k) = k"
| "op_key (OpSet k emb now) = k"

primrec is_set :: "cache_op \<Rightarrow> bool" where
  "is_set (OpGet k) = False"
| "is_set (OpSet k emb now) = True"

primrec cacheStep :: "embeddingCache \<Rightarrow> cache_op \<Rightarrow> embeddingCache" where
  "cacheStep c (OpGet k) = snd (cacheGet c k)"
| "cacheStep c (OpSet k emb now) = cacheSet c k emb now"

fun cacheRun :: "embeddingCache \<Rightarrow> cache_op list \<Rightarrow> embeddingCache" where
  "cacheRun c [] = c"
| "cacheRun c (x # xs) = cacheRun (cacheStep c x) xs"

primrec spec_step :: "int \<Rightarrow> (string \<times> f32 list) list \<Rightarrow> cache_op \<Rightarrow> (string \<times> f32 list) list" where
  "spec_step cap xs (OpGet k) = snd (spec_get xs k)"
| "spec_step cap xs (OpSet k emb now) = spec_set cap xs k emb"

lemma cache_inv_step: "cache_inv c \<Longrightarrow> cache_inv (cacheStep c x)"
  by (cases x) (simp_all add: cache_inv_get cache_inv_set)

lemma cache_inv_run: "cache_inv c \<Longrightarrow> cache_inv (cacheRun c xs)"
  by (induction xs arbitrary: c) (auto simp: cache_inv_step)

lemma lruContents_step:
  "cache_shape c \<Longrightarrow> lruContents (cacheStep c x) = spec_step (capacity c) (lruContents c) x"
  by (cases x) (simp_all add: lruContents_get lruContents_set)

lemma capacity_set [simp]: "capacity (cacheSet c k emb now) = capacity c"
  by (auto simp: cacheSet_def Let_def touchEntry_def pushEntry_def evictOldest_def
      split: option.splits)

lemma capacity_step [simp]: "capacity (cacheStep c x) = capacity c"
  by (cases x) (auto simp: cacheGet_def split: option.splits)

section \<open>Retention\<close>

text \<open>
  \<open>kept cap k v T xs\<close>: the pair is in the list, and every key in front of it was touched
  since it was stored (is in \<open>T\<close>).
\<close>

definition kept :: "int \<Rightarrow> string \<Rightarrow> 'v \<Rightarrow> string set \<Rightarrow> (string \<times> 'v) list \<Rightarrow> bool" where
  "kept cap k v T xs \<longleftrightarrow>
     (\<exists>b post. xs = b @ (k, v) # post \<and> fst ` set b \<subseteq> T) \<and>
     distinct (map fst xs) \<and> int (length xs) \<le> cap"

lemma kept_lookup: "kept cap k v T xs \<Longrightarrow> map_of xs k = Some v"
  by (auto simp: kept_def map_add_def map_of_eq_None_iff split: option.splits)

lemma distinct_without_key:
  "distinct (map fst xs) \<Longrightarrow> distinct (map fst (without_key k xs))"
  by (simp add: without_key_def distinct_map_filter)

lemma without_key_front:
  assumes "distinct (map fst xs)" "map_of xs j \<noteq> None"
  shows "length (without_key j xs) < length xs" and "j \<notin> fst ` set (without_key j xs)"
proof -
  from assms(2) obtain w where "(j, w) \<in> set xs" by (auto dest: map_of_SomeD)
  then show "length (without_key j xs) < length xs"
    unfolding without_key_def by (intro length_filter_less) auto
qed (auto simp: without_key_def)

lemma kept_move:
  assumes kept: "kept cap k v T xs" and j: "map_of xs j \<noteq> None" and w: "j = k \<Longrightarrow> w = v"
  shows "kept cap k v (insert j T) ((j, w) # without_key j xs)"
proof -
  obtain b post where xs: "xs = b @ (k, v) # post" and b: "fst ` set b \<subseteq> T"
    using kept by (auto simp: kept_def)
  have "\<exists>b' post'. (j, w) # without_key j xs = b' @ (k, v) # post' \<and> fst ` set b' \<subseteq> insert j T"
  proof (cases "j = k")
    case True
    with w show ?thesis by (intro exI [of _ "[]"] exI [of _ "without_key j xs"]) auto
  next
    case False
    with xs b show ?thesis
      by (intro exI [of _ "(j, w) # without_key j b"] exI [of _ "without_key j post"])
        (auto simp: without_key_def)
  qed
  then show ?thesis
    using kept j without_key_front [of xs j] distinct_without_key [of xs j]
    by (auto simp: kept_def)
qed

lemma kept_push:
  assumes kept: "kept cap k v T xs" and j: "map_of xs j = None"
    and T: "finite T" "int (card (insert j T)) < cap"
  shows "kept cap k v (insert j T) (if int (length ((j, w) # xs)) > cap
    then butlast ((j, w) # xs) else (j, w) # xs)"
proof -
  obtain b post where xs: "xs = b @ (k, v) # post" and b: "fst ` set b \<subseteq> T"
    using kept by (auto simp: kept_def)
  have nj: "j \<notin> fst ` set xs" using j by (simp add: map_of_eq_None_iff)
  show ?thesis
  proof (cases "int (length ((j, w) # xs)) > cap")
    case False
    have "(j, w) # xs = ((j, w) # b) @ (k, v) # post \<and> fst ` set ((j, w) # b) \<subseteq> insert j T"
      using xs b by auto
    then have "\<exists>b' post'. (j, w) # xs = b' @ (k, v) # post' \<and> fst ` set b' \<subseteq> insert j T"
      by blast
    then show ?thesis
      using kept nj False by (simp add: kept_def)
  next
    case True
    have "distinct (map fst b)" using kept xs by (simp add: kept_def)
    from distinct_card [OF this] have "length b = card (fst ` set b)" by simp
    also have "\<dots> \<le> card (T - {j})"
      using b nj xs T(1) by (intro card_mono) auto
    also have "\<dots> < card (insert j T)"
      using T(1) by (intro psubset_card_mono) auto
    finally have "post \<noteq> []" using True T(2) xs by auto
    then have cut: "butlast ((j, w) # xs) = ((j, w) # b) @ (k, v) # butlast post"
      using xs by (simp add: butlast_append)
    have "distinct (map fst ((j, w) # xs))" using kept nj by (simp add: kept_def)
    then have "distinct (butlast (map fst ((j, w) # xs)))" by (rule distinct_butlast)
    then have "distinct (map fst (butlast ((j, w) # xs)))" by (simp only: map_butlast)
    moreover have "int (length (butlast ((j, w) # xs))) \<le> cap"
      using kept by (simp add: kept_def)
    moreover have "fst ` set ((j, w) # b) \<subseteq> insert j T" using b by auto
    ultimately have "kept cap k v (insert j T) (butlast ((j, w) # xs))"
      using cut unfolding kept_def by blast
    with True show ?thesis by (simp only: if_True)
  qed
qed

lemma kept_drop_key:
  assumes "kept cap k v T xs"
  shows "kept cap k v (T - {k}) xs"
proof -
  obtain b post where xs: "xs = b @ (k, v) # post" and b: "fst ` set b \<subseteq> T"
    using assms by (auto simp: kept_def)
  moreover have "k \<notin> fst ` set b" using assms xs by (simp add: kept_def)
  ultimately have "fst ` set b \<subseteq> T - {k}" by blast
  with xs assms show ?thesis unfolding kept_def by blast
qed

lemma kept_step:
  assumes kept: "kept cap k v T xs" and fin: "finite T"
    and T: "op_key x \<noteq> k \<Longrightarrow> int (card (insert (op_key x) T)) < cap"
    and nset: "is_set x \<Longrightarrow> op_key x \<noteq> k"
  shows "kept cap k v (insert (op_key x) T - {k}) (spec_step cap xs x)"
proof -
  have "kept cap k v (insert (op_key x) T) (spec_step cap xs x)"
  proof (cases x)
    case (OpGet j)
    show ?thesis
    proof (cases "map_of xs j")
      case None
      with kept OpGet show ?thesis by (auto simp: spec_get_def kept_def)
    next
      case (Some w)
      moreover have "j = k \<Longrightarrow> w = v" using kept_lookup [OF kept] Some by simp
      ultimately show ?thesis using kept_move [OF kept, of j w] OpGet by (simp add: spec_get_def)
    qed
  next
    case (OpSet j w now)
    then have "j \<noteq> k" using nset by simp
    then show ?thesis
      using kept_move [OF kept, of j w] kept_push [OF kept, of j w] T fin OpSet
      by (auto simp: spec_set_def)
  qed
  then show ?thesis by (rule kept_drop_key)
qed

lemma kept_run:
  assumes "cache_inv c" "kept (capacity c) k v T (lruContents c)" "finite T" "k \<notin> T"
    and "int (card (T \<union> (op_key ` set xs - {k}))) < capacity c"
    and "\<forall>x \<in> set xs. is_set x \<longrightarrow> op_key x \<noteq> k"
  shows "map_of (lruContents (cacheRun c xs)) k = Some v"
  using assms
proof (induction xs arbitrary: c T)
  case Nil
  then show ?case by (simp add: kept_lookup)
next
  case (Cons x xs)
  let ?U = "insert (op_key x) T - {k}"
  let ?rest = "op_key ` set xs - {k}"
  have sh: "cache_shape c" using Cons.prems(1) by (simp add: cache_inv_def)
  have eq: "?U \<union> ?rest = T \<union> (op_key ` set (x # xs) - {k})"
    using Cons.prems(4) by auto
  have "int (card (insert (op_key x) T)) < capacity c" if "op_key x \<noteq> k"
  proof -
    have "card (insert (op_key x) T) \<le> card (T \<union> (op_key ` set (x # xs) - {k}))"
      using that Cons.prems(3) by (intro card_mono) auto
    with Cons.prems(5) show ?thesis by linarith
  qed
  then have "kept (capacity c) k v ?U (lruContents (cacheStep c x))"
    using kept_step [OF Cons.prems(2,3), of x] Cons.prems(6)
    by (simp add: lruContents_step [OF sh])
  then show ?case
    using Cons.IH [of "cacheStep c x" ?U] Cons.prems eq cache_inv_step [OF Cons.prems(1)]
    by simp
qed

lemma kept_after_set:
  assumes "cache_inv c" "0 < capacity c"
  shows "kept (capacity c) k emb {} (lruContents (cacheSet c k emb now))"
proof -
  have sh: "cache_shape (cacheSet c k emb now)"
    using cache_inv_set [OF assms(1)] by (simp add: cache_inv_def)
  have len: "int (length (lruContents (cacheSet c k emb now))) \<le> capacity c"
    using cache_inv_set [OF assms(1), of k emb now] assms(2)
    by (simp add: cache_inv_def lruContents_def)
  have "inj_on (\<lambda>e. itemKey (elemValue (cacheSet c k emb now) e))
      (set (lruList (cacheSet c k emb now)))"
    using cache_shape_key_inj [OF sh] by (auto simp: inj_on_def)
  then have dist: "distinct (map fst (lruContents (cacheSet c k emb now)))"
    using sh by (simp add: lruContents_def o_def distinct_map cache_shape_def)
  have "\<exists>post. lruContents (cacheSet c k emb now) = (k, emb) # post"
    using assms by (cases "lruContents c")
      (auto simp: lruContents_set cache_inv_def spec_set_def)
  with len dist show ?thesis by (auto simp: kept_def)
qed

section \<open>Properties\<close>

text \<open>
  Starting from a new cache, any sequence of lookups and stores leaves the map and the
  recency list consistent (distinct live elements, each key mapped to the one element that
  carries it) and the number of entries within the capacity.
\<close>

theorem cache_consistent:
  "cache_inv (cacheRun (newEmbeddingCache cap) xs)"
  by (rule cache_inv_run [OF cache_inv_new])

text \<open>
  C12: the pointer structure implements the abstract LRU list: a lookup returns what the
  recency list holds, and each operation changes the list as the specification says.
\<close>

theorem cache_refines_lru:
  assumes "cache_inv c"
  shows "fst (cacheGet c k) = map_of (lruContents c) k \<and>
    lruContents (cacheStep c x) = spec_step (capacity c) (lruContents c) x"
  using assms lruContents_get [of c k] lruContents_step [of c x]
  by (auto simp: cache_inv_def spec_get_def split: option.splits)

theorem cache_refines_lru_witness:
  "\<exists>c. fst (cacheGet c ''a'') = Some [1] \<and>
     lruContents (cacheStep c (OpGet ''a'')) = [(''a'', [1]), (''b'', [2])]"
proof -
  let ?c = "cacheRun (newEmbeddingCache 2) [OpSet ''a'' [1] 0, OpSet ''b'' [2] 1]"
  have "cache_inv ?c" by (rule cache_inv_run [OF cache_inv_new])
  from cache_refines_lru [OF this, of "''a''" "OpGet ''a''"] show ?thesis
    by (intro exI [of _ ?c])
      (simp add: newEmbeddingCache_def cacheSet_def Let_def pushEntry_def evictOldest_def
        lruContents_def spec_get_def without_key_def)
qed

text \<open>
  An embedding stored in a cache of positive capacity is still returned after any
  sequence of operations that does not store the same key again and touches fewer other keys
  than the capacity.
\<close>

theorem cache_retains:
  assumes "cache_inv c"
    and "int (card (op_key ` set xs - {k})) < capacity c"
    and "\<forall>x \<in> set xs. is_set x \<longrightarrow> op_key x \<noteq> k"
  shows "fst (cacheGet (cacheRun (cacheSet c k emb now) xs) k) = Some emb"
proof -
  let ?c = "cacheSet c k emb now"
  have inv: "cache_inv ?c" using assms(1) by (rule cache_inv_set)
  have "map_of (lruContents (cacheRun ?c xs)) k = Some emb"
  proof (rule kept_run [OF inv])
    show "kept (capacity ?c) k emb {} (lruContents ?c)"
      using kept_after_set [OF assms(1), of k emb now] assms(2) by simp
  qed (use assms in auto)
  then show ?thesis
    using cache_inv_run [OF inv, of xs] lruContents_get(1) [of "cacheRun ?c xs" k]
    by (simp add: cache_inv_def spec_get_def)
qed

theorem cache_retains_example:
  "fst (cacheGet (cacheRun (cacheSet (newEmbeddingCache 2) ''a'' [7] 0)
     [OpSet ''b'' [8] 1, OpGet ''a'', OpGet ''b'']) ''a'') = Some [7]"
proof (rule cache_retains)
  show "cache_inv (newEmbeddingCache 2)" by (rule cache_inv_new)
  have "op_key ` set [OpSet ''b'' [8] 1, OpGet ''a'', OpGet ''b''] - {''a''} = {''b''}" by auto
  then show "int (card (op_key ` set [OpSet ''b'' [8] 1, OpGet ''a'', OpGet ''b''] - {''a''}))
      < capacity (newEmbeddingCache 2)" by (simp add: newEmbeddingCache_def)
qed simp

end
