(* ===== verification/GoJson.thy ===== *)
theory GoJson
  imports GoNumber Events "HOL-Library.Monad_Syntax"
begin

text \<open>
  \<open>encoding/json\<close> as the storage uses it: \<open>Marshal\<close> of a map of dynamic values and
  \<open>Unmarshal\<close> into a \<open>map[string]interface{}\<close>. Strings are byte sequences; the encoder
  replaces bytes that are no valid UTF-8, escapes as Go does (HTML characters, U+2028 and
  U+2029 included) and refuses NaN and infinities; the decoder accepts the whole JSON
  grammar. Its recursion is bounded by fuel; the entry point gives enough for every text (two
  units per byte). Go's limit of 10000 nested values is not modelled.
\<close>

section \<open>UTF-8\<close>

abbreviation cb :: "char \<Rightarrow> nat" where
  "cb c \<equiv> of_char c"

definition cont :: "nat \<Rightarrow> nat \<Rightarrow> nat \<Rightarrow> string \<Rightarrow> bool" where
  "cont i lo hi s \<longleftrightarrow> i < length s \<and> lo \<le> cb (s ! i) \<and> cb (s ! i) \<le> hi"

text \<open>
  The table of lead bytes: the length of the encoding (0 for a byte that starts none) and the
  range the second byte has to be in.
\<close>

definition lead :: "nat \<Rightarrow> nat \<times> nat \<times> nat" where
  "lead b =
     (if b < 0x80 then (1, 0, 0)
      else if 0xC2 \<le> b \<and> b \<le> 0xDF then (2, 0x80, 0xBF)
      else if 0xE0 \<le> b \<and> b \<le> 0xEF then
        (3, if b = 0xE0 then 0xA0 else 0x80, if b = 0xED then 0x9F else 0xBF)
      else if 0xF0 \<le> b \<and> b \<le> 0xF4 then
        (4, if b = 0xF0 then 0x90 else 0x80, if b = 0xF4 then 0x8F else 0xBF)
      else (0, 0, 0))"

text \<open>
  \<open>utf8.DecodeRuneInString\<close>: the number of bytes of the valid encoding at the front of the
  string, 0 when the front is no valid encoding (the library then reports one bad byte).
\<close>

definition rune_size :: "string \<Rightarrow> nat" where
  "rune_size s =
     (case s of
        [] \<Rightarrow> 0
      | c # t \<Rightarrow>
          (case lead (cb c) of (n, lo, hi) \<Rightarrow>
             if n \<le> 1 then n
             else if cont 0 lo hi t \<and> list_all (\<lambda>i. cont i 0x80 0xBF t) [1..<n - 1] then n
             else 0))"

function valid_utf8 :: "string \<Rightarrow> bool" where
  "valid_utf8 [] = True"
| "valid_utf8 (c # t) =
     (rune_size (c # t) \<noteq> 0 \<and> valid_utf8 (drop (rune_size (c # t) - 1) t))"
  by pat_completeness auto
termination
  by (relation "measure length") auto

lemma rune_size_ascii [simp]: "cb c < 0x80 \<Longrightarrow> rune_size (c # t) = 1"
  by (simp add: rune_size_def lead_def)

lemma rune_size_Cons:
  "rune_size (c # t) \<noteq> 0 \<Longrightarrow> \<exists>lo hi. lead (cb c) = (rune_size (c # t), lo, hi) \<and>
     (1 < rune_size (c # t) \<longrightarrow>
        cont 0 lo hi t \<and> (\<forall>i \<in> {1..<rune_size (c # t) - 1}. cont i 0x80 0xBF t))"
  by (auto simp: rune_size_def list_all_iff split: prod.splits if_splits)

lemma cont_length: "cont i lo hi t \<Longrightarrow> i < length t"
  by (simp add: cont_def)

lemma rune_size_le: "rune_size s \<le> length s"
proof (cases "s = [] \<or> rune_size s \<le> 1")
  case True
  then show ?thesis by (cases s) (auto simp: rune_size_def)
next
  case False
  then obtain c t where s: "s = c # t" and big: "1 < rune_size (c # t)" by (cases s) auto
  then obtain lo hi where l: "cont 0 lo hi t"
    "\<forall>i \<in> {1..<rune_size (c # t) - 1}. cont i 0x80 0xBF t"
    using rune_size_Cons [of c t] by auto
  show ?thesis
  proof (cases "rune_size (c # t) = 2")
    case True
    then show ?thesis using cont_length [OF l(1)] by (simp add: s Suc_le_eq)
  next
    case False
    with big have "rune_size (c # t) - 2 \<in> {1..<rune_size (c # t) - 1}" by auto
    then have "rune_size (c # t) - 2 < length t" using l(2) cont_length by blast
    then show ?thesis by (simp add: s)
  qed
qed

text \<open>The size depends on the bytes of the encoding only.\<close>

lemma cont_take: "cont i lo hi t \<Longrightarrow> i < n \<Longrightarrow> cont i lo hi (take n t @ r)"
  by (auto simp: cont_def nth_append)

lemma rune_size_take:
  assumes "rune_size s = n" "n \<noteq> 0"
  shows "rune_size (take n s @ r) = n"
proof -
  obtain c u where s: "s = c # u" using assms by (cases s) (auto simp: rune_size_def)
  have t: "take n s @ r = c # take (n - 1) u @ r" using assms(2) by (simp add: s take_Cons')
  obtain lo hi where l: "lead (cb c) = (n, lo, hi)"
    "1 < n \<longrightarrow> cont 0 lo hi u \<and> (\<forall>i \<in> {1..<n - 1}. cont i 0x80 0xBF u)"
    using rune_size_Cons [of c u] assms by (auto simp: s)
  then show ?thesis
    using assms(2) unfolding t rune_size_def
    by (auto simp: list_all_iff intro!: cont_take)
qed

lemma rune_size_high: "rune_size (c # t) \<noteq> 0 \<Longrightarrow> \<not> cb c < 0x80 \<Longrightarrow> 1 < rune_size (c # t)"
  using rune_size_Cons [of c t] by (auto simp: lead_def split: if_splits)

section \<open>Strings\<close>

abbreviation quot :: char where
  "quot \<equiv> CHR 0x22"

abbreviation bslash :: char where
  "bslash \<equiv> CHR 0x5C"

definition hex_digit :: "nat \<Rightarrow> char" where
  "hex_digit d = (if d < 10 then char_of (48 + d) else char_of (87 + d))"

definition hex_val :: "char \<Rightarrow> nat option" where
  "hex_val c =
     (if 48 \<le> cb c \<and> cb c \<le> 57 then Some (cb c - 48)
      else if 97 \<le> cb c \<and> cb c \<le> 102 then Some (cb c - 87)
      else if 65 \<le> cb c \<and> cb c \<le> 70 then Some (cb c - 55)
      else None)"

text \<open>The encoder on one ASCII character (\<open>appendString\<close> with HTML escaping).\<close>

definition esc_ascii :: "char \<Rightarrow> string" where
  "esc_ascii c =
     (if c = quot \<or> c = bslash then [bslash, c]
      else if cb c = 8 then [bslash, CHR ''b'']
      else if cb c = 12 then [bslash, CHR ''f'']
      else if cb c = 10 then [bslash, CHR ''n'']
      else if cb c = 13 then [bslash, CHR ''r'']
      else if cb c = 9 then [bslash, CHR ''t'']
      else if cb c < 32 \<or> c = CHR ''<'' \<or> c = CHR ''>'' \<or> c = CHR ''&'' then
        bslash # ''u00'' @ [hex_digit (cb c div 16), hex_digit (cb c mod 16)]
      else [c])"

definition line_sep :: string where
  "line_sep = [CHR 0xE2, CHR 0x80, CHR 0xA8]"

definition para_sep :: string where
  "para_sep = [CHR 0xE2, CHR 0x80, CHR 0xA9]"

function json_esc :: "string \<Rightarrow> string" where
  "json_esc [] = []"
| "json_esc (c # t) =
     (if cb c < 0x80 then esc_ascii c @ json_esc t
      else if rune_size (c # t) = 0 then bslash # ''ufffd'' @ json_esc t
      else
        (if take (rune_size (c # t)) (c # t) = line_sep then bslash # ''u2028''
         else if take (rune_size (c # t)) (c # t) = para_sep then bslash # ''u2029''
         else take (rune_size (c # t)) (c # t))
        @ json_esc (drop (rune_size (c # t) - 1) t))"
  by pat_completeness auto
termination
  by (relation "measure length") auto

definition quote :: "string \<Rightarrow> string" where
  "quote s = quot # json_esc s @ [quot]"

text \<open>\<open>utf8.AppendRune\<close>; surrogates and values beyond the last plane become U+FFFD.\<close>

definition encode_rune :: "nat \<Rightarrow> string" where
  "encode_rune r =
     (if r < 0x80 then [char_of r]
      else if r < 0x800 then [char_of (0xC0 + r div 64), char_of (0x80 + r mod 64)]
      else if (0xD800 \<le> r \<and> r \<le> 0xDFFF) \<or> 0x10FFFF < r then [CHR 0xEF, CHR 0xBF, CHR 0xBD]
      else if r < 0x10000 then
        [char_of (0xE0 + r div 4096), char_of (0x80 + r div 64 mod 64), char_of (0x80 + r mod 64)]
      else
        [char_of (0xF0 + r div 262144), char_of (0x80 + r div 4096 mod 64),
         char_of (0x80 + r div 64 mod 64), char_of (0x80 + r mod 64)])"

fun hex4 :: "string \<Rightarrow> (nat \<times> string) option" where
  "hex4 (a # b # c # d # t) =
     do {
       w \<leftarrow> hex_val a;
       x \<leftarrow> hex_val b;
       y \<leftarrow> hex_val c;
       z \<leftarrow> hex_val d;
       Some (4096 * w + 256 * x + 16 * y + z, t)
     }"
| "hex4 _ = None"

text \<open>After \<open>\\u\<close>: one code point, or a surrogate pair written as two escapes.\<close>

definition unicode_esc :: "string \<Rightarrow> (string \<times> string) option" where
  "unicode_esc s =
     (case hex4 s of
        None \<Rightarrow> None
      | Some (r, t) \<Rightarrow>
          if 0xD800 \<le> r \<and> r < 0xE000 then
            (case (if take 2 t = [bslash, CHR ''u''] then hex4 (drop 2 t) else None) of
               Some (r2, u) \<Rightarrow>
                 if r < 0xDC00 \<and> 0xDC00 \<le> r2 \<and> r2 < 0xE000
                 then Some (encode_rune ((r - 0xD800) * 1024 + (r2 - 0xDC00) + 0x10000), u)
                 else Some (encode_rune 0xFFFD, t)
             | None \<Rightarrow> Some (encode_rune 0xFFFD, t))
          else Some (encode_rune r, t))"

text \<open>After a backslash.\<close>

fun unescape :: "string \<Rightarrow> (string \<times> string) option" where
  "unescape [] = None"
| "unescape (c # t) =
     (if c = quot \<or> c = bslash \<or> c = CHR ''/'' then Some ([c], t)
      else if c = CHR ''b'' then Some ([char_of (8 :: nat)], t)
      else if c = CHR ''f'' then Some ([char_of (12 :: nat)], t)
      else if c = CHR ''n'' then Some ([char_of (10 :: nat)], t)
      else if c = CHR ''r'' then Some ([char_of (13 :: nat)], t)
      else if c = CHR ''t'' then Some ([char_of (9 :: nat)], t)
      else if c = CHR ''u'' then unicode_esc t
      else None)"

lemma hex4_length: "hex4 s = Some (r, t) \<Longrightarrow> length t < length s"
  by (induction s rule: hex4.induct) (auto split: bind_splits)

lemma unicode_esc_length: "unicode_esc s = Some (o', t) \<Longrightarrow> length t < length s"
  by (auto simp: unicode_esc_def split: option.splits if_splits dest!: hex4_length)

lemma unescape_length: "unescape s = Some (o', t) \<Longrightarrow> length t < length s"
  by (cases s) (auto split: if_splits dest: unicode_esc_length)

text \<open>The rest of a string literal, its opening quote consumed.\<close>

function parse_str :: "string \<Rightarrow> (string \<times> string) option" where
  "parse_str [] = None"
| "parse_str (c # t) =
     (if c = quot then Some ([], t)
      else if c = bslash then
        (case unescape t of
           None \<Rightarrow> None
         | Some (out, u) \<Rightarrow> do { (s, r) \<leftarrow> parse_str u; Some (out @ s, r) })
      else if cb c < 32 then None
      else if rune_size (c # t) = 0 then
        do { (s, r) \<leftarrow> parse_str t; Some (encode_rune 0xFFFD @ s, r) }
      else
        do { (s, r) \<leftarrow> parse_str (drop (rune_size (c # t) - 1) t);
             Some (take (rune_size (c # t)) (c # t) @ s, r) })"
  by pat_completeness auto
termination
  by (relation "measure length") (auto dest: unescape_length)

subsection \<open>A string literal reads back\<close>

lemma hex_val_digit [simp]: "d < 16 \<Longrightarrow> hex_val (hex_digit d) = Some d"
  by (auto simp: hex_digit_def hex_val_def)

lemma hex4_u00: "n < 256 \<Longrightarrow>
    hex4 (CHR ''0'' # CHR ''0'' # hex_digit (n div 16) # hex_digit (n mod 16) # t) = Some (n, t)"
  using hex_val_digit [of "n div 16"] hex_val_digit [of "n mod 16"]
  by (simp add: hex_val_def [of "CHR ''0''"])

abbreviation put_front :: "string \<Rightarrow> (string \<times> string) option \<Rightarrow> (string \<times> string) option" where
  "put_front s \<equiv> map_option (map_prod ((@) s) id)"

lemma put_front_bind: "do { (s, r) \<leftarrow> x; Some (out @ s, r) } = put_front out x"
  by (auto split: bind_split)

lemma parse_str_end: "parse_str (quot # t) = Some ([], t)"
  by simp

lemma parse_bs: "unescape t = Some (out, u) \<Longrightarrow> parse_str (bslash # t) = put_front out (parse_str u)"
  by (simp add: put_front_bind del: unescape.simps)

lemma parse_chunk:
  assumes "c \<noteq> quot" "c \<noteq> bslash" "32 \<le> cb c" "rune_size (c # t) \<noteq> 0"
  shows "parse_str (c # t) =
    put_front (take (rune_size (c # t)) (c # t)) (parse_str (drop (rune_size (c # t)) (c # t)))"
  using assms by (simp add: put_front_bind drop_Cons')

declare parse_str.simps(2) [simp del]

lemma unescape_u00:
  assumes "cb c < 0x80"
  shows "unescape (''u00'' @ hex_digit (cb c div 16) # hex_digit (cb c mod 16) # w) = Some ([c], w)"
  using assms hex4_u00 [of "cb c" w] by (simp add: unicode_esc_def encode_rune_def del: hex4.simps)

lemma esc_ascii_cases:
  assumes "cb c < 0x80"
  shows "(\<exists>t. esc_ascii c = bslash # t \<and> (\<forall>w. unescape (t @ w) = Some ([c], w))) \<or>
    esc_ascii c = [c] \<and> c \<noteq> quot \<and> c \<noteq> bslash \<and> 32 \<le> cb c"
proof -
  have b: "c = char_of (cb c)" by simp
  consider "c = quot \<or> c = bslash"
    | "c \<noteq> quot" "c \<noteq> bslash" "cb c = 8 \<or> cb c = 12 \<or> cb c = 10 \<or> cb c = 13 \<or> cb c = 9"
    | "c \<noteq> quot" "c \<noteq> bslash" "\<not> (cb c = 8 \<or> cb c = 12 \<or> cb c = 10 \<or> cb c = 13 \<or> cb c = 9)"
    by blast
  then show ?thesis
  proof cases
    case 1
    then show ?thesis by (auto simp: esc_ascii_def)
  next
    case 2
    from 2(3) show ?thesis
      by (elim disjE) (use 2(1,2) b in \<open>simp_all add: esc_ascii_def\<close>)
  next
    case 3
    show ?thesis
    proof (cases "cb c < 32 \<or> c = CHR ''<'' \<or> c = CHR ''>'' \<or> c = CHR ''&''")
      case True
      then have "esc_ascii c = bslash # ''u00'' @ [hex_digit (cb c div 16), hex_digit (cb c mod 16)]"
        using 3 by (simp add: esc_ascii_def)
      moreover have "unescape ((''u00'' @ [hex_digit (cb c div 16), hex_digit (cb c mod 16)]) @ w)
          = Some ([c], w)" for w
        using unescape_u00 [OF assms, of w] by simp
      ultimately show ?thesis by blast
    next
      case False
      then show ?thesis using 3 by (simp add: esc_ascii_def)
    qed
  qed
qed

lemma parse_esc_ascii:
  assumes "cb c < 0x80"
  shows "parse_str (esc_ascii c @ w) = put_front [c] (parse_str w)"
  using esc_ascii_cases [OF assms]
proof (elim disjE exE conjE)
  fix t assume "esc_ascii c = bslash # t" "\<forall>w. unescape (t @ w) = Some ([c], w)"
  then show ?thesis by (simp add: parse_bs)
next
  assume "esc_ascii c = [c]" "c \<noteq> quot" "c \<noteq> bslash" "32 \<le> cb c"
  then show ?thesis using parse_chunk [of c w] assms by simp
qed

lemma sep_bytes:
  "char_of (226 :: nat) = CHR 0xE2" "char_of (128 :: nat) = CHR 0x80"
  "char_of (168 :: nat) = CHR 0xA8" "char_of (169 :: nat) = CHR 0xA9"
  by (simp_all add: char_of_eq_iff)

lemma parse_json_esc:
  assumes "valid_utf8 s"
  shows "parse_str (json_esc s @ quot # r) = Some (s, r)"
  using assms
proof (induction s rule: json_esc.induct)
  case 1
  show ?case by (simp add: parse_str.simps)
next
  case (2 c t)
  show ?case
  proof (cases "cb c < 0x80")
    case True
    with 2 show ?thesis by (simp add: parse_esc_ascii)
  next
    case False
    define n where "n = rune_size (c # t)"
    define u where "u = take n (c # t)"
    define d where "d = drop n (c # t)"
    define e where "e = json_esc d @ quot # r"
    have n0: "n \<noteq> 0" using 2(4) by (simp add: n_def)
    have d: "d = drop (n - 1) t" using n0 by (simp add: d_def drop_Cons')
    have "valid_utf8 d" using 2(4) by (simp add: d n_def)
    then have IH: "parse_str e = Some (d, r)"
      using 2(3) False n0 by (simp add: d n_def e_def)
    have ud: "u @ d = c # t" by (simp add: u_def d_def)
    have len: "length u = n" using rune_size_le [of "c # t"] by (simp add: u_def n_def)
    obtain u' where u': "u = c # u'" using n0 by (cases n) (auto simp: u_def)
    have "parse_str ((if u = line_sep then bslash # ''u2028''
        else if u = para_sep then bslash # ''u2029'' else u) @ e) = put_front u (parse_str e)"
      (is "parse_str (?x @ e) = _")
    proof -
      have p1: "parse_str ((bslash # ''u2028'') @ e) = put_front line_sep (parse_str e)"
        using parse_bs [of "''u2028'' @ e"]
        by (simp add: unicode_esc_def hex_val_def encode_rune_def line_sep_def para_sep_def sep_bytes)
      have p2: "parse_str ((bslash # ''u2029'') @ e) = put_front para_sep (parse_str e)"
        using parse_bs [of "''u2029'' @ e"]
        by (simp add: unicode_esc_def hex_val_def encode_rune_def line_sep_def para_sep_def sep_bytes)
      have p3: "parse_str (u @ e) = put_front u (parse_str e)"
      proof -
        have sz: "rune_size (c # u' @ e) = n"
          using rune_size_take [OF n_def [symmetric] n0, of e]
          unfolding u_def [symmetric] u' by simp
        have "c \<noteq> quot" "c \<noteq> bslash" using False by auto
        then show ?thesis
          using parse_chunk [of c "u' @ e"] False sz n0 by (simp add: len [symmetric] u')
      qed
      show ?thesis using p1 p2 p3 by (simp split: if_split)
    qed
    moreover have "json_esc (c # t) = (if u = line_sep then bslash # ''u2028''
        else if u = para_sep then bslash # ''u2029'' else u) @ json_esc d"
      using False n0 by (simp add: n_def u_def d)
    ultimately show ?thesis by (simp add: IH ud e_def [symmetric] del: json_esc.simps)
  qed
qed

section \<open>Values\<close>

fun commas :: "string list \<Rightarrow> string" where
  "commas [] = []"
| "commas [x] = x"
| "commas (x # xs) = x @ CHR '','' # commas xs"

text \<open>
  \<open>json.Marshal\<close> of a value whose numbers are finite. Maps come out in key order, which is
  the order \<open>gomap\<close> keeps.
\<close>

fun json_txt :: "gval \<Rightarrow> string" where
  "json_txt GNil = ''null''"
| "json_txt (GBool b) = (if b then ''true'' else ''false'')"
| "json_txt (GNum x) = f64_text x"
| "json_txt (GStr s) = quote s"
| "json_txt (GArr vs) = CHR ''['' # commas (map json_txt vs) @ [CHR '']'']"
| "json_txt (GObj m) =
     CHR ''{'' # commas (map (\<lambda>p. quote (fst p) @ CHR '':'' # json_txt (snd p)) m) @ [CHR ''}'']"
| "json_txt (GInt n) = dec_int n"
| "json_txt (GStrMap m) =
     CHR ''{'' # commas (map (\<lambda>p. quote (fst p) @ CHR '':'' # quote (snd p)) m) @ [CHR ''}'']"
| "json_txt (GMsgs ms) =
     CHR ''['' # commas (map (\<lambda>m. CHR ''{'' #
       commas (map (\<lambda>p. quote (fst p) @ CHR '':'' # quote (snd p)) m) @ [CHR ''}'']) ms) @ [CHR '']'']"

definition json_marshal :: "gval \<Rightarrow> string option" where
  "json_marshal v = (if nums_finite v then Some (json_txt v) else None)"

text \<open>
  The layouts of a document: a break in front of every element at depth \<open>d\<close> and of the closing
  bracket, and a gap behind every colon. \<open>json.Marshal\<close> has neither, \<open>json.MarshalIndent\<close> breaks
  lines.
\<close>

definition lay_group :: "char \<Rightarrow> char \<Rightarrow> (nat \<Rightarrow> string) \<Rightarrow> nat \<Rightarrow> string list \<Rightarrow> string" where
  "lay_group opn cls nl d xs =
     opn # commas (map (\<lambda>x. nl (Suc d) @ x) xs) @ (if xs = [] then [] else nl d) @ [cls]"

definition lay_strs :: "(nat \<Rightarrow> string) \<Rightarrow> string \<Rightarrow> nat \<Rightarrow> (string \<times> string) list \<Rightarrow> string" where
  "lay_strs nl gap d m =
     lay_group (CHR ''{'') (CHR ''}'') nl d (map (\<lambda>p. quote (fst p) @ CHR '':'' # gap @ quote (snd p)) m)"

fun json_lay :: "(nat \<Rightarrow> string) \<Rightarrow> string \<Rightarrow> nat \<Rightarrow> gval \<Rightarrow> string" where
  "json_lay nl gap d (GArr vs) = lay_group (CHR ''['') (CHR '']'') nl d (map (json_lay nl gap (Suc d)) vs)"
| "json_lay nl gap d (GObj m) = lay_group (CHR ''{'') (CHR ''}'') nl d
     (map (\<lambda>p. quote (fst p) @ CHR '':'' # gap @ json_lay nl gap (Suc d) (snd p)) m)"
| "json_lay nl gap d (GStrMap m) = lay_strs nl gap d m"
| "json_lay nl gap d (GMsgs ms) = lay_group (CHR ''['') (CHR '']'') nl d (map (lay_strs nl gap (Suc d)) ms)"
| "json_lay nl gap d v = json_txt v"

lemma json_txt_lay: "json_txt v = json_lay (\<lambda>d. []) [] d v"
  by (induction v arbitrary: d rule: json_txt.induct)
    (simp_all add: lay_group_def lay_strs_def cong: map_cong)

fun strings_utf8 :: "gval \<Rightarrow> bool" where
  "strings_utf8 (GStr s) = valid_utf8 s"
| "strings_utf8 (GArr vs) = list_all strings_utf8 vs"
| "strings_utf8 (GObj m) = list_all (\<lambda>p. valid_utf8 (fst p) \<and> strings_utf8 (snd p)) m"
| "strings_utf8 (GStrMap m) = list_all (\<lambda>p. valid_utf8 (fst p) \<and> valid_utf8 (snd p)) m"
| "strings_utf8 (GMsgs ms) = list_all (list_all (\<lambda>p. valid_utf8 (fst p) \<and> valid_utf8 (snd p))) ms"
| "strings_utf8 _ = True"

text \<open>White space between tokens.\<close>

definition is_space :: "char \<Rightarrow> bool" where
  "is_space c \<longleftrightarrow> cb c = 32 \<or> cb c = 9 \<or> cb c = 10 \<or> cb c = 13"

abbreviation skip_ws :: "string \<Rightarrow> string" where
  "skip_ws \<equiv> dropWhile is_space"

definition expect :: "char \<Rightarrow> string \<Rightarrow> string option" where
  "expect c s = (case skip_ws s of [] \<Rightarrow> None | d # t \<Rightarrow> if d = c then Some t else None)"

definition parse_word :: "string \<Rightarrow> gval \<Rightarrow> string \<Rightarrow> (gval \<times> string) option" where
  "parse_word w v s = (if take (length w) s = w then Some (v, drop (length w) s) else None)"

text \<open>A key and the colon behind it.\<close>

definition parse_key :: "string \<Rightarrow> (string \<times> string) option" where
  "parse_key s = do { t \<leftarrow> expect quot s; (k, u) \<leftarrow> parse_str t; w \<leftarrow> expect (CHR '':'') u; Some (k, w) }"

fun pv :: "nat \<Rightarrow> string \<Rightarrow> (gval \<times> string) option"
  and pelems :: "nat \<Rightarrow> string \<Rightarrow> (gval list \<times> string) option"
  and pmembers :: "nat \<Rightarrow> string \<Rightarrow> ((string \<times> gval) list \<times> string) option" where
  "pv 0 s = None"
| "pv (Suc n) s =
     (case skip_ws s of
        [] \<Rightarrow> None
      | c # t \<Rightarrow>
          if c = CHR ''{'' then
            (case expect (CHR ''}'') t of
               Some r \<Rightarrow> Some (GObj [], r)
             | None \<Rightarrow> do { (ms, r) \<leftarrow> pmembers n t; Some (GObj (gm_of ms), r) })
          else if c = CHR ''['' then
            (case expect (CHR '']'') t of
               Some r \<Rightarrow> Some (GArr [], r)
             | None \<Rightarrow> do { (vs, r) \<leftarrow> pelems n t; Some (GArr vs, r) })
          else if c = quot then do { (x, r) \<leftarrow> parse_str t; Some (GStr x, r) }
          else if c = CHR ''t'' then parse_word ''true'' (GBool True) (c # t)
          else if c = CHR ''f'' then parse_word ''false'' (GBool False) (c # t)
          else if c = CHR ''n'' then parse_word ''null'' GNil (c # t)
          else do { (x, r) \<leftarrow> parse_number (c # t); Some (GNum x, r) })"
| "pelems 0 s = None"
| "pelems (Suc n) s =
     do {
       (v, r) \<leftarrow> pv n s;
       case expect (CHR '','') r of
         Some t \<Rightarrow> do { (vs, u) \<leftarrow> pelems n t; Some (v # vs, u) }
       | None \<Rightarrow> do { t \<leftarrow> expect (CHR '']'') r; Some ([v], t) }
     }"
| "pmembers 0 s = None"
| "pmembers (Suc n) s =
     do {
       (k, q) \<leftarrow> parse_key s;
       (v, r) \<leftarrow> pv n q;
       case expect (CHR '','') r of
         Some t \<Rightarrow> do { (ms, u) \<leftarrow> pmembers n t; Some ((k, v) # ms, u) }
       | None \<Rightarrow> do { t \<leftarrow> expect (CHR ''}'') r; Some ([(k, v)], t) }
     }"

text \<open>
  \<open>json.Unmarshal\<close> into a nil \<open>map[string]interface{}\<close>: one value and white space; \<open>null\<close>
  leaves the map nil, any other value but an object is an error.
\<close>

definition json_unmarshal_map :: "string \<Rightarrow> gval gomap option" where
  "json_unmarshal_map s =
     (case pv (2 * length s + 2) s of
        Some (v, r) \<Rightarrow>
          if skip_ws r = [] then (case v of GObj m \<Rightarrow> Some m | GNil \<Rightarrow> Some [] | _ \<Rightarrow> None) else None
      | None \<Rightarrow> None)"

subsection \<open>A value reads back\<close>

lemma skip_ws_char [simp]: "\<not> is_space c \<Longrightarrow> skip_ws (c # t) = c # t"
  by simp

lemma is_space_simps [simp]:
  "\<not> is_space (CHR '','')" "\<not> is_space (CHR '']'')" "\<not> is_space (CHR ''}'')"
  "\<not> is_space (CHR ''['')" "\<not> is_space (CHR ''{'')" "\<not> is_space quot" "\<not> is_space (CHR '':'')"
  "\<not> is_space (CHR ''n'')" "\<not> is_space (CHR ''t'')" "\<not> is_space (CHR ''f'')"
  by (simp_all add: is_space_def)

lemma expect_same [simp]: "\<not> is_space c \<Longrightarrow> expect c (c # t) = Some t"
  by (simp add: expect_def)

lemma expect_other [simp]: "\<not> is_space d \<Longrightarrow> c \<noteq> d \<Longrightarrow> expect c (d # t) = None"
  by (simp add: expect_def)

lemma parse_quote: "valid_utf8 s \<Longrightarrow> parse_str (json_esc s @ quot # r) = Some (s, r)"
  by (rule parse_json_esc)

lemma parse_key_quote: "valid_utf8 k \<Longrightarrow> parse_key (quote k @ CHR '':'' # t) = Some (k, t)"
  by (simp add: parse_key_def quote_def parse_json_esc)

lemma number_end_seps [simp]:
  "number_end []" "number_end (CHR '','' # t)" "number_end (CHR '']'' # t)" "number_end (CHR ''}'' # t)"
  by (simp_all add: number_end_def is_digit_def)

definition starts_value :: "string \<Rightarrow> bool" where
  "starts_value s \<longleftrightarrow> (\<exists>c t. s = c # t \<and> \<not> is_space c \<and> c \<noteq> CHR '']'' \<and> c \<noteq> CHR ''}'')"

lemma json_lay_starts: "starts_value (json_lay nl gap d v @ r)"
proof (cases v)
  case (GNum x)
  then show ?thesis
    using hd_f64_text [of x] by (auto simp: starts_value_def is_digit_def is_space_def)
next
  case (GInt n)
  have "\<exists>c t. dec_nat m = c # t \<and> is_digit c" for m
    using dec_nat_digits [of m] dec_nat_neq_Nil [of m] by (cases "dec_nat m") auto
  from this [of "nat n"] show ?thesis
    by (auto simp: GInt starts_value_def dec_int_def is_digit_def is_space_def)
qed (auto simp: starts_value_def quote_def lay_group_def lay_strs_def)

lemma commas_Cons: "commas (x # xs) = x @ (if xs = [] then [] else CHR '','' # commas xs)"
  by (cases xs) auto

text \<open>White space in front of a token is skipped, and ends a number.\<close>

abbreviation white :: "string \<Rightarrow> bool" where
  "white s \<equiv> list_all is_space s"

lemma skip_white [simp]: "white w \<Longrightarrow> skip_ws (w @ s) = skip_ws s"
  by (induction w) simp_all

lemma expect_white [simp]: "white w \<Longrightarrow> expect c (w @ s) = expect c s"
  by (simp add: expect_def)

lemma pv_white: "white w \<Longrightarrow> pv n (w @ s) = pv n s"
  by (cases n) simp_all

lemma parse_key_white: "white w \<Longrightarrow> valid_utf8 k \<Longrightarrow> parse_key (w @ quote k @ CHR '':'' # t) = Some (k, t)"
  using parse_key_quote [of k t] by (simp add: parse_key_def)

lemma number_end_white: "white w \<Longrightarrow> number_end r \<Longrightarrow> number_end (w @ r)"
  by (cases w) (auto simp: number_end_def is_space_def is_digit_def)

text \<open>
  The induction statement: every longer fuel reads the text of the value, in a layout of white
  space, off the front.
\<close>

definition reads_back :: "(nat \<Rightarrow> string) \<Rightarrow> string \<Rightarrow> gval \<Rightarrow> bool" where
  "reads_back nl gap v \<longleftrightarrow>
     (\<forall>n r d. length (json_lay nl gap d v) < n \<longrightarrow> number_end r \<longrightarrow>
        pv n (json_lay nl gap d v @ r) = Some (v, r))"

lemma pelems_reads_back:
  assumes "\<And>d. white (nl d)" "\<forall>v \<in> set vs. reads_back nl gap v" "vs \<noteq> []"
    and "length (commas (map (\<lambda>v. nl (Suc d) @ json_lay nl gap (Suc d) v) vs)) + 1 < n"
  shows "pelems n (commas (map (\<lambda>v. nl (Suc d) @ json_lay nl gap (Suc d) v) vs) @ nl d @ CHR '']'' # r) =
    Some (vs, r)"
  using assms(2-)
proof (induction vs arbitrary: n)
  case (Cons v vs)
  let ?L = "json_lay nl gap (Suc d)" and ?W = "\<lambda>v. nl (Suc d) @ json_lay nl gap (Suc d) v"
  obtain k where n: "n = Suc k" using Cons.prems by (cases n) auto
  have val: "pv k (nl (Suc d) @ ?L v @ s) = Some (v, s)" if "number_end s" for s
    using that Cons.prems assms(1) by (simp add: n reads_back_def pv_white commas_Cons split: if_splits)
  show ?case
  proof (cases "vs = []")
    case True
    then show ?thesis
      using val [OF number_end_white [OF assms(1)], of "CHR '']'' # r"] assms(1) by (simp add: n)
  next
    case False
    have "pelems k (commas (map ?W vs) @ nl d @ CHR '']'' # r) = Some (vs, r)"
      using Cons.prems False by (intro Cons.IH) (simp_all add: n commas_Cons)
    then show ?thesis
      using False val [of "CHR '','' # commas (map ?W vs) @ nl d @ CHR '']'' # r"] by (simp add: n commas_Cons)
  qed
qed simp

abbreviation member_lay :: "(nat \<Rightarrow> string) \<Rightarrow> string \<Rightarrow> nat \<Rightarrow> string \<times> gval \<Rightarrow> string" where
  "member_lay nl gap d p \<equiv> nl (Suc d) @ quote (fst p) @ CHR '':'' # gap @ json_lay nl gap (Suc d) (snd p)"

lemma pmembers_reads_back:
  assumes "\<And>d. white (nl d)" "white gap"
    and "\<forall>p \<in> set m. valid_utf8 (fst p) \<and> reads_back nl gap (snd p)" "m \<noteq> []"
    and "length (commas (map (member_lay nl gap d) m)) + 1 < n"
  shows "pmembers n (commas (map (member_lay nl gap d) m) @ nl d @ CHR ''}'' # r) = Some (m, r)"
  using assms(3-)
proof (induction m arbitrary: n)
  case (Cons p m)
  obtain j where n: "n = Suc j" using Cons.prems by (cases n) auto
  obtain k v where p: "p = (k, v)" by (cases p)
  have val: "pv j (gap @ json_lay nl gap (Suc d) v @ s) = Some (v, s)" if "number_end s" for s
    using that Cons.prems assms(2) by (simp add: n p reads_back_def pv_white commas_Cons split: if_splits)
  have key: "parse_key (nl (Suc d) @ quote k @ CHR '':'' # s) = Some (k, s)" for s
    using Cons.prems by (simp add: p parse_key_white [OF assms(1)])
  show ?case
  proof (cases "m = []")
    case True
    then show ?thesis
      using val [OF number_end_white [OF assms(1)], of "CHR ''}'' # r"] assms(1) key by (simp add: n p)
  next
    case False
    let ?M = "commas (map (member_lay nl gap d) m)"
    have "pmembers j (?M @ nl d @ CHR ''}'' # r) = Some (m, r)"
      using Cons.prems False by (intro Cons.IH) (simp_all add: n p commas_Cons)
    then show ?thesis
      using False val [of "CHR '','' # ?M @ nl d @ CHR ''}'' # r"] key by (simp add: n p commas_Cons)
  qed
qed simp

lemma expect_end_None:
  "starts_value s \<Longrightarrow> expect (CHR '']'') s = None" "starts_value s \<Longrightarrow> expect (CHR ''}'') s = None"
  by (auto simp: starts_value_def)

lemma quote_starts: "starts_value (quote k @ r)"
  by (simp add: starts_value_def quote_def)

lemma array_reads_back:
  assumes white: "\<And>d. white (nl d)" and all: "\<forall>v \<in> set vs. reads_back nl gap v"
  shows "reads_back nl gap (GArr vs)"
  unfolding reads_back_def
proof (intro allI impI)
  fix n r d assume n: "length (json_lay nl gap d (GArr vs)) < n"
  obtain k where k: "n = Suc k" using n by (cases n) auto
  show "pv n (json_lay nl gap d (GArr vs) @ r) = Some (GArr vs, r)"
  proof (cases vs)
    case (Cons v vs')
    let ?B = "commas (map (\<lambda>v. nl (Suc d) @ json_lay nl gap (Suc d) v) vs)"
    have "expect (CHR '']'') (?B @ nl d @ CHR '']'' # r) = None"
      unfolding Cons by (simp add: commas_Cons white expect_end_None json_lay_starts)
    then show ?thesis
      using pelems_reads_back [OF white all, of d k r] n
      by (simp add: k Cons lay_group_def comp_def del: commas.simps)
  qed (simp add: k lay_group_def)
qed

lemma object_reads_back:
  assumes white: "\<And>d. white (nl d)" "white gap" and wf: "gm_wf m"
    and all: "\<forall>p \<in> set m. valid_utf8 (fst p) \<and> reads_back nl gap (snd p)"
  shows "reads_back nl gap (GObj m)"
  unfolding reads_back_def
proof (intro allI impI)
  fix n r d assume n: "length (json_lay nl gap d (GObj m)) < n"
  obtain k where k: "n = Suc k" using n by (cases n) auto
  show "pv n (json_lay nl gap d (GObj m) @ r) = Some (GObj m, r)"
  proof (cases m)
    case (Cons p m')
    let ?B = "commas (map (member_lay nl gap d) m)"
    have "expect (CHR ''}'') (?B @ nl d @ CHR ''}'' # r) = None"
      unfolding Cons by (simp add: commas_Cons white expect_end_None quote_starts)
    then show ?thesis
      using pmembers_reads_back [OF white all, of d k r] n wf
      by (simp add: k Cons gm_of_wf lay_group_def comp_def del: commas.simps)
  qed (simp add: k gm_of_def lay_group_def)
qed

lemma json_lay_reads_back:
  assumes white: "\<And>d. white (nl d)" "white gap"
    and "json_shape v" "strings_utf8 v" "nums_finite v"
  shows "reads_back nl gap v"
  using assms(3-)
proof (induction v rule: json_txt.induct)
  case (3 x)
  show ?case unfolding reads_back_def
  proof (intro allI impI)
    fix n r d assume n: "length (json_lay nl gap d (GNum x)) < n" and e: "number_end r"
    obtain k where k: "n = Suc k" using n by (cases n) auto
    obtain c t where ct: "f64_text x = c # t" "is_digit c \<or> c = CHR ''-''"
      using hd_f64_text by blast
    then have "c \<noteq> CHR ''{''" "c \<noteq> CHR ''[''" "c \<noteq> quot" "c \<noteq> CHR ''t''" "c \<noteq> CHR ''f''"
      "c \<noteq> CHR ''n''" "\<not> is_space c"
      by (auto simp: is_digit_def is_space_def)
    then show "pv n (json_lay nl gap d (GNum x) @ r) = Some (GNum x, r)"
      using parse_f64_text [of x r] "3.prems" e by (simp add: k ct)
  qed
next
  case (5 vs)
  then show ?case by (intro array_reads_back [OF white(1)]) (simp add: list_all_iff)
next
  case (6 m)
  then show ?case by (intro object_reads_back [OF white]) (auto simp: list_all_iff)
qed (auto simp: reads_back_def parse_word_def quote_def parse_json_esc gr0_conv_Suc less_Suc_eq_0_disj elim!: less_natE)

lemma json_reads_back:
  assumes "json_shape v" "strings_utf8 v" "nums_finite v" "length (json_txt v) < n" "number_end r"
  shows "pv n (json_txt v @ r) = Some (v, r)"
  using json_lay_reads_back [of "\<lambda>d. []" "[]" v] assms
  unfolding reads_back_def json_txt_lay [of v 0] by simp

text \<open>Every map of encodable values survives \<open>Marshal\<close> and \<open>Unmarshal\<close>.\<close>

lemma json_map_roundtrip:
  assumes "json_shape (GObj m)" "strings_utf8 (GObj m)" "nums_finite (GObj m)"
  shows "json_unmarshal_map (json_txt (GObj m)) = Some m"
  using json_reads_back [OF assms, of "2 * length (json_txt (GObj m)) + 2" "[]"]
  unfolding json_unmarshal_map_def by simp

subsection \<open>What is read is a JSON value\<close>

lemma parse_word_value: "parse_word w v s = Some (x, r) \<Longrightarrow> x = v"
  by (simp add: parse_word_def split: if_splits)

lemma pv_shape_step:
  assumes "pv (Suc n) s = Some (v, r)"
    and "\<And>t vs r. pelems n t = Some (vs, r) \<Longrightarrow> list_all json_shape vs"
    and "\<And>t ms r. pmembers n t = Some (ms, r) \<Longrightarrow> list_all (\<lambda>p. json_shape (snd p)) ms"
  shows "json_shape v"
  using assms
  by (auto split: list.splits if_splits option.splits bind_splits dest!: parse_word_value intro!: list_all_gm_of)

lemma parse_shape:
  "pv n s = Some (v, r) \<Longrightarrow> json_shape v"
  "pelems n s = Some (vs, r) \<Longrightarrow> list_all json_shape vs"
  "pmembers n s = Some (ms, r) \<Longrightarrow> list_all (\<lambda>p. json_shape (snd p)) ms"
proof (induction n arbitrary: s v vs ms r)
  case (Suc n)
  {
    case 1
    then show ?case using pv_shape_step Suc by blast
  next
    case 2
    then show ?case using Suc by (auto split: option.splits bind_splits)
  next
    case 3
    then show ?case using Suc by (auto split: option.splits bind_splits)
  }
qed simp_all

lemma parse_number_finite: "parse_number s = Some (x, r) \<Longrightarrow> f64_finite x"
  by (auto simp: parse_number_def Let_def f64_finite_def f64_mag_mk split: if_splits option.splits prod.splits)

lemma pv_finite_step:
  assumes "pv (Suc n) s = Some (v, r)"
    and "\<And>t vs r. pelems n t = Some (vs, r) \<Longrightarrow> list_all nums_finite vs"
    and "\<And>t ms r. pmembers n t = Some (ms, r) \<Longrightarrow> list_all (\<lambda>p. nums_finite (snd p)) ms"
  shows "nums_finite v"
  using assms
  by (auto split: list.splits if_splits option.splits bind_splits
      dest!: parse_word_value dest: parse_number_finite intro!: list_all_gm_of)

lemma parse_finite:
  "pv n s = Some (v, r) \<Longrightarrow> nums_finite v"
  "pelems n s = Some (vs, r) \<Longrightarrow> list_all nums_finite vs"
  "pmembers n s = Some (ms, r) \<Longrightarrow> list_all (\<lambda>p. nums_finite (snd p)) ms"
proof (induction n arbitrary: s v vs ms r)
  case (Suc n)
  {
    case 1
    then show ?case using pv_finite_step Suc by blast
  next
    case 2
    then show ?case using Suc by (auto split: option.splits bind_splits)
  next
    case 3
    then show ?case using Suc by (auto split: option.splits bind_splits)
  }
qed simp_all

lemma json_unmarshal_map_shape:
  "json_unmarshal_map s = Some m \<Longrightarrow> json_shape (GObj m)"
  "json_unmarshal_map s = Some m \<Longrightarrow> nums_finite (GObj m)"
proof -
  assume m: "json_unmarshal_map s = Some m"
  obtain v r where v: "pv (2 * length s + 2) s = Some (v, r)"
    using m by (auto simp: json_unmarshal_map_def simp del: pv.simps split: option.splits)
  have "v = GObj m \<or> m = []"
    using m unfolding json_unmarshal_map_def v option.case prod.case
    by (simp split: if_splits gval.splits)
  then show "json_shape (GObj m)" "nums_finite (GObj m)"
    using parse_shape(1) [OF v] parse_finite(1) [OF v] by (cases "m = []"; auto)+
qed

end
