(* ===== verification/GoTime.thy ===== *)
theory GoTime
  imports Events "HOL-Library.Monad_Syntax"
begin

text \<open>
  The part of Go's \<open>time\<close> package the code uses: \<open>timestamp.AsTime\<close>, \<open>Format\<close> with the
  layouts \<open>time.RFC3339\<close> and \<open>"2006-01-02 15:04"\<close>, and \<open>time.Parse(time.RFC3339, s)\<close> with
  what Go accepts beyond the standard (a one-digit hour, a fraction of a second after a dot
  or comma, offsets up to 24:60). All times are UTC, as \<open>AsTime\<close> and \<open>timestamppb.New\<close>
  make them. Dates are the proleptic Gregorian calendar of the package.
\<close>

section \<open>Calendar\<close>

definition leap :: "int \<Rightarrow> bool" where
  "leap y \<longleftrightarrow> y mod 4 = 0 \<and> (y mod 100 \<noteq> 0 \<or> y mod 400 = 0)"

definition month_lengths :: "int \<Rightarrow> int list" where
  "month_lengths y = [31, if leap y then 29 else 28, 31, 30, 31, 30, 31, 31, 30, 31, 30, 31]"

definition days_before_year :: "int \<Rightarrow> int" where
  "days_before_year y = 365 * (y - 1) + (y - 1) div 4 - (y - 1) div 100 + (y - 1) div 400"

text \<open>Days since 0001-01-01 of a date.\<close>

definition days_of_date :: "int \<Rightarrow> int \<Rightarrow> int \<Rightarrow> int" where
  "days_of_date y m d =
     days_before_year y + sum_list (take (nat (m - 1)) (month_lengths y)) + (d - 1)"

text \<open>
  The year and the day in it, cycle by cycle (400, 100, 4 and 1 years); the last day of a
  leap cycle would start a fifth century or year, hence the corrections.
\<close>

definition year_of_days :: "int \<Rightarrow> int \<times> int" where
  "year_of_days d =
     (let a = d div 146097; d1 = d mod 146097;
          b = d1 div 36524 - d1 div 36524 div 4; d2 = d1 - 36524 * b;
          c = d2 div 1461; d3 = d2 mod 1461;
          n = d3 div 365 - d3 div 365 div 4
      in (400 * a + 100 * b + 4 * c + n + 1, d3 - 365 * n))"

fun month_of_day :: "int list \<Rightarrow> int \<Rightarrow> int \<times> int" where
  "month_of_day [] d = (1, d + 1)"
| "month_of_day (l # ls) d =
     (if d < l then (1, d + 1) else (case month_of_day ls (d - l) of (m, k) \<Rightarrow> (m + 1, k)))"

definition date_of_days :: "int \<Rightarrow> int \<times> int \<times> int" where
  "date_of_days d = (case year_of_days d of (y, yd) \<Rightarrow> (y, month_of_day (month_lengths y) yd))"

lemma fourth_part:
  fixes d k :: int
  assumes "0 < k" "0 \<le> d" "d \<le> 4 * k"
  defines "b \<equiv> d div k - d div k div 4"
  shows "0 \<le> b" "b \<le> 3" "0 \<le> d - k * b" "d - k * b < k \<or> b = 3 \<and> d = 4 * k"
proof -
  have *: "0 \<le> b \<and> b \<le> 3 \<and> 0 \<le> d - k * b \<and> (d - k * b < k \<or> b = 3 \<and> d = 4 * k)"
  proof (cases "d = 4 * k")
    case True
    then have "b = 3" using assms(1) by (simp add: b_def)
    then show ?thesis using True assms(1) by simp
  next
    case False
    define q where "q = d div k"
    have q0: "0 \<le> q" using assms(1,2) by (simp add: q_def pos_imp_zdiv_nonneg_iff)
    have "k * q + d mod k = d" "0 \<le> d mod k" using assms(1) by (simp_all add: q_def)
    then have "k * q < k * 4" using False assms(3) by linarith
    then have "q < 4" using assms(1) by simp
    with q0 have "q div 4 = 0" by simp
    then have b: "b = q" by (simp add: b_def q_def)
    have "d - k * q = d mod k" by (simp add: q_def minus_mult_div_eq_mod)
    then show ?thesis using q0 \<open>q < 4\<close> assms(1) by (simp add: b)
  qed
  then show "0 \<le> b" "b \<le> 3" "0 \<le> d - k * b" "d - k * b < k \<or> b = 3 \<and> d = 4 * k" by simp_all
qed

lemma year_parts:
  fixes d2 :: int
  assumes "0 \<le> d2" "d2 \<le> 36524"
  defines "c \<equiv> d2 div 1461" and "d3 \<equiv> d2 mod 1461"
  shows "0 \<le> c" "c \<le> 24" "0 \<le> d3" "d3 \<le> 1460" "c = 24 \<Longrightarrow> d2 < 36524 \<Longrightarrow> d3 < 1460" "d2 = 1461 * c + d3"
proof -
  show eq: "d2 = 1461 * c + d3" by (simp add: c_def d3_def)
  show "0 \<le> c" using assms(1) by (simp add: c_def)
  show d3: "0 \<le> d3" by (simp add: d3_def)
  have "d3 < 1461" by (simp add: d3_def)
  then show "d3 \<le> 1460" by simp
  show "c \<le> 24" using eq d3 assms(2) by linarith
  show "c = 24 \<Longrightarrow> d2 < 36524 \<Longrightarrow> d3 < 1460" using eq by simp
qed

lemma days_before_year_parts:
  assumes "0 \<le> b" "b \<le> 3" "0 \<le> c" "c \<le> 24" "0 \<le> n" "n \<le> 3"
  shows "days_before_year (400 * a + 100 * b + 4 * c + n + 1) =
    146097 * a + 36524 * b + 1461 * c + 365 * n"
proof -
  have "(400 * a + 100 * b + 4 * c + n) div 4 = 100 * a + 25 * b + c"
    by (rule int_div_pos_eq [where r = n]) (use assms in simp_all)
  moreover have "(400 * a + 100 * b + 4 * c + n) div 100 = 4 * a + b"
    by (rule int_div_pos_eq [where r = "4 * c + n"]) (use assms in simp_all)
  moreover have "(400 * a + 100 * b + 4 * c + n) div 400 = a"
    by (rule int_div_pos_eq [where r = "100 * b + 4 * c + n"]) (use assms in simp_all)
  ultimately show ?thesis by (simp add: days_before_year_def)
qed

lemma leap_parts:
  assumes "0 \<le> b" "b \<le> 3" "0 \<le> c" "c \<le> 24" "c = 24 \<longrightarrow> b = 3"
  shows "leap (400 * a + 100 * b + 4 * c + 3 + 1)"
proof -
  let ?y = "400 * a + 100 * b + 4 * c + 3 + 1"
  have "?y mod 4 = 0"
    by (rule int_mod_pos_eq [where q = "100 * a + 25 * b + c + 1"]) simp_all
  moreover have "?y mod 100 = 4 * c + 4" if "c \<noteq> 24"
    by (rule int_mod_pos_eq [where q = "4 * a + b"]) (use that assms in simp_all)
  moreover have "?y mod 400 = 0" if "c = 24"
    by (rule int_mod_pos_eq [where q = "a + 1"]) (use that assms in simp_all)
  ultimately show ?thesis using assms(3) by (cases "c = 24") (auto simp: leap_def)
qed

lemma year_of_days:
  assumes "year_of_days d = (y, yd)"
  shows "days_before_year y + yd = d" "0 \<le> yd" "yd < sum_list (month_lengths y)"
proof -
  define a where "a = d div 146097"
  define d1 where "d1 = d mod 146097"
  define b where "b = d1 div 36524 - d1 div 36524 div 4"
  define d2 where "d2 = d1 - 36524 * b"
  define c where "c = d2 div 1461"
  define d3 where "d3 = d2 mod 1461"
  define n where "n = d3 div 365 - d3 div 365 div 4"
  have y: "y = 400 * a + 100 * b + 4 * c + n + 1" and yd: "yd = d3 - 365 * n"
    using assms unfolding a_def d1_def b_def d2_def c_def d3_def n_def year_of_days_def Let_def
    by (simp_all only: prod.inject)
  have d: "d = 146097 * a + d1" by (simp add: a_def d1_def)
  have d1: "0 \<le> d1" "d1 < 146097" by (simp_all add: d1_def)
  have "d1 \<le> 4 * 36524" using d1 by simp
  note B = fourth_part [OF _ d1(1) this, folded b_def, folded d2_def, simplified]
  have d2: "0 \<le> d2" "d2 \<le> 36524" using B by (auto simp: d2_def)
  note C = year_parts [OF d2, folded c_def d3_def]
  have "d3 \<le> 4 * 365" using C(4) by simp
  note N = fourth_part [OF _ C(3) this, folded n_def, simplified]
  show "days_before_year y + yd = d"
    using days_before_year_parts [OF B(1,2) C(1,2) N(1,2), of a] C(6)
    unfolding y yd d by (simp add: d2_def)
  show "0 \<le> yd" using N(3) by (simp add: yd)
  have sum: "sum_list (month_lengths y) = (if leap y then 366 else 365)"
    by (simp add: month_lengths_def)
  show "yd < sum_list (month_lengths y)"
  proof (cases "yd = 365")
    case True
    then have n: "n = 3" "d3 = 1460" using N(4) by (auto simp: yd)
    have "c = 24 \<longrightarrow> b = 3" using B(4) C(5) n(2) by auto
    then have "leap y" unfolding y n by (rule leap_parts [OF B(1,2) C(1,2)])
    then show ?thesis by (simp add: sum True)
  next
    case False
    then have "yd < 365" using N(4) by (auto simp: yd)
    then show ?thesis by (simp add: sum)
  qed
qed

lemma month_of_day:
  assumes "month_of_day ls d = (m, k)" "0 \<le> d" "d < sum_list ls"
  shows "1 \<le> m \<and> m \<le> int (length ls) \<and> 1 \<le> k \<and> k \<le> ls ! nat (m - 1) \<and>
    sum_list (take (nat (m - 1)) ls) + (k - 1) = d"
  using assms
proof (induction ls d arbitrary: m rule: month_of_day.induct)
  case (2 l ls d)
  show ?case
  proof (cases "d < l")
    case False
    then obtain m' where m: "month_of_day ls (d - l) = (m', k)" "m = m' + 1"
      using "2.prems"(1) by (auto split: prod.splits)
    have *: "1 \<le> m' \<and> m' \<le> int (length ls) \<and> 1 \<le> k \<and> k \<le> ls ! nat (m' - 1) \<and>
        sum_list (take (nat (m' - 1)) ls) + (k - 1) = d - l"
      using "2.IH" [OF False m(1)] False "2.prems" by simp
    obtain j where j: "nat m' = Suc j" using * by (cases "nat m'") auto
    then have "nat (m' - 1) = j" by simp
    with * j m(2) show ?thesis by (simp add: j)
  qed (use "2.prems" in auto)
qed simp

text \<open>A day number is the date it denotes.\<close>

lemma date_of_days:
  assumes "date_of_days d = (y, m, k)"
  shows "days_of_date y m k = d" "1 \<le> m" "m \<le> 12" "1 \<le> k" "k \<le> month_lengths y ! nat (m - 1)"
proof -
  obtain yd where y: "year_of_days d = (y, yd)" and mk: "month_of_day (month_lengths y) yd = (m, k)"
    using assms by (auto simp: date_of_days_def split: prod.splits)
  have M: "1 \<le> m \<and> m \<le> int (length (month_lengths y)) \<and> 1 \<le> k \<and> k \<le> month_lengths y ! nat (m - 1) \<and>
      sum_list (take (nat (m - 1)) (month_lengths y)) + (k - 1) = yd"
    by (rule month_of_day [OF mk year_of_days(2,3) [OF y]])
  show "days_of_date y m k = d" using M year_of_days(1) [OF y] by (simp add: days_of_date_def)
  show "1 \<le> m" "m \<le> 12" "1 \<le> k" "k \<le> month_lengths y ! nat (m - 1)"
    using M by (simp_all add: month_lengths_def)
qed

section \<open>Instants and their text\<close>

definition unix_day :: int where
  "unix_day = 719162"

text \<open>\<open>timestamp.AsTime\<close> is \<open>time.Unix\<close>, which brings the nanoseconds into a second.\<close>

definition AsTime :: "timestamp \<Rightarrow> timestamp" where
  "AsTime ts = \<lparr>tsSeconds = tsSeconds ts + tsNanos ts div 1000000000,
                tsNanos = tsNanos ts mod 1000000000\<rparr>"

definition pad2 :: "int \<Rightarrow> string" where
  "pad2 n = [digit_char (nat n div 10 mod 10), digit_char (nat n mod 10)]"

text \<open>\<open>appendInt(b, year, 4)\<close>.\<close>

definition year_text :: "int \<Rightarrow> string" where
  "year_text y =
     (let ds = dec_nat (nat \<bar>y\<bar>)
      in (if y < 0 then ''-'' else []) @ replicate (4 - length ds) (CHR ''0'') @ ds)"

definition date_text :: "int \<Rightarrow> string" where
  "date_text secs =
     (case date_of_days (secs div 86400 + unix_day) of
        (y, m, d) \<Rightarrow> year_text y @ ''-'' @ pad2 m @ ''-'' @ pad2 d)"

definition clock_text :: "int \<Rightarrow> string" where
  "clock_text secs = pad2 (secs mod 86400 div 3600) @ '':'' @ pad2 (secs mod 3600 div 60)"

text \<open>\<open>Format(time.RFC3339)\<close> and \<open>Format("2006-01-02 15:04")\<close> of the instant in UTC.\<close>

definition format_rfc3339 :: "timestamp \<Rightarrow> string" where
  "format_rfc3339 t =
     date_text (tsSeconds t) @ ''T'' @ clock_text (tsSeconds t) @ '':'' @
     pad2 (tsSeconds t mod 60) @ ''Z''"

definition format_minute :: "timestamp \<Rightarrow> string" where
  "format_minute t = date_text (tsSeconds t) @ '' '' @ clock_text (tsSeconds t)"

subsection \<open>Parsing\<close>

text \<open>Exactly \<open>n\<close> digits.\<close>

definition fixed_digits :: "nat \<Rightarrow> string \<Rightarrow> (int \<times> string) option" where
  "fixed_digits n s =
     (if n \<le> length s \<and> list_all is_digit (take n s)
      then Some (int (digits_val (take n s)), drop n s) else None)"

definition lit :: "char \<Rightarrow> string \<Rightarrow> string option" where
  "lit c s = (case s of d # t \<Rightarrow> if d = c then Some t else None | [] \<Rightarrow> None)"

text \<open>\<open>stdHour\<close>: one digit is enough when no second one follows.\<close>

definition hour_digits :: "string \<Rightarrow> (int \<times> string) option" where
  "hour_digits s =
     (case fixed_digits 2 s of Some r \<Rightarrow> Some r | None \<Rightarrow> fixed_digits 1 s)"

text \<open>A fraction is read when a digit follows the dot or comma; nine digits count.\<close>

definition fraction :: "string \<Rightarrow> int \<times> string" where
  "fraction s =
     (case s of
        c # d # t \<Rightarrow>
          if (c = CHR ''.'' \<or> c = CHR '','') \<and> is_digit d then
            (int (digits_val (take 9 (takeWhile is_digit (d # t) @ replicate 8 (CHR ''0'')))),
             dropWhile is_digit (d # t))
          else (0, s)
      | _ \<Rightarrow> (0, s))"

text \<open>\<open>Z\<close> or a signed offset in seconds.\<close>

definition zone :: "string \<Rightarrow> (int \<times> string) option" where
  "zone s =
     (case s of
        [] \<Rightarrow> None
      | c # t \<Rightarrow>
          if c = CHR ''Z'' then Some (0, t)
          else if c = CHR ''+'' \<or> c = CHR ''-'' then
            do {
              (h, u) \<leftarrow> fixed_digits 2 t;
              v \<leftarrow> lit (CHR '':'') u;
              (m, w) \<leftarrow> fixed_digits 2 v;
              if h \<le> 24 \<and> m \<le> 60
              then Some ((if c = CHR ''-'' then - 1 else 1) * (h * 3600 + m * 60), w) else None
            }
          else None)"

definition date_ok :: "int \<Rightarrow> int \<Rightarrow> int \<Rightarrow> bool" where
  "date_ok y m d \<longleftrightarrow> 1 \<le> m \<and> m \<le> 12 \<and> 1 \<le> d \<and> d \<le> month_lengths y ! nat (m - 1)"

text \<open>\<open>time.Parse(time.RFC3339, s)\<close> followed by \<open>timestamppb.New\<close>.\<close>

definition parse_rfc3339 :: "string \<Rightarrow> timestamp option" where
  "parse_rfc3339 s =
     do {
       (y, s) \<leftarrow> fixed_digits 4 s;
       s \<leftarrow> lit (CHR ''-'') s;
       (mo, s) \<leftarrow> fixed_digits 2 s;
       s \<leftarrow> lit (CHR ''-'') s;
       (d, s) \<leftarrow> fixed_digits 2 s;
       s \<leftarrow> lit (CHR ''T'') s;
       (h, s) \<leftarrow> hour_digits s;
       s \<leftarrow> lit (CHR '':'') s;
       (mi, s) \<leftarrow> fixed_digits 2 s;
       s \<leftarrow> lit (CHR '':'') s;
       (sec, s) \<leftarrow> fixed_digits 2 s;
       let (ns, s) = fraction s;
       (off, s) \<leftarrow> zone s;
       if s = [] \<and> date_ok y mo d \<and> h < 24 \<and> mi < 60 \<and> sec < 60 then
         Some \<lparr>tsSeconds = (days_of_date y mo d - unix_day) * 86400 + h * 3600 + mi * 60 + sec - off,
               tsNanos = ns\<rparr>
       else None
     }"

subsection \<open>Formatted instants read back to the second\<close>

text \<open>The instants a valid protobuf timestamp denotes: the years 1 to 9999.\<close>

definition ts_valid :: "timestamp \<Rightarrow> bool" where
  "ts_valid t \<longleftrightarrow> - 62135596800 \<le> tsSeconds t \<and> tsSeconds t \<le> 253402300799 \<and>
     0 \<le> tsNanos t \<and> tsNanos t < 1000000000"

lemma AsTime_valid [simp]: "ts_valid t \<Longrightarrow> AsTime t = t"
  by (simp add: AsTime_def ts_valid_def)

lemma lit_same [simp]: "lit c (c # t) = Some t"
  by (simp add: lit_def)

lemma fixed_digits_append:
  "length ds = n \<Longrightarrow> list_all is_digit ds \<Longrightarrow> fixed_digits n (ds @ r) = Some (int (digits_val ds), r)"
  by (simp add: fixed_digits_def)

lemma pad2_digits: "length (pad2 n) = 2" "list_all is_digit (pad2 n)"
  by (simp_all add: pad2_def)

lemma digits_val_pad2: "0 \<le> n \<Longrightarrow> n < 100 \<Longrightarrow> int (digits_val (pad2 n)) = n"
  using digits_val_append [of "[digit_char (nat n div 10 mod 10)]" "[digit_char (nat n mod 10)]"]
  by (simp add: pad2_def digits_val_def)

lemma fixed_digits_pad2 [simp]: "0 \<le> n \<Longrightarrow> n < 100 \<Longrightarrow> fixed_digits 2 (pad2 n @ r) = Some (n, r)"
  by (simp add: fixed_digits_append pad2_digits digits_val_pad2)

lemma length_dec_nat: "n < 10 ^ k \<Longrightarrow> 0 < k \<Longrightarrow> length (dec_nat n) \<le> k"
proof (induction n arbitrary: k rule: dec_nat.induct)
  case (1 n)
  show ?case
  proof (cases "n < 10")
    case True
    then show ?thesis using 1 by (subst dec_nat.simps) simp
  next
    case False
    obtain j where k: "k = Suc j" using "1.prems" by (cases k) auto
    have "0 < j" using False "1.prems" by (cases j) (auto simp: k)
    moreover have "n div 10 < 10 ^ j"
      using "1.prems" by (simp add: k less_mult_imp_div_less mult.commute)
    ultimately have "length (dec_nat (n div 10)) \<le> j" using "1.IH" False by blast
    then show ?thesis using False by (subst dec_nat.simps) (simp add: k)
  qed
qed

lemma fixed_digits_year:
  assumes "0 \<le> y" "y \<le> 9999"
  shows "fixed_digits 4 (year_text y @ r) = Some (y, r)"
proof -
  have "length (dec_nat (nat y)) \<le> 4" by (rule length_dec_nat) (use assms in auto)
  moreover have "list_all is_digit (replicate n (CHR ''0''))" for n
    by (simp add: list_all_iff is_digit_def)
  ultimately show ?thesis
    using assms fixed_digits_append [of "year_text y" 4 r]
    by (simp add: year_text_def Let_def dec_nat_digits digits_val_append)
qed

lemma year_range:
  assumes "0 \<le> d" "d \<le> 3652058" "date_of_days d = (y, m, k)"
  shows "1 \<le> y \<and> y \<le> 9999"
proof -
  obtain yd where yd: "year_of_days d = (y, yd)"
    using assms(3) by (auto simp: date_of_days_def split: prod.splits)
  define b where "b = d mod 146097 div 36524 - d mod 146097 div 36524 div 4"
  define d2 where "d2 = d mod 146097 - 36524 * b"
  define n where "n = d2 mod 1461 div 365 - d2 mod 1461 div 365 div 4"
  have y: "y = 400 * (d div 146097) + 100 * b + 4 * (d2 div 1461) + n + 1"
    using yd unfolding year_of_days_def Let_def b_def d2_def n_def by (simp only: prod.inject)
  have "0 \<le> d mod 146097" "d mod 146097 < 146097" by simp_all
  then have d1: "0 \<le> d mod 146097" "d mod 146097 \<le> 4 * 36524" by simp_all
  note B = fourth_part [OF _ d1, folded b_def, folded d2_def, simplified]
  have d2: "0 \<le> d2" "d2 \<le> 36524" using B by (auto simp: d2_def)
  note C = year_parts [OF d2]
  have "d2 mod 1461 \<le> 4 * 365" using C(4) by simp
  note N = fourth_part [OF _ C(3) this, folded n_def, simplified]
  have a: "0 \<le> d div 146097" "d div 146097 \<le> 24" using assms(1,2) by simp_all
  have "y \<le> 10000" using a(2) B(2) C(2) N(2) unfolding y by linarith
  moreover have "y \<noteq> 10000"
  proof
    assume "y = 10000"
    then have "days_before_year y = 3652059" by (simp add: days_before_year_def)
    then show False using year_of_days(1,2) [OF yd] assms(2) by simp
  qed
  ultimately show ?thesis using a(1) B(1) C(1) N(1) unfolding y by linarith
qed

lemma hour_digits_pad2 [simp]: "0 \<le> n \<Longrightarrow> n < 100 \<Longrightarrow> hour_digits (pad2 n @ r) = Some (n, r)"
  by (simp add: hour_digits_def)

lemma fixed_digits_pad2_end [simp]: "0 \<le> n \<Longrightarrow> n < 100 \<Longrightarrow> fixed_digits 2 (pad2 n) = Some (n, [])"
  using fixed_digits_pad2 [of n "[]"] by simp

lemma month_length_max: "month_lengths y ! nat (m - 1) \<le> 31" if "1 \<le> m" "m \<le> 12"
proof -
  have "nat (m - 1) < length (month_lengths y)" using that by (simp add: month_lengths_def)
  then have "month_lengths y ! nat (m - 1) \<in> set (month_lengths y)" by (rule nth_mem)
  then show ?thesis by (auto simp: month_lengths_def split: if_splits)
qed

lemma parse_format_rfc3339:
  assumes "ts_valid t"
  shows "parse_rfc3339 (format_rfc3339 t) = Some (t\<lparr>tsNanos := 0\<rparr>)"
proof -
  let ?s = "tsSeconds t"
  define day where "day = ?s div 86400 + unix_day"
  obtain y m d where ymd: "date_of_days day = (y, m, d)" by (metis prod_cases3)
  note D = date_of_days [OF ymd]
  have "- 62135596800 div 86400 \<le> ?s div 86400" "?s div 86400 \<le> 253402300799 div 86400"
    using assms by (auto simp: ts_valid_def intro: zdiv_mono1)
  then have "0 \<le> day" "day \<le> 3652058" by (simp_all add: day_def unix_day_def)
  note Y = year_range [OF this ymd]
  have d31: "d \<le> 31" using D(5) month_length_max [OF D(2,3), of y] by simp
  define h where "h = ?s mod 86400 div 3600"
  define mi where "mi = ?s mod 3600 div 60"
  define sec where "sec = ?s mod 60"
  have h: "0 \<le> h" "h < 24" by (auto simp: h_def)
  have mi: "0 \<le> mi" "mi < 60" by (auto simp: mi_def)
  have sec: "0 \<le> sec" "sec < 60" by (simp_all add: sec_def)
  have split: "(?s div 86400) * 86400 + h * 3600 + mi * 60 + sec = ?s"
  proof -
    have "?s mod 86400 mod 3600 = ?s mod 3600" "?s mod 3600 mod 60 = ?s mod 60"
      by (simp_all add: mod_mod_cancel)
    then show ?thesis
      unfolding h_def mi_def sec_def
      using div_mult_mod_eq [of ?s 86400] div_mult_mod_eq [of "?s mod 86400" 3600]
        div_mult_mod_eq [of "?s mod 3600" 60] by linarith
  qed
  have body: "format_rfc3339 t = year_text y @ ''-'' @ pad2 m @ ''-'' @ pad2 d @ ''T'' @ pad2 h @
      '':'' @ pad2 mi @ '':'' @ pad2 sec @ ''Z''"
    by (simp add: format_rfc3339_def date_text_def clock_text_def day_def [symmetric] ymd
        h_def mi_def sec_def)
  have ok: "date_ok y m d" using D by (simp add: date_ok_def)
  have secs: "(days_of_date y m d - unix_day) * 86400 + h * 3600 + mi * 60 + sec = ?s"
    using split by (simp add: D(1) day_def)
  show ?thesis
    unfolding body parse_rfc3339_def
    using Y D d31 h mi sec ok secs
    by (simp add: fixed_digits_year fraction_def zone_def)
qed

end
