(* ===== verification/VectorCodec.thy ===== *)
theory VectorCodec
  imports GoFloat
begin

text \<open>
  The storage format of an embedding (\<open>serializeVector\<close> and \<open>deserializeVector\<close> of
  \<open>internal/storage/sqlite/provider_pure.go\<close>): each \<open>float32\<close> as its IEEE bits, four bytes,
  least significant byte first. A slice is \<open>None\<close> when it is nil and \<open>Some\<close> of its contents
  otherwise; the two functions return nil exactly where the code does.
\<close>

definition PutUint32 :: "f32 \<Rightarrow> byte list" where
  "PutUint32 w = [ucast w, ucast (drop_bit 8 w), ucast (drop_bit 16 w), ucast (drop_bit 24 w)]"

definition Uint32 :: "byte list \<Rightarrow> f32" where
  "Uint32 bs =
     or (ucast (bs ! 0))
       (or (push_bit 8 (ucast (bs ! 1)))
         (or (push_bit 16 (ucast (bs ! 2))) (push_bit 24 (ucast (bs ! 3)))))"

text \<open>The buffer is filled word by word at offset \<open>4 * i\<close>.\<close>

definition put_at :: "nat \<Rightarrow> byte list \<Rightarrow> byte list \<Rightarrow> byte list" where
  "put_at i bs buf = take i buf @ bs @ drop (i + length bs) buf"

fun serialize_loop :: "nat \<Rightarrow> f32 list \<Rightarrow> byte list \<Rightarrow> byte list" where
  "serialize_loop i [] buf = buf"
| "serialize_loop i (v # vs) buf = serialize_loop (i + 1) vs (put_at (i * 4) (PutUint32 v) buf)"

definition serializeVector :: "f32 list option \<Rightarrow> byte list option" where
  "serializeVector vec =
     (case vec of
        None \<Rightarrow> None
      | Some [] \<Rightarrow> None
      | Some vs \<Rightarrow> Some (serialize_loop 0 vs (replicate (length vs * 4) 0)))"

definition deserializeVector :: "byte list option \<Rightarrow> f32 list option" where
  "deserializeVector data =
     (case data of
        None \<Rightarrow> None
      | Some bs \<Rightarrow>
          if length bs = 0 \<or> length bs mod 4 \<noteq> 0 then None
          else Some (map (\<lambda>i. Uint32 (drop (i * 4) bs)) [0..<length bs div 4]))"

section \<open>The two functions are inverse\<close>

lemma Uint32_PutUint32 [simp]: "Uint32 (PutUint32 w @ r) = w"
proof (rule bit_word_eqI)
  fix n assume n: "n < LENGTH(32)"
  consider "n < 8" | "8 \<le> n" "n < 16" | "16 \<le> n" "n < 24" | "24 \<le> n" "n < 32"
    using n by fastforce
  then show "bit (Uint32 (PutUint32 w @ r)) n \<longleftrightarrow> bit w n"
    by cases (auto simp: Uint32_def PutUint32_def bit_simps)
qed

lemma PutUint32_Uint32:
  assumes "4 \<le> length bs"
  shows "PutUint32 (Uint32 bs) = take 4 bs"
proof -
  have four: "take 4 bs = [bs ! 0, bs ! 1, bs ! 2, bs ! 3]"
    using assms by (simp add: list_eq_iff_nth_eq less_Suc_eq numeral_eq_Suc nth_Cons')
  have "ucast (Uint32 bs) = bs ! 0" "ucast (drop_bit 8 (Uint32 bs)) = bs ! 1"
    "ucast (drop_bit 16 (Uint32 bs)) = bs ! 2" "ucast (drop_bit 24 (Uint32 bs)) = bs ! 3"
    by (rule bit_word_eqI; auto simp: Uint32_def bit_simps dest: bit_imp_le_length)+
  then show ?thesis by (simp add: four PutUint32_def)
qed

lemma length_PutUint32 [simp]: "length (PutUint32 w) = 4"
  by (simp add: PutUint32_def)

lemma serialize_loop:
  assumes "length pre = i * 4" "length post = length vs * 4"
  shows "serialize_loop i vs (pre @ post) = pre @ concat (map PutUint32 vs)"
  using assms
proof (induction vs arbitrary: i pre post)
  case (Cons v vs)
  have "serialize_loop (Suc i) vs ((pre @ PutUint32 v) @ drop 4 post)
      = (pre @ PutUint32 v) @ concat (map PutUint32 vs)"
    using Cons.prems by (intro Cons.IH) simp_all
  then show ?case using Cons.prems by (simp add: put_at_def)
qed simp

lemma serializeVector_eq:
  "vs \<noteq> [] \<Longrightarrow> serializeVector (Some vs) = Some (concat (map PutUint32 vs))"
  using serialize_loop [of "[]" 0 "replicate (length vs * 4) 0" vs]
  by (cases vs) (simp_all add: serializeVector_def)

lemma length_concat_Put: "length (concat (map PutUint32 vs)) = 4 * length vs"
  by (induction vs) simp_all

lemma drop_concat_Put: "drop (i * 4) (concat (map PutUint32 vs)) = concat (map PutUint32 (drop i vs))"
proof (induction vs arbitrary: i)
  case (Cons v vs)
  then show ?case by (cases i) simp_all
qed simp

lemma concat_Put_Uint32:
  "length bs = 4 * n \<Longrightarrow> concat (map PutUint32 (map (\<lambda>i. Uint32 (drop (i * 4) bs)) [0..<n])) = bs"
proof (induction n arbitrary: bs)
  case (Suc n)
  have "map (\<lambda>i. Uint32 (drop (i * 4) bs)) [0..<Suc n]
      = Uint32 bs # map (\<lambda>i. Uint32 (drop (i * 4) (drop 4 bs))) [0..<n]"
    by (simp add: upt_conv_Cons map_Suc_upt [symmetric] comp_def add.commute del: upt_Suc)
  then have "concat (map PutUint32 (map (\<lambda>i. Uint32 (drop (i * 4) bs)) [0..<Suc n]))
      = take 4 bs @ concat (map PutUint32 (map (\<lambda>i. Uint32 (drop (i * 4) (drop 4 bs))) [0..<n]))"
    using Suc.prems by (simp only: list.map concat.simps) (simp add: PutUint32_Uint32)
  also have "\<dots> = take 4 bs @ drop 4 bs"
    using Suc.IH [of "drop 4 bs"] Suc.prems by simp
  finally show ?case by simp
qed simp

lemma vector_roundtrip: "deserializeVector (serializeVector (Some vs)) = (if vs = [] then None else Some vs)"
proof (cases "vs = []")
  case False
  have "map (\<lambda>i. Uint32 (drop (i * 4) (concat (map PutUint32 vs)))) [0..<length vs] = vs"
    by (rule nth_equalityI)
      (simp_all add: drop_concat_Put Cons_nth_drop_Suc [symmetric] del: append_assoc)
  then show ?thesis
    using False length_concat_Put [of vs] by (simp add: serializeVector_eq deserializeVector_def)
qed (simp add: serializeVector_def deserializeVector_def)

text \<open>
  A stored embedding is read back bit for bit, and the bytes are written back as they
  were read: reading what was written gives the vector (nil for an empty or nil one), and
  writing what was read gives the bytes whenever they are a whole number of floats; any other
  byte slice reads as nil.
\<close>

theorem vector_codec:
  "deserializeVector (serializeVector vec) = (if vec = Some [] then None else vec) \<and>
   serializeVector (deserializeVector data) =
     (case data of None \<Rightarrow> None
      | Some bs \<Rightarrow> if length bs mod 4 = 0 \<and> bs \<noteq> [] then Some bs else None)"
proof (intro conjI)
  show "deserializeVector (serializeVector vec) = (if vec = Some [] then None else vec)"
    using vector_roundtrip by (cases vec) (simp_all add: serializeVector_def deserializeVector_def)
  have "serializeVector (deserializeVector (Some bs)) = Some bs" if "length bs mod 4 = 0" "bs \<noteq> []" for bs
  proof -
    define q where "q = length bs div 4"
    have q: "length bs = 4 * q"
      using mult_div_mod_eq [of 4 "length bs"] that(1) by (simp add: q_def)
    moreover have "0 < q" using q that(2) by (cases q) auto
    ultimately show ?thesis
      using that concat_Put_Uint32 [of bs q]
      by (simp add: deserializeVector_def serializeVector_eq)
  qed
  then show "serializeVector (deserializeVector data) = (case data of None \<Rightarrow> None
      | Some bs \<Rightarrow> if length bs mod 4 = 0 \<and> bs \<noteq> [] then Some bs else None)"
    by (cases data) (auto simp: serializeVector_def deserializeVector_def)
qed

end
