(* ===== verification/SqliteModel.thy ===== *)
theory SqliteModel
  imports GoJson GoTime VectorCodec "HOL-Library.Multiset"
begin

text \<open>
  The state of the SQLite storage provider (\<open>internal/storage/sqlite/provider_pure.go\<close>) and
  its environment. The two tables of the schema are lists of rows; the statements of the
  source are written out as operations on them in the theories that follow. What is not in
  the repository is a parameter:

  \<^item> the HNSW graph library is the record \<open>hnsw\<close>, its documented behaviour \<open>hnsw_ok\<close>; its
    functions may panic (\<open>None\<close>), for instance on vectors of different dimensions;
  \<^item> SQLite's JSON and date functions are the record \<open>sqlite\<close>, what the filter queries rely
    on is \<open>sqlite_ok\<close>;
  \<^item> the environment \<open>env\<close> gives the clock, the statements that fail, the row iterations that
    break off and the order in which rows come when a statement does not fix it. Every
    statement and clock reading takes the next number of the counter \<open>ticks\<close>, so every
    pattern of failures is some environment.
\<close>

section \<open>Errors and results\<close>

text \<open>
  \<open>Wrap s e\<close> is \<open>fmt.Errorf("s: %w", e)\<close>, \<open>Errorf s\<close> an error of its own text; the other
  errors come from the driver and the encoder. A Go function that returns a value and an
  error returns one of \<open>Ok\<close> and \<open>Fail\<close>; \<open>Panics\<close> is a run-time panic.
\<close>

datatype err = DriverError | UniqueViolation | ScanError | EncodeError | Errorf string | Wrap string err

datatype 'a res = Ok 'a | Fail err | Panics

section \<open>Tables\<close>

datatype cell = CNull | CText string | CBlob "byte list"

record node_row =
  nId :: string
  nType :: string
  nContent :: cell
  nCreated :: int

record edge_row =
  eId :: string
  eSource :: string
  eTarget :: string
  eLabel :: string
  eCreated :: int

record 'g provider =
  Nodes :: "node_row list"
  Edges :: "edge_row list"
  hnswIndex :: 'g
  indexPath :: string
  indexFile :: "byte list option"
  ticks :: nat

section \<open>The graph library\<close>

record 'g hnsw =
  NewGraph :: 'g
  GAdd :: "'g \<Rightarrow> string \<Rightarrow> f32 list \<Rightarrow> 'g option"
  GSearch :: "'g \<Rightarrow> f32 list \<Rightarrow> int \<Rightarrow> (string \<times> f32 list) list option"
  GNodes :: "'g \<Rightarrow> string \<Rightarrow> f32 list option"
  GExport :: "'g \<Rightarrow> byte list"
  GLoad :: "byte list option \<Rightarrow> 'g option"
  CosineDistance :: "f32 list \<Rightarrow> f32 list \<Rightarrow> f32"

definition hnsw_ok :: "'g hnsw \<Rightarrow> bool" where
  "hnsw_ok H \<longleftrightarrow>
     GNodes H (NewGraph H) = Map.empty \<and>
     (\<forall>g k v g'. GAdd H g k v = Some g' \<longrightarrow> GNodes H g' = (GNodes H g)(k \<mapsto> v)) \<and>
     (\<forall>g q n ns. GSearch H g q n = Some ns \<longrightarrow>
        (0 \<le> n \<longrightarrow> int (length ns) \<le> n) \<and> distinct (map fst ns) \<and> (\<forall>(k, v) \<in> set ns. GNodes H g k = Some v)) \<and>
     (\<forall>g. \<exists>g'. GLoad H (Some (GExport H g)) = Some g' \<and> GNodes H g' = GNodes H g) \<and>
     (\<forall>g. GLoad H None = Some g \<longrightarrow> GNodes H g = Map.empty)"

lemma hnsw_okD:
  assumes "hnsw_ok H"
  shows hnsw_new: "GNodes H (NewGraph H) = Map.empty"
    and hnsw_add: "GAdd H g k v = Some g' \<Longrightarrow> GNodes H g' = (GNodes H g)(k \<mapsto> v)"
    and hnsw_search_length: "GSearch H g q n = Some ns \<Longrightarrow> 0 \<le> n \<Longrightarrow> int (length ns) \<le> n"
    and hnsw_search_distinct: "GSearch H g q n = Some ns \<Longrightarrow> distinct (map fst ns)"
    and hnsw_search_nodes: "GSearch H g q n = Some ns \<Longrightarrow> (k, v) \<in> set ns \<Longrightarrow> GNodes H g k = Some v"
    and hnsw_load: "\<exists>g'. GLoad H (Some (GExport H g)) = Some g' \<and> GNodes H g' = GNodes H g"
    and hnsw_load_new: "GLoad H None = Some g \<Longrightarrow> GNodes H g = Map.empty"
  using assms unfolding hnsw_ok_def by blast+

section \<open>The environment\<close>

record env =
  UnixNano :: "nat \<Rightarrow> int"
  CurrentTimestamp :: "nat \<Rightarrow> int"
  StmtFails :: "nat \<Rightarrow> bool"
  RowsBreak :: "nat \<Rightarrow> nat option"
  RowRank :: "nat \<Rightarrow> string \<Rightarrow> nat"
  SaveFails :: "nat \<Rightarrow> bool"

definition tick :: "'g provider \<Rightarrow> 'g provider" where
  "tick p = p\<lparr>ticks := ticks p + 1\<rparr>"

text \<open>Rows in the order the database happens to deliver them.\<close>

definition delivered :: "env \<Rightarrow> nat \<Rightarrow> ('r \<Rightarrow> string) \<Rightarrow> 'r list \<Rightarrow> 'r list" where
  "delivered E n f rows = sort_key (\<lambda>r. RowRank E n (f r)) rows"

text \<open>The rows a \<open>for rows.Next()\<close> loop sees, and whether \<open>rows.Err()\<close> is set behind it.\<close>

definition seen_rows :: "env \<Rightarrow> nat \<Rightarrow> 'r list \<Rightarrow> 'r list" where
  "seen_rows E n rows = (case RowsBreak E n of None \<Rightarrow> rows | Some k \<Rightarrow> take k rows)"

definition rows_err :: "env \<Rightarrow> nat \<Rightarrow> bool" where
  "rows_err E n \<longleftrightarrow> RowsBreak E n \<noteq> None"

lemma set_delivered [simp]: "set (delivered E n f rows) = set rows"
  by (simp add: delivered_def)

lemma mset_delivered [simp]: "mset (delivered E n f rows) = mset rows"
  by (simp add: delivered_def)

lemma distinct_delivered [simp]: "distinct (delivered E n f rows) \<longleftrightarrow> distinct rows"
  by (simp add: delivered_def)

lemma distinct_map_delivered [simp]: "distinct (map g (delivered E n f rows)) \<longleftrightarrow> distinct (map g rows)"
  by (simp add: delivered_def distinct_map)

lemma set_seen_rows: "set (seen_rows E n rows) \<subseteq> set rows"
  by (auto simp: seen_rows_def dest: in_set_takeD split: option.splits)

lemma seen_rows_all [simp]: "\<not> rows_err E n \<Longrightarrow> seen_rows E n rows = rows"
  by (simp add: seen_rows_def rows_err_def)

text \<open>Scanning a column into a \<open>string\<close> fails on NULL; into a \<open>[]byte\<close> it gives nil.\<close>

fun scan_string :: "cell \<Rightarrow> string option" where
  "scan_string CNull = None"
| "scan_string (CText s) = Some s"
| "scan_string (CBlob b) = Some (map (\<lambda>w. char_of (unat w)) b)"

fun scan_bytes :: "cell \<Rightarrow> byte list option" where
  "scan_bytes CNull = None"
| "scan_bytes (CText s) = Some (map (\<lambda>c. of_nat (of_char c)) s)"
| "scan_bytes (CBlob b) = Some b"

text \<open>A nil byte slice is bound as NULL.\<close>

definition bind_bytes :: "byte list option \<Rightarrow> cell" where
  "bind_bytes b = (case b of None \<Rightarrow> CNull | Some bs \<Rightarrow> CBlob bs)"

lemma scan_bind_bytes [simp]: "scan_bytes (bind_bytes b) = b"
  by (cases b) (simp_all add: bind_bytes_def)

section \<open>Inserts\<close>

text \<open>
  \<open>INSERT INTO nodes (id, type, content) VALUES (?, ?, ?)\<close>: \<open>id\<close> is the primary key and
  \<open>created_at\<close> defaults to the current time. SQLite does not enforce the foreign keys of
  \<open>edges\<close> (the code never turns them on).
\<close>

definition insert_node :: "env \<Rightarrow> string \<Rightarrow> string \<Rightarrow> cell \<Rightarrow> 'g provider \<Rightarrow> err option \<times> 'g provider" where
  "insert_node E k ty c p =
     (if StmtFails E (ticks p) then (Some DriverError, tick p)
      else if k \<in> nId ` set (Nodes p) then (Some UniqueViolation, tick p)
      else (None, tick (p\<lparr>Nodes := Nodes p @
             [\<lparr>nId = k, nType = ty, nContent = c, nCreated = CurrentTimestamp E (ticks p)\<rparr>]\<rparr>)))"

definition insert_edge ::
    "env \<Rightarrow> string \<Rightarrow> string \<Rightarrow> string \<Rightarrow> string \<Rightarrow> 'g provider \<Rightarrow> err option \<times> 'g provider" where
  "insert_edge E k src tgt lab p =
     (if StmtFails E (ticks p) then (Some DriverError, tick p)
      else if k \<in> eId ` set (Edges p) then (Some UniqueViolation, tick p)
      else (None, tick (p\<lparr>Edges := Edges p @
             [\<lparr>eId = k, eSource = src, eTarget = tgt, eLabel = lab,
               eCreated = CurrentTimestamp E (ticks p)\<rparr>]\<rparr>)))"

lemma tick_simps [simp]:
  "Nodes (tick p) = Nodes p" "Edges (tick p) = Edges p" "hnswIndex (tick p) = hnswIndex p"
  "indexPath (tick p) = indexPath p" "indexFile (tick p) = indexFile p" "ticks (tick p) = ticks p + 1"
  by (simp_all add: tick_def)

end
