(* ===== verification/SqliteStore.thy ===== *)
theory SqliteStore
  imports SqliteModel
begin

text \<open>
  The writing operations of \<open>internal/storage/sqlite/provider_pure.go\<close>: \<open>StoreEvent\<close>,
  \<open>StoreVector\<close>, \<open>CreateEdge\<close>, \<open>AddEmbeddingToEvent\<close>, and the invariant they keep
  between the two tables and the graph index. Each operation returns its result and the new
  state; what a failing statement leaves behind is part of the new state, since the code
  runs no transaction.
\<close>

section \<open>The JSON form of an event\<close>

definition put_nonempty :: "string \<Rightarrow> string \<Rightarrow> gval gomap \<Rightarrow> gval gomap" where
  "put_nonempty k s m = (if s \<noteq> [] then gm_put k (GStr s) m else m)"

text \<open>The map \<open>eventMap\<close> that \<open>StoreEvent\<close> fills, statement by statement.\<close>

definition event_fields :: "event \<Rightarrow> gval gomap" where
  "event_fields ev =
     (let m = gm_of [(''id'', GStr (evId ev)), (''type'', GStr (evType ev)),
                     (''source'', GStr (evSource ev)), (''specversion'', GStr (evSpecversion ev))];
          m = put_nonempty ''subject'' (evSubject ev) m;
          m = (case evTime ev of
                 None \<Rightarrow> m | Some t \<Rightarrow> gm_put ''time'' (GStr (format_rfc3339 (AsTime t))) m);
          m = put_nonempty ''trace_id'' (evTraceId ev) m;
          m = put_nonempty ''correlation_id'' (evCorrelationId ev) m;
          m = put_nonempty ''user_id'' (evUserId ev) m
      in put_nonempty ''session_id'' (evSessionId ev) m)"

definition event_map :: "pb \<Rightarrow> event \<Rightarrow> gval gomap" where
  "event_map P ev =
     (case evData ev of
        None \<Rightarrow> event_fields ev
      | Some a \<Rightarrow>
          (case if MessageIsValue P a then ValueOfAny P a else None of
             Some v \<Rightarrow> gm_put ''data'' v (event_fields ev)
           | None \<Rightarrow> gm_put ''data'' (GStrMap [(''_type'', TypeUrl a)]) (event_fields ev)))"

definition encode_event :: "pb \<Rightarrow> event \<Rightarrow> string option" where
  "encode_event P ev = json_marshal (GObj (event_map P ev))"

section \<open>Operations\<close>

definition vector_id :: "int \<Rightarrow> nat \<Rightarrow> string" where
  "vector_id now len = ''vec_'' @ dec_int now @ ''_'' @ dec_nat len"

definition edge_id :: "string \<Rightarrow> string \<Rightarrow> int \<Rightarrow> string" where
  "edge_id src tgt now = ''edge_'' @ src @ ''_'' @ tgt @ ''_'' @ dec_int now"

definition StoreVector :: "env \<Rightarrow> 'g hnsw \<Rightarrow> f32 list \<Rightarrow> 'g provider \<Rightarrow> string res \<times> 'g provider" where
  "StoreVector E H vec p =
     (let vid = vector_id (UnixNano E (ticks p)) (length vec)
      in case insert_node E vid ''vector'' (bind_bytes (serializeVector (Some vec))) (tick p) of
           (Some e, p) \<Rightarrow> (Fail (Wrap ''failed to store vector node'' e), p)
         | (None, p) \<Rightarrow>
             (case GAdd H (hnswIndex p) vid vec of
                None \<Rightarrow> (Panics, p)
              | Some g \<Rightarrow> (Ok vid, p\<lparr>hnswIndex := g\<rparr>)))"

definition CreateEdge :: "env \<Rightarrow> string \<Rightarrow> string \<Rightarrow> string \<Rightarrow> 'g provider \<Rightarrow> unit res \<times> 'g provider" where
  "CreateEdge E src tgt lab p =
     (let eid = edge_id src tgt (UnixNano E (ticks p))
      in case insert_edge E eid src tgt lab (tick p) of
           (Some e, p) \<Rightarrow> (Fail (Wrap ''failed to create edge'' e), p)
         | (None, p) \<Rightarrow> (Ok (), p))"

text \<open>The tail \<open>StoreEvent\<close> and \<open>AddEmbeddingToEvent\<close> share.\<close>

definition link_embedding :: "env \<Rightarrow> 'g hnsw \<Rightarrow> string \<Rightarrow> f32 list \<Rightarrow> 'g provider \<Rightarrow> unit res \<times> 'g provider" where
  "link_embedding E H eid vec p =
     (case StoreVector E H vec p of
        (Panics, p) \<Rightarrow> (Panics, p)
      | (Fail e, p) \<Rightarrow> (Fail (Wrap ''failed to store vector'' e), p)
      | (Ok vid, p) \<Rightarrow>
          (case CreateEdge E vid eid ''embedding_of'' p of
             (Fail e, p) \<Rightarrow> (Fail (Wrap ''failed to create edge'' e), p)
           | r \<Rightarrow> r))"

definition StoreEvent ::
    "env \<Rightarrow> 'g hnsw \<Rightarrow> pb \<Rightarrow> event \<Rightarrow> f32 list \<Rightarrow> 'g provider \<Rightarrow> unit res \<times> 'g provider" where
  "StoreEvent E H P ev emb p =
     (case encode_event P ev of
        None \<Rightarrow> (Fail (Wrap ''failed to serialize event'' EncodeError), p)
      | Some s \<Rightarrow>
          (case insert_node E (evId ev) ''event'' (CText s) p of
             (Some e, p) \<Rightarrow> (Fail (Wrap ''failed to store event node'' e), p)
           | (None, p) \<Rightarrow>
               if emb = [] then (Ok (), p) else link_embedding E H (evId ev) emb p))"

definition is_event :: "string \<Rightarrow> node_row \<Rightarrow> bool" where
  "is_event k r \<longleftrightarrow> nId r = k \<and> nType r = ''event''"

definition AddEmbeddingToEvent ::
    "env \<Rightarrow> 'g hnsw \<Rightarrow> string \<Rightarrow> f32 list \<Rightarrow> 'g provider \<Rightarrow> unit res \<times> 'g provider" where
  "AddEmbeddingToEvent E H eid emb p =
     (if StmtFails E (ticks p) then (Fail (Wrap ''failed to check event existence'' DriverError), tick p)
      else if \<not> list_ex (is_event eid) (Nodes p) then
        (Fail (Errorf (''event with ID '' @ eid @ '' not found'')), tick p)
      else link_embedding E H eid emb (tick p))"

section \<open>The invariant\<close>

text \<open>The vector a row holds, as the rebuild of the index reads it.\<close>

definition row_vector :: "node_row \<Rightarrow> f32 list option" where
  "row_vector r = deserializeVector (scan_bytes (nContent r))"

definition index_agrees :: "'g hnsw \<Rightarrow> 'g provider \<Rightarrow> bool" where
  "index_agrees H p \<longleftrightarrow>
     (\<forall>k v. v \<noteq> [] \<longrightarrow>
        (GNodes H (hnswIndex p) k = Some v \<longleftrightarrow>
         (\<exists>r \<in> set (Nodes p). nId r = k \<and> nType r = ''vector'' \<and> row_vector r = Some v)))"

definition has_node :: "'g provider \<Rightarrow> string \<Rightarrow> string \<Rightarrow> bool" where
  "has_node p ty k \<longleftrightarrow> (\<exists>r \<in> set (Nodes p). nId r = k \<and> nType r = ty)"

definition edges_ok :: "'g provider \<Rightarrow> bool" where
  "edges_ok p \<longleftrightarrow>
     (\<forall>e \<in> set (Edges p). eLabel e = ''embedding_of'' \<and> has_node p ''vector'' (eSource e) \<and>
        has_node p ''event'' (eTarget e)) \<and>
     distinct (map eId (Edges p)) \<and> distinct (map eSource (Edges p))"

definition rows_ok :: "pb \<Rightarrow> 'g provider \<Rightarrow> bool" where
  "rows_ok P p \<longleftrightarrow>
     distinct (map nId (Nodes p)) \<and>
     (\<forall>r \<in> set (Nodes p). nType r = ''event'' \<and>
        (\<exists>ev s. nId r = evId ev \<and> encode_event P ev = Some s \<and> nContent r = CText s)
      \<or> nType r = ''vector'' \<and> (\<exists>v. nContent r = bind_bytes (serializeVector (Some v))))"

definition provider_inv :: "'g hnsw \<Rightarrow> pb \<Rightarrow> 'g provider \<Rightarrow> bool" where
  "provider_inv H P p \<longleftrightarrow> rows_ok P p \<and> edges_ok p \<and> index_agrees H p"

lemma provider_inv_cong:
  "Nodes q = Nodes p \<Longrightarrow> Edges q = Edges p \<Longrightarrow> hnswIndex q = hnswIndex p \<Longrightarrow>
    provider_inv H P q = provider_inv H P p"
  by (simp add: provider_inv_def rows_ok_def edges_ok_def index_agrees_def has_node_def)

lemma provider_inv_tick [simp]: "provider_inv H P (tick p) = provider_inv H P p"
  by (rule provider_inv_cong) simp_all

text \<open>An inserted event: no vector row, no edge and no index entry changes.\<close>

lemma provider_inv_event:
  assumes "provider_inv H P p" "nId r \<notin> nId ` set (Nodes p)" "nType r = ''event''"
    and "nId r = evId ev" "encode_event P ev = Some s" "nContent r = CText s"
    and "Nodes q = Nodes p @ [r]" "Edges q = Edges p" "hnswIndex q = hnswIndex p"
  shows "provider_inv H P q"
proof -
  have "rows_ok P q"
    using assms unfolding provider_inv_def rows_ok_def by auto
  moreover have "edges_ok q"
    using assms unfolding provider_inv_def edges_ok_def has_node_def by auto
  moreover have "index_agrees H q"
    using assms unfolding provider_inv_def index_agrees_def by auto
  ultimately show ?thesis by (simp add: provider_inv_def)
qed

lemma row_vector_bind:
  "nContent r = bind_bytes (serializeVector (Some v)) \<Longrightarrow> row_vector r = (if v = [] then None else Some v)"
  using vector_roundtrip [of v] by (simp add: row_vector_def)

text \<open>An inserted vector: the row and the index entry come together.\<close>

lemma provider_inv_vector:
  assumes H: "hnsw_ok H" and inv: "provider_inv H P p"
    and r: "nId r \<notin> nId ` set (Nodes p)" "nType r = ''vector''"
      "nContent r = bind_bytes (serializeVector (Some vec))"
    and add: "GAdd H (hnswIndex p) (nId r) vec = Some g"
    and q: "Nodes q = Nodes p @ [r]" "Edges q = Edges p" "hnswIndex q = g"
  shows "provider_inv H P q"
proof -
  have "rows_ok P q"
    using inv r unfolding provider_inv_def rows_ok_def q by auto
  moreover have "edges_ok q"
    using inv q unfolding provider_inv_def edges_ok_def has_node_def by auto
  moreover have "index_agrees H q"
    unfolding index_agrees_def
  proof (intro allI impI)
    fix k v assume v: "v \<noteq> ([] :: f32 list)"
    have old: "GNodes H (hnswIndex p) k = Some v \<longleftrightarrow>
        (\<exists>r \<in> set (Nodes p). nId r = k \<and> nType r = ''vector'' \<and> row_vector r = Some v)"
      using inv v by (simp add: provider_inv_def index_agrees_def)
    have new: "GNodes H g k = (if k = nId r then Some vec else GNodes H (hnswIndex p) k)"
      using hnsw_add [OF H add] by simp
    show "GNodes H (hnswIndex q) k = Some v \<longleftrightarrow>
        (\<exists>r \<in> set (Nodes q). nId r = k \<and> nType r = ''vector'' \<and> row_vector r = Some v)"
    proof (cases "k = nId r")
      case True
      then have "\<not> (\<exists>r \<in> set (Nodes p). nId r = k)" using r(1) by (metis imageI)
      moreover have "GNodes H g (nId r) = Some vec" using hnsw_add [OF H add] by simp
      ultimately show ?thesis
        using True v r(2) row_vector_bind [OF r(3)] by (auto simp: q)
    next
      case False
      then show ?thesis by (auto simp: q new old)
    qed
  qed
  ultimately show ?thesis by (simp add: provider_inv_def)
qed

lemma provider_inv_edge:
  assumes "provider_inv H P p" "eId e \<notin> eId ` set (Edges p)" "eSource e \<notin> eSource ` set (Edges p)"
    and "eLabel e = ''embedding_of''" "has_node p ''vector'' (eSource e)" "has_node p ''event'' (eTarget e)"
    and "Nodes q = Nodes p" "Edges q = Edges p @ [e]" "hnswIndex q = hnswIndex p"
  shows "provider_inv H P q"
  using assms unfolding provider_inv_def rows_ok_def edges_ok_def index_agrees_def has_node_def by auto

section \<open>What each operation leaves behind\<close>

lemma insert_node_Some: "insert_node E k ty c p = (Some e, q) \<Longrightarrow> q = tick p"
  by (auto simp: insert_node_def split: if_splits)

lemma insert_node_None:
  "insert_node E k ty c p = (None, q) \<Longrightarrow>
    k \<notin> nId ` set (Nodes p) \<and> Edges q = Edges p \<and> hnswIndex q = hnswIndex p \<and>
    indexPath q = indexPath p \<and> indexFile q = indexFile p \<and>
    Nodes q = Nodes p @ [\<lparr>nId = k, nType = ty, nContent = c, nCreated = CurrentTimestamp E (ticks p)\<rparr>]"
  by (auto simp: insert_node_def split: if_splits)

lemma insert_edge_Some: "insert_edge E k src tgt lab p = (Some e, q) \<Longrightarrow> q = tick p"
  by (auto simp: insert_edge_def split: if_splits)

lemma insert_edge_None:
  "insert_edge E k src tgt lab p = (None, q) \<Longrightarrow>
    k \<notin> eId ` set (Edges p) \<and> Nodes q = Nodes p \<and> hnswIndex q = hnswIndex p \<and>
    indexPath q = indexPath p \<and> indexFile q = indexFile p \<and>
    Edges q = Edges p @ [\<lparr>eId = k, eSource = src, eTarget = tgt, eLabel = lab,
      eCreated = CurrentTimestamp E (ticks p)\<rparr>]"
  by (auto simp: insert_edge_def split: if_splits)

text \<open>
  \<open>grows p q\<close>: rows are only ever added behind the old ones, and the file of the index is
  not touched.
\<close>

definition grows :: "'g provider \<Rightarrow> 'g provider \<Rightarrow> bool" where
  "grows p q \<longleftrightarrow>
     (\<exists>ns. Nodes q = Nodes p @ ns) \<and> (\<exists>es. Edges q = Edges p @ es) \<and>
     indexPath q = indexPath p \<and> indexFile q = indexFile p"

lemma grows_refl [simp]: "grows p p" and grows_tick [simp]: "grows p (tick p)"
  by (simp_all add: grows_def)

lemma grows_trans: "grows p q \<Longrightarrow> grows q r \<Longrightarrow> grows p r"
  by (auto simp: grows_def)

lemma has_node_grows: "grows p q \<Longrightarrow> has_node p ty k \<Longrightarrow> has_node q ty k"
  by (auto simp: grows_def has_node_def)

lemma insert_node_grows: "insert_node E k ty c p = (x, q) \<Longrightarrow> grows p q"
  by (auto simp: insert_node_def grows_def split: if_splits)

lemma insert_edge_grows: "insert_edge E k src tgt lab p = (x, q) \<Longrightarrow> grows p q"
  by (auto simp: insert_edge_def grows_def split: if_splits)

lemma StoreVector_cases:
  assumes "StoreVector E H vec p = (x, q)"
  obtains (failed) e where "x = Fail (Wrap ''failed to store vector node'' e)" "q = tick (tick p)"
  | (stored) vid p1 where "vid = vector_id (UnixNano E (ticks p)) (length vec)"
      "insert_node E vid ''vector'' (bind_bytes (serializeVector (Some vec))) (tick p) = (None, p1)"
      "GAdd H (hnswIndex p) vid vec = None \<and> x = Panics \<and> q = p1 \<or>
       (\<exists>g. GAdd H (hnswIndex p) vid vec = Some g \<and> x = Ok vid \<and> q = p1\<lparr>hnswIndex := g\<rparr>)"
proof -
  let ?vid = "vector_id (UnixNano E (ticks p)) (length vec)"
  obtain e p1 where i: "insert_node E ?vid ''vector'' (bind_bytes (serializeVector (Some vec))) (tick p) = (e, p1)"
    by fastforce
  show ?thesis
  proof (cases e)
    case None
    have "hnswIndex p1 = hnswIndex p" using insert_node_None [OF i [unfolded None]] by simp
    then show ?thesis
      using stored [OF refl i [unfolded None]] assms i None
      by (auto simp: StoreVector_def Let_def split: option.splits)
  next
    case (Some e')
    have "p1 = tick (tick p)" by (rule insert_node_Some [OF i [unfolded Some]])
    then show ?thesis
      by (intro failed [of e']) (use assms i Some in \<open>auto simp: StoreVector_def Let_def\<close>)
  qed
qed

lemma grows_index [simp]: "grows p (q\<lparr>hnswIndex := g\<rparr>) = grows p q"
  by (simp add: grows_def)

lemma StoreVector_grows: "StoreVector E H vec p = (x, q) \<Longrightarrow> grows p q"
proof (erule StoreVector_cases)
  fix vid p1
  assume "insert_node E vid ''vector'' (bind_bytes (serializeVector (Some vec))) (tick p) = (None, p1)"
  then have "grows p p1" by (rule grows_trans [OF grows_tick insert_node_grows])
  then show "GAdd H (hnswIndex p) vid vec = None \<and> x = Panics \<and> q = p1 \<or>
       (\<exists>g. GAdd H (hnswIndex p) vid vec = Some g \<and> x = Ok vid \<and> q = p1\<lparr>hnswIndex := g\<rparr>) \<Longrightarrow> grows p q"
    by auto
qed (auto intro: grows_trans [OF grows_tick])

lemma CreateEdge_grows: "CreateEdge E src tgt lab p = (x, q) \<Longrightarrow> grows p q"
  by (auto simp: CreateEdge_def Let_def split: prod.splits option.splits
      dest!: insert_edge_grows intro: grows_trans [OF grows_tick])

lemma StoreVector_Ok:
  assumes "StoreVector E H vec p = (Ok vid, q)"
  obtains r g where "nId r = vid" "nType r = ''vector''" "nContent r = bind_bytes (serializeVector (Some vec))"
    "vid \<notin> nId ` set (Nodes p)" "GAdd H (hnswIndex p) vid vec = Some g"
    "Nodes q = Nodes p @ [r]" "Edges q = Edges p" "hnswIndex q = g"
    "vid = vector_id (UnixNano E (ticks p)) (length vec)"
  using assms
proof (cases rule: StoreVector_cases)
  case (stored v p1)
  then obtain g where v: "v = vid" "GAdd H (hnswIndex p) vid vec = Some g" "q = p1\<lparr>hnswIndex := g\<rparr>"
    by auto
  note i = insert_node_None [OF stored(2), unfolded v(1)]
  show ?thesis
    by (rule that [of "\<lparr>nId = vid, nType = ''vector'', nContent = bind_bytes (serializeVector (Some vec)),
        nCreated = CurrentTimestamp E (ticks (tick p))\<rparr>" g])
      (use i v stored(1) in simp_all)
qed simp

lemma StoreVector_Fail: "StoreVector E H vec p = (Fail e, q) \<Longrightarrow> q = tick (tick p)"
  by (erule StoreVector_cases) auto

lemma CreateEdge_Ok:
  assumes "CreateEdge E src tgt lab p = (Ok u, q)"
  obtains e where "eSource e = src" "eTarget e = tgt" "eLabel e = lab" "eId e \<notin> eId ` set (Edges p)"
    "Nodes q = Nodes p" "Edges q = Edges p @ [e]" "hnswIndex q = hnswIndex p"
proof -
  obtain x p1 where i: "insert_edge E (edge_id src tgt (UnixNano E (ticks p))) src tgt lab (tick p) = (x, p1)"
    by fastforce
  then have "x = None" "p1 = q"
    using assms by (auto simp: CreateEdge_def Let_def split: option.splits)
  note i' = insert_edge_None [OF i [unfolded this]]
  show ?thesis
    by (rule that [of "\<lparr>eId = edge_id src tgt (UnixNano E (ticks p)), eSource = src, eTarget = tgt,
        eLabel = lab, eCreated = CurrentTimestamp E (ticks (tick p))\<rparr>"]) (use i' in simp_all)
qed

lemma CreateEdge_Fail: "CreateEdge E src tgt lab p = (Fail e, q) \<Longrightarrow> q = tick (tick p)"
  by (auto simp: CreateEdge_def Let_def split: prod.splits option.splits dest!: insert_edge_Some)

lemma CreateEdge_no_panic: "fst (CreateEdge E src tgt lab p) \<noteq> Panics"
  by (auto simp: CreateEdge_def Let_def split: prod.splits option.splits)

section \<open>The invariant is kept\<close>

lemma StoreVector_inv:
  assumes H: "hnsw_ok H" and inv: "provider_inv H P p" and run: "StoreVector E H vec p = (x, q)" "x \<noteq> Panics"
  shows "provider_inv H P q"
proof (cases x)
  case (Ok vid)
  from run(1) [unfolded Ok] show ?thesis
    by (rule StoreVector_Ok) (rule provider_inv_vector [OF H inv]; simp)
next
  case (Fail e)
  then show ?thesis using StoreVector_Fail [of E H vec p e q] run(1) inv by simp
qed (use run in simp)

lemma link_embedding_inv:
  assumes H: "hnsw_ok H" and inv: "provider_inv H P p" and ev: "has_node p ''event'' eid"
    and run: "link_embedding E H eid vec p = (x, q)" "x \<noteq> Panics"
  shows "provider_inv H P q"
proof -
  obtain y p1 where sv: "StoreVector E H vec p = (y, p1)" by fastforce
  have np: "y \<noteq> Panics" using run sv by (auto simp: link_embedding_def)
  note inv1 = StoreVector_inv [OF H inv sv np]
  show ?thesis
  proof (cases y)
    case (Ok vid)
    then have sv': "StoreVector E H vec p = (Ok vid, p1)" using sv by simp
    obtain z p2 where ce: "CreateEdge E vid eid ''embedding_of'' p1 = (z, p2)" by fastforce
    have q: "q = p2" using run sv' ce by (auto simp: link_embedding_def split: res.splits)
    show ?thesis
    proof (cases z)
      case (Ok u)
      have ev1: "has_node p1 ''event'' eid" using ev StoreVector_grows [OF sv] has_node_grows by blast
      have fresh: "vid \<notin> eSource ` set (Edges p1)" and vec1: "has_node p1 ''vector'' vid"
      proof -
        from sv' obtain r where r: "nId r = vid" "nType r = ''vector''" "vid \<notin> nId ` set (Nodes p)"
          "Nodes p1 = Nodes p @ [r]" "Edges p1 = Edges p" by (rule StoreVector_Ok)
        show "vid \<notin> eSource ` set (Edges p1)"
          using inv r(3,5) unfolding provider_inv_def edges_ok_def has_node_def
          by (metis (no_types, lifting) image_iff)
        show "has_node p1 ''vector'' vid" using r by (auto simp: has_node_def)
      qed
      from ce [unfolded Ok] show ?thesis
        by (rule CreateEdge_Ok)
          (rule provider_inv_edge [OF inv1]; use fresh vec1 ev1 in \<open>simp add: q\<close>)
    next
      case (Fail e)
      have "p2 = tick (tick p1)" by (rule CreateEdge_Fail [OF ce [unfolded Fail]])
      then show ?thesis using inv1 by (simp add: q)
    next
      case Panics
      then show ?thesis using CreateEdge_no_panic [of E vid eid "''embedding_of''" p1] ce by simp
    qed
  next
    case (Fail e)
    then show ?thesis using run sv inv1 by (simp add: link_embedding_def)
  qed (use np in simp)
qed

lemma link_embedding_grows: "link_embedding E H eid vec p = (x, q) \<Longrightarrow> grows p q"
  by (auto simp: link_embedding_def split: prod.splits res.splits
      dest!: StoreVector_grows CreateEdge_grows intro: grows_trans)

lemma StoreEvent_grows: "StoreEvent E H P ev emb p = (x, q) \<Longrightarrow> grows p q"
  by (auto simp: StoreEvent_def split: prod.splits option.splits if_splits
      dest!: insert_node_grows link_embedding_grows intro: grows_trans)

lemma AddEmbeddingToEvent_grows: "AddEmbeddingToEvent E H eid emb p = (x, q) \<Longrightarrow> grows p q"
  by (auto simp: AddEmbeddingToEvent_def split: if_splits dest!: link_embedding_grows
      intro: grows_trans [OF grows_tick])

lemma list_ex_is_event: "list_ex (is_event k) (Nodes p) \<longleftrightarrow> has_node p ''event'' k"
  by (auto simp: list_ex_iff is_event_def has_node_def)

lemma AddEmbeddingToEvent_inv:
  assumes "hnsw_ok H" "provider_inv H P p" "AddEmbeddingToEvent E H eid emb p = (x, q)" "x \<noteq> Panics"
  shows "provider_inv H P q"
  using assms link_embedding_inv [of H P "tick p" eid E emb x q]
  by (auto simp: AddEmbeddingToEvent_def list_ex_is_event has_node_def split: if_splits)

lemma StoreEvent_inv:
  assumes H: "hnsw_ok H" and inv: "provider_inv H P p" and run: "StoreEvent E H P ev emb p = (x, q)" "x \<noteq> Panics"
  shows "provider_inv H P q"
proof (cases "encode_event P ev")
  case None
  then show ?thesis using run inv by (simp add: StoreEvent_def)
next
  case (Some s)
  obtain e p1 where ins: "insert_node E (evId ev) ''event'' (CText s) p = (e, p1)" by fastforce
  show ?thesis
  proof (cases e)
    case None
    note i = insert_node_None [OF ins [unfolded None]]
    have inv1: "provider_inv H P p1"
      by (rule provider_inv_event [OF inv, where ev = ev and s = s, OF _ _ _ Some]) (use i in auto)
    moreover have "has_node p1 ''event'' (evId ev)" using i by (auto simp: has_node_def)
    ultimately show ?thesis
      using run ins Some None link_embedding_inv [OF H inv1, of "evId ev" E emb x q]
      by (auto simp: StoreEvent_def split: if_splits)
  next
    case (Some e')
    have "p1 = tick p" by (rule insert_node_Some [OF ins [unfolded Some]])
    then show ?thesis
      using run ins \<open>encode_event P ev = Some s\<close> inv Some by (auto simp: StoreEvent_def)
  qed
qed

end
