(* ===== verification/SqliteRead.thy ===== *)
theory SqliteRead
  imports SqliteStore
begin

text \<open>
  The reading operations of \<open>internal/storage/sqlite/provider_pure.go\<close>: \<open>GetEventByID\<close>,
  \<open>BatchGetEvents\<close> and \<open>GetAllEvents\<close>, and what a stored event looks like when it is read
  again. The three functions repeat the same reconstruction of an event from its JSON map,
  which is \<open>decode_event\<close> here.
\<close>

section \<open>From JSON back to an event\<close>

definition str_field :: "string \<Rightarrow> gval gomap \<Rightarrow> string" where
  "str_field k m = (case as_string (map_of m k) of Some s \<Rightarrow> s | None \<Rightarrow> [])"

definition decode_event :: "pb \<Rightarrow> gval gomap \<Rightarrow> event" where
  "decode_event P m =
     \<lparr>evId = str_field ''id'' m, evSource = str_field ''source'' m,
      evSpecversion = str_field ''specversion'' m, evType = str_field ''type'' m,
      evDatacontenttype = [], evDataschema = [], evSubject = str_field ''subject'' m,
      evTime = (case as_string (map_of m ''time'') of Some s \<Rightarrow> parse_rfc3339 s | None \<Rightarrow> None),
      evTraceId = str_field ''trace_id'' m, evUserId = str_field ''user_id'' m,
      evSessionId = str_field ''session_id'' m, evCorrelationId = str_field ''correlation_id'' m,
      evAttributes = [],
      evData = (case map_of m ''data'' of Some v \<Rightarrow> AnyOfValue P v | None \<Rightarrow> None)\<rparr>"

section \<open>Operations\<close>

definition GetEventByID :: "env \<Rightarrow> pb \<Rightarrow> string \<Rightarrow> 'g provider \<Rightarrow> event res \<times> 'g provider" where
  "GetEventByID E P k p =
     (if StmtFails E (ticks p) then Fail (Wrap ''failed to retrieve event'' DriverError)
      else case find (is_event k) (Nodes p) of
        None \<Rightarrow> Fail (Errorf (''event not found: '' @ k))
      | Some r \<Rightarrow>
          (case scan_string (nContent r) of
             None \<Rightarrow> Fail (Wrap ''failed to retrieve event'' ScanError)
           | Some content \<Rightarrow>
               (case json_unmarshal_map content of
                  None \<Rightarrow> Fail (Wrap ''failed to deserialize event'' EncodeError)
                | Some m \<Rightarrow> Ok (decode_event P m))),
      tick p)"

text \<open>
  The loop over the rows: a NULL column ends it with an error, malformed content is skipped.
\<close>

fun read_rows :: "pb \<Rightarrow> node_row list \<Rightarrow> event list res" where
  "read_rows P [] = Ok []"
| "read_rows P (r # rs) =
     (case scan_string (nContent r) of
        None \<Rightarrow> Fail (Wrap ''failed to scan event'' ScanError)
      | Some content \<Rightarrow>
          (case json_unmarshal_map content of
             None \<Rightarrow> read_rows P rs
           | Some m \<Rightarrow>
               (case read_rows P rs of Ok evs \<Rightarrow> Ok (decode_event P m # evs) | e \<Rightarrow> e)))"

definition collect_rows :: "env \<Rightarrow> pb \<Rightarrow> nat \<Rightarrow> node_row list \<Rightarrow> event list res" where
  "collect_rows E P n rows =
     (case read_rows P (seen_rows E n rows) of
        Ok evs \<Rightarrow> if rows_err E n then Fail (Wrap ''error iterating rows'' DriverError) else Ok evs
      | e \<Rightarrow> e)"

definition BatchGetEvents :: "env \<Rightarrow> pb \<Rightarrow> string list \<Rightarrow> 'g provider \<Rightarrow> event list res \<times> 'g provider" where
  "BatchGetEvents E P ids p =
     (if ids = [] then (Ok [], p)
      else if StmtFails E (ticks p) then (Fail (Wrap ''failed to query events'' DriverError), tick p)
      else (collect_rows E P (ticks p)
              (delivered E (ticks p) nId
                (filter (\<lambda>r. nId r \<in> set ids \<and> nType r = ''event'') (Nodes p))), tick p))"

text \<open>\<open>LIMIT ? OFFSET ?\<close>: a negative limit is no limit, a negative offset is none.\<close>

definition sql_page :: "int \<Rightarrow> int \<Rightarrow> 'r list \<Rightarrow> 'r list" where
  "sql_page offset limit rows =
     (let rest = drop (nat offset) rows in if limit < 0 then rest else take (nat limit) rest)"

definition event_rows_by_age :: "env \<Rightarrow> nat \<Rightarrow> 'g provider \<Rightarrow> node_row list" where
  "event_rows_by_age E n p =
     sort_key nCreated (delivered E n nId (filter (\<lambda>r. nType r = ''event'') (Nodes p)))"

text \<open>\<open>make([]*Event, 0, limit)\<close> panics when the limit is negative.\<close>

definition GetAllEvents :: "env \<Rightarrow> pb \<Rightarrow> int \<Rightarrow> int \<Rightarrow> 'g provider \<Rightarrow> event list res \<times> 'g provider" where
  "GetAllEvents E P offset limit p =
     (if StmtFails E (ticks p) then (Fail (Wrap ''failed to query events'' DriverError), tick p)
      else if limit < 0 then (Panics, tick p)
      else (collect_rows E P (ticks p) (sql_page offset limit (event_rows_by_age E (ticks p) p)), tick p))"

section \<open>The text of an event reads back\<close>

text \<open>
  What the code relies on in the protobuf runtime beyond \<open>pb_ok\<close>: \<open>AsInterface\<close> gives JSON
  values only (it turns NaN and the infinities into strings) and its strings are UTF-8.
\<close>

definition json_ok :: "gval \<Rightarrow> bool" where
  "json_ok v \<longleftrightarrow> json_shape v \<and> strings_utf8 v \<and> nums_finite v"

definition pb_json_ok :: "pb \<Rightarrow> bool" where
  "pb_json_ok P \<longleftrightarrow> pb_ok P \<and> (\<forall>a v. ValueOfAny P a = Some v \<longrightarrow> json_ok v)"

definition event_wf :: "event \<Rightarrow> bool" where
  "event_wf ev \<longleftrightarrow>
     valid_utf8 (evId ev) \<and> valid_utf8 (evType ev) \<and> valid_utf8 (evSource ev) \<and>
     valid_utf8 (evSpecversion ev) \<and> valid_utf8 (evSubject ev) \<and> valid_utf8 (evTraceId ev) \<and>
     valid_utf8 (evCorrelationId ev) \<and> valid_utf8 (evUserId ev) \<and> valid_utf8 (evSessionId ev) \<and>
     (case evTime ev of None \<Rightarrow> True | Some t \<Rightarrow> ts_valid t) \<and>
     (case evData ev of None \<Rightarrow> True | Some a \<Rightarrow> valid_utf8 (TypeUrl a))"

text \<open>The \<open>map[string]string\<close> that stands for foreign data comes back as an object.\<close>

definition as_json :: "gval \<Rightarrow> gval" where
  "as_json v = (case v of GStrMap m \<Rightarrow> GObj (map (\<lambda>p. (fst p, GStr (snd p))) m) | _ \<Rightarrow> v)"

definition json_map :: "gval gomap \<Rightarrow> gval gomap" where
  "json_map m = map (\<lambda>p. (fst p, as_json (snd p))) m"

lemma json_txt_as_json: "json_txt (as_json v) = json_txt v"
  by (cases v) (simp_all add: as_json_def comp_def)

lemma json_txt_json_map: "json_txt (GObj (json_map m)) = json_txt (GObj m)"
  by (simp add: json_map_def json_txt_as_json comp_def)

lemma map_of_json_map: "map_of (json_map m) k = map_option as_json (map_of m k)"
  by (induction m) (auto simp: json_map_def)

lemma gm_wf_json_map [simp]: "gm_wf (json_map m) = gm_wf m"
  by (simp add: gm_wf_def json_map_def comp_def)

lemma list_all_put_nonempty: "list_all Q m \<Longrightarrow> Q (k, GStr s) \<Longrightarrow> list_all Q (put_nonempty k s m)"
  by (simp add: put_nonempty_def list_all_gm_put)

lemma gm_wf_put_nonempty [simp]: "gm_wf m \<Longrightarrow> gm_wf (put_nonempty k s m)"
  by (simp add: put_nonempty_def)

lemma map_of_put_nonempty:
  "map_of (put_nonempty k s m) j = (if j = k \<and> s \<noteq> [] then Some (GStr s) else map_of m j)"
  by (simp add: put_nonempty_def)

lemma gm_wf_event_fields [simp]: "gm_wf (event_fields ev)"
  by (cases "evTime ev") (simp_all add: event_fields_def Let_def)

lemma gm_wf_event_map [simp]: "gm_wf (event_map P ev)"
  by (simp add: event_map_def split: option.split)

definition member_ok :: "string \<times> gval \<Rightarrow> bool" where
  "member_ok p \<longleftrightarrow> valid_utf8 (fst p) \<and> json_ok (as_json (snd p))"

lemma utf8_ascii: "list_all (\<lambda>c. cb c < 128) s \<Longrightarrow> valid_utf8 s"
  by (induction s) simp_all

lemma member_ok_str: "member_ok (k, GStr s) \<longleftrightarrow> valid_utf8 k \<and> valid_utf8 s"
  by (simp add: member_ok_def json_ok_def as_json_def)

lemma digits_ascii: "list_all is_digit s \<Longrightarrow> list_all (\<lambda>c. cb c < 128) s"
  by (auto simp: list_all_iff is_digit_def)

lemma ascii_format: "list_all (\<lambda>c. cb c < 128) (format_rfc3339 t)"
proof -
  have pad: "list_all (\<lambda>c. cb c < 128) (pad2 n)" for n
    by (rule digits_ascii) (rule pad2_digits)
  have year: "list_all (\<lambda>c. cb c < 128) (year_text y)" for y
    using digits_ascii [OF dec_nat_digits, of "nat \<bar>y\<bar>"]
    by (auto simp: year_text_def Let_def list_all_iff)
  show ?thesis
    by (simp add: format_rfc3339_def date_text_def clock_text_def pad year split: prod.split)
qed

lemma event_fields_ok:
  assumes "event_wf ev"
  shows "list_all member_ok (event_fields ev)"
proof -
  have keys: "valid_utf8 ''id''" "valid_utf8 ''type''" "valid_utf8 ''source''"
    "valid_utf8 ''specversion''" "valid_utf8 ''subject''" "valid_utf8 ''time''"
    "valid_utf8 ''trace_id''" "valid_utf8 ''correlation_id''" "valid_utf8 ''user_id''"
    "valid_utf8 ''session_id''"
    by (rule utf8_ascii, simp)+
  have time: "valid_utf8 (format_rfc3339 t)" for t by (rule utf8_ascii, rule ascii_format)
  have "list_all member_ok (gm_of [(''id'', GStr (evId ev)), (''type'', GStr (evType ev)),
      (''source'', GStr (evSource ev)), (''specversion'', GStr (evSpecversion ev))])"
    using assms keys by (simp add: gm_of_def list_all_gm_put member_ok_str event_wf_def)
  then show ?thesis
    unfolding event_fields_def Let_def using assms keys time
    by (intro list_all_put_nonempty)
      (auto simp: member_ok_str event_wf_def intro!: list_all_gm_put list_all_put_nonempty split: option.split)
qed

lemma event_map_ok:
  assumes "pb_json_ok P" "event_wf ev"
  shows "list_all member_ok (event_map P ev)"
proof -
  have key: "valid_utf8 ''data''" "valid_utf8 ''_type''" by (rule utf8_ascii, simp)+
  have plain: "as_json v = v" if "json_ok v" for v
    using that by (cases v) (simp_all add: json_ok_def as_json_def)
  show ?thesis
  proof (cases "evData ev")
    case (Some a)
    have url: "member_ok (''data'', GStrMap [(''_type'', TypeUrl a)])"
      using assms(2) Some key
      by (simp add: member_ok_def json_ok_def as_json_def event_wf_def gm_wf_def)
    have "member_ok (''data'', v)" if "ValueOfAny P a = Some v" for v
      using assms(1) that key plain [of v] by (simp add: member_ok_def pb_json_ok_def)
    then show ?thesis
      using url event_fields_ok [OF assms(2)]
      by (auto simp: event_map_def Some split: option.split if_splits intro: list_all_gm_put)
  qed (simp add: event_map_def event_fields_ok [OF assms(2)])
qed

lemma json_ok_map:
  assumes "list_all member_ok m" "gm_wf m"
  shows "json_ok (GObj (json_map m))"
  using assms(1) gm_wf_json_map [of m] assms(2)
  by (auto simp: json_ok_def json_map_def member_ok_def list_all_iff)

lemma nums_finite_as_json: "nums_finite (as_json v) = nums_finite v"
  by (cases v) (simp_all add: as_json_def list_all_iff)

text \<open>Encoding never fails, and the text decodes to the map that was encoded.\<close>

lemma encode_event_decodes:
  assumes "pb_json_ok P" "event_wf ev"
  shows "encode_event P ev = Some (json_txt (GObj (event_map P ev)))"
    and "json_unmarshal_map (json_txt (GObj (event_map P ev))) = Some (json_map (event_map P ev))"
proof -
  have ok: "json_ok (GObj (json_map (event_map P ev)))"
    by (rule json_ok_map [OF event_map_ok [OF assms] gm_wf_event_map])
  then have "nums_finite (GObj (event_map P ev))"
    by (simp add: json_ok_def json_map_def list_all_iff nums_finite_as_json)
  then show "encode_event P ev = Some (json_txt (GObj (event_map P ev)))"
    by (simp add: encode_event_def json_marshal_def)
  show "json_unmarshal_map (json_txt (GObj (event_map P ev))) = Some (json_map (event_map P ev))"
    using json_map_roundtrip [of "json_map (event_map P ev)"] ok
    by (simp only: json_ok_def json_txt_json_map)
qed

section \<open>What a stored event looks like\<close>

definition data_value :: "pb \<Rightarrow> any_msg \<Rightarrow> gval" where
  "data_value P a =
     (case if MessageIsValue P a then ValueOfAny P a else None of
        Some v \<Rightarrow> v | None \<Rightarrow> GObj [(''_type'', GStr (TypeUrl a))])"

text \<open>
  Attributes, content type and schema are lost, the time is cut to the second, and data that
  is no \<open>Value\<close> comes back as the object naming its type.
\<close>

definition stored_form :: "pb \<Rightarrow> event \<Rightarrow> event" where
  "stored_form P ev =
     ev\<lparr>evDatacontenttype := [], evDataschema := [], evAttributes := [],
        evTime := map_option (\<lambda>t. t\<lparr>tsNanos := 0\<rparr>) (evTime ev),
        evData := (case evData ev of None \<Rightarrow> None | Some a \<Rightarrow> AnyOfValue P (data_value P a))\<rparr>"

lemma str_field_json_map: "str_field k (json_map m) = str_field k m"
proof (cases "map_of m k")
  case (Some v)
  then show ?thesis by (cases v) (simp_all add: str_field_def map_of_json_map as_json_def)
qed (simp add: str_field_def map_of_json_map)

lemma map_of_event_map:
  "k \<noteq> ''data'' \<Longrightarrow> map_of (event_map P ev) k = map_of (event_fields ev) k"
  by (simp add: event_map_def split: option.split)

lemma event_fields_lookup:
  "map_of (event_fields ev) ''id'' = Some (GStr (evId ev))"
  "map_of (event_fields ev) ''type'' = Some (GStr (evType ev))"
  "map_of (event_fields ev) ''source'' = Some (GStr (evSource ev))"
  "map_of (event_fields ev) ''specversion'' = Some (GStr (evSpecversion ev))"
  "map_of (event_fields ev) ''subject'' = (if evSubject ev \<noteq> [] then Some (GStr (evSubject ev)) else None)"
  "map_of (event_fields ev) ''time'' = map_option (\<lambda>t. GStr (format_rfc3339 (AsTime t))) (evTime ev)"
  "map_of (event_fields ev) ''trace_id'' = (if evTraceId ev \<noteq> [] then Some (GStr (evTraceId ev)) else None)"
  "map_of (event_fields ev) ''correlation_id'' =
     (if evCorrelationId ev \<noteq> [] then Some (GStr (evCorrelationId ev)) else None)"
  "map_of (event_fields ev) ''user_id'' = (if evUserId ev \<noteq> [] then Some (GStr (evUserId ev)) else None)"
  "map_of (event_fields ev) ''session_id'' = (if evSessionId ev \<noteq> [] then Some (GStr (evSessionId ev)) else None)"
  "map_of (event_fields ev) ''data'' = None"
  "map_of (event_fields ev) ''attributes'' = None"
  by (simp_all add: event_fields_def Let_def map_of_put_nonempty gm_of_def split: option.split)

lemma str_field_event_map:
  "k \<noteq> ''data'' \<Longrightarrow> str_field k (event_map P ev) = str_field k (event_fields ev)"
  by (simp add: str_field_def map_of_event_map)

lemma str_fields:
  "str_field ''id'' (event_map P ev) = evId ev" "str_field ''type'' (event_map P ev) = evType ev"
  "str_field ''source'' (event_map P ev) = evSource ev"
  "str_field ''specversion'' (event_map P ev) = evSpecversion ev"
  "str_field ''subject'' (event_map P ev) = evSubject ev"
  "str_field ''trace_id'' (event_map P ev) = evTraceId ev"
  "str_field ''correlation_id'' (event_map P ev) = evCorrelationId ev"
  "str_field ''user_id'' (event_map P ev) = evUserId ev"
  "str_field ''session_id'' (event_map P ev) = evSessionId ev"
  by (simp_all add: str_field_event_map) (simp_all add: str_field_def event_fields_lookup)

lemma as_json_same: "json_ok v \<Longrightarrow> as_json v = v"
  by (cases v) (simp_all add: json_ok_def as_json_def)

lemma decode_event_map:
  assumes "pb_json_ok P" "event_wf ev"
  shows "decode_event P (json_map (event_map P ev)) = stored_form P ev"
proof -
  have time: "(case as_string (map_of (json_map (event_map P ev)) ''time'') of
      Some s \<Rightarrow> parse_rfc3339 s | None \<Rightarrow> None) = map_option (\<lambda>t. t\<lparr>tsNanos := 0\<rparr>) (evTime ev)"
    using assms
    by (cases "evTime ev")
      (simp_all add: map_of_json_map map_of_event_map event_fields_lookup as_json_def event_wf_def
        parse_format_rfc3339)
  have data: "(case map_of (json_map (event_map P ev)) ''data'' of Some v \<Rightarrow> AnyOfValue P v | None \<Rightarrow> None)
      = (case evData ev of None \<Rightarrow> None | Some a \<Rightarrow> AnyOfValue P (data_value P a))"
  proof (cases "evData ev")
    case (Some a)
    have "as_json v = v" if "ValueOfAny P a = Some v" for v
      using that assms(1) by (intro as_json_same) (simp add: pb_json_ok_def)
    then show ?thesis
      by (auto simp: map_of_json_map event_map_def Some data_value_def as_json_def split: option.split)
  qed (simp add: map_of_json_map event_map_def event_fields_lookup)
  show ?thesis
    unfolding decode_event_def str_field_json_map time data
    by (simp add: str_fields stored_form_def)
qed

section \<open>Reading what was stored\<close>

lemma find_row:
  assumes "distinct (map nId ns)" "r \<in> set ns" "is_event k r"
  shows "find (is_event k) ns = Some r"
  using assms
proof (induction ns)
  case (Cons n ns)
  show ?case
  proof (cases "n = r")
    case False
    then have "r \<in> set ns" using Cons.prems by simp
    then have "\<not> is_event k n" using Cons.prems by (auto simp: is_event_def)
    then show ?thesis using Cons \<open>r \<in> set ns\<close> by simp
  qed (use Cons.prems in simp)
qed simp

definition holds_event :: "pb \<Rightarrow> 'g provider \<Rightarrow> event \<Rightarrow> bool" where
  "holds_event P p ev \<longleftrightarrow>
     (\<exists>r \<in> set (Nodes p). is_event (evId ev) r \<and> nContent r = CText (json_txt (GObj (event_map P ev))))"

lemma holds_event_grows: "grows p q \<Longrightarrow> holds_event P p ev \<Longrightarrow> holds_event P q ev"
  by (auto simp: grows_def holds_event_def)

lemma StoreEvent_holds:
  assumes "StoreEvent E H P ev emb p = (Ok u, q)"
  shows "holds_event P q ev"
proof -
  obtain s where s: "encode_event P ev = Some s"
    using assms by (cases "encode_event P ev") (auto simp: StoreEvent_def)
  obtain e p1 where i: "insert_node E (evId ev) ''event'' (CText s) p = (e, p1)" by fastforce
  have e: "e = None" using assms s i by (cases e) (auto simp: StoreEvent_def)
  have "grows p1 q"
    using assms s i e by (auto simp: StoreEvent_def split: if_splits dest: link_embedding_grows)
  moreover have "holds_event P p1 ev"
    using insert_node_None [OF i [unfolded e]] s
    by (auto simp: holds_event_def is_event_def encode_event_def json_marshal_def split: if_splits)
  ultimately show ?thesis by (rule holds_event_grows)
qed

text \<open>A fresh id and a working database are enough to store an event.\<close>

lemma StoreEvent_fresh:
  assumes "pb_json_ok P" "event_wf ev" "evId ev \<notin> nId ` set (Nodes p)" "\<not> StmtFails E (ticks p)"
  shows "fst (StoreEvent E H P ev [] p) = Ok ()"
  using assms(3,4) by (simp add: StoreEvent_def encode_event_decodes(1) [OF assms(1,2)] insert_node_def)

lemma GetEventByID_holds:
  assumes "pb_json_ok P" "event_wf ev" "distinct (map nId (Nodes p))" "holds_event P p ev"
    and "\<not> StmtFails E (ticks p)"
  shows "fst (GetEventByID E P (evId ev) p) = Ok (stored_form P ev)"
proof -
  obtain r where "r \<in> set (Nodes p)" "is_event (evId ev) r"
    "nContent r = CText (json_txt (GObj (event_map P ev)))"
    using assms(4) by (auto simp: holds_event_def)
  then show ?thesis
    using find_row [OF assms(3), of r] assms(5) encode_event_decodes(2) [OF assms(1,2)]
      decode_event_map [OF assms(1,2)]
    by (simp add: GetEventByID_def)
qed

text \<open>
  The events of a database whose event rows all encode well-formed events.
\<close>

definition row_event :: "pb \<Rightarrow> node_row \<Rightarrow> event \<Rightarrow> bool" where
  "row_event P r ev \<longleftrightarrow>
     event_wf ev \<and> nId r = evId ev \<and> nContent r = CText (json_txt (GObj (event_map P ev)))"

definition row_result :: "pb \<Rightarrow> node_row \<Rightarrow> event" where
  "row_result P r =
     (case scan_string (nContent r) of
        Some s \<Rightarrow> (case json_unmarshal_map s of Some m \<Rightarrow> decode_event P m | None \<Rightarrow> empty_event)
      | None \<Rightarrow> empty_event)"

lemma row_event_result: "pb_json_ok P \<Longrightarrow> row_event P r ev \<Longrightarrow> row_result P r = stored_form P ev"
  using encode_event_decodes(2) [of P ev] decode_event_map [of P ev]
  by (simp add: row_event_def row_result_def)

lemma read_rows_all:
  "pb_json_ok P \<Longrightarrow> \<forall>r \<in> set rows. \<exists>ev. row_event P r ev \<Longrightarrow>
    read_rows P rows = Ok (map (row_result P) rows)"
proof (induction rows)
  case (Cons r rows)
  then obtain ev where "row_event P r ev" by auto
  then show ?case
    using Cons encode_event_decodes(2) [of P ev] by (auto simp: row_event_def row_result_def)
qed simp

text \<open>Every event row of the database encodes a well-formed event.\<close>

definition events_wf :: "pb \<Rightarrow> 'g provider \<Rightarrow> bool" where
  "events_wf P p \<longleftrightarrow>
     distinct (map nId (Nodes p)) \<and>
     (\<forall>r \<in> set (Nodes p). nType r = ''event'' \<longrightarrow> (\<exists>ev. row_event P r ev))"

text \<open>A table holds one event per id, so two readings of a row agree.\<close>

lemma row_event_same_id:
  assumes "pb_json_ok P" "events_wf P p" "n \<in> set (Nodes p)" "n' \<in> set (Nodes p)" "nId n' = nId n"
    and "row_event P n ev" "row_event P n' ev'"
  shows "evUserId ev' = evUserId ev"
proof -
  have "n' = n" using assms(2-5) by (auto simp: events_wf_def distinct_map inj_on_def)
  then have "stored_form P ev' = stored_form P ev"
    using row_event_result [OF assms(1)] assms(6,7) by metis
  from arg_cong [OF this, of evUserId] show ?thesis by (simp add: stored_form_def)
qed

lemma events_wf_cong: "Nodes q = Nodes p \<Longrightarrow> events_wf P q = events_wf P p"
  by (simp add: events_wf_def)

definition quiet :: "env \<Rightarrow> nat \<Rightarrow> bool" where
  "quiet E n \<longleftrightarrow> \<not> StmtFails E n \<and> \<not> rows_err E n"

lemma collect_rows_all:
  "pb_json_ok P \<Longrightarrow> \<forall>r \<in> set rows. \<exists>ev. row_event P r ev \<Longrightarrow> \<not> rows_err E n \<Longrightarrow>
    collect_rows E P n rows = Ok (map (row_result P) rows)"
  by (simp add: collect_rows_def read_rows_all)

lemma BatchGetEvents_result:
  assumes "pb_json_ok P" "events_wf P p" "quiet E (ticks p)"
  shows "\<exists>evs. fst (BatchGetEvents E P ids p) = Ok evs \<and>
    mset evs = image_mset (row_result P)
      (mset (filter (\<lambda>r. nId r \<in> set ids \<and> nType r = ''event'') (Nodes p)))"
proof (cases "ids = []")
  case False
  let ?rows = "delivered E (ticks p) nId (filter (\<lambda>r. nId r \<in> set ids \<and> nType r = ''event'') (Nodes p))"
  have "\<forall>r \<in> set ?rows. \<exists>ev. row_event P r ev" using assms(2) by (auto simp: events_wf_def)
  then have "fst (BatchGetEvents E P ids p) = Ok (map (row_result P) ?rows)"
    using assms False by (simp add: BatchGetEvents_def quiet_def collect_rows_all)
  then show ?thesis by (auto simp del: mset_filter)
qed (simp add: BatchGetEvents_def)

lemma set_sql_page: "set (sql_page offset limit rows) \<subseteq> set rows"
  by (auto simp: sql_page_def Let_def dest: in_set_takeD in_set_dropD)

lemma set_event_rows_by_age [simp]:
  "set (event_rows_by_age E n p) = {r \<in> set (Nodes p). nType r = ''event''}"
  by (auto simp: event_rows_by_age_def)

lemma GetAllEvents_result:
  assumes "pb_json_ok P" "events_wf P p" "quiet E (ticks p)" "0 \<le> limit"
  shows "fst (GetAllEvents E P offset limit p) =
    Ok (map (row_result P) (sql_page offset limit (event_rows_by_age E (ticks p) p)))"
proof -
  have "\<forall>r \<in> set (sql_page offset limit (event_rows_by_age E (ticks p) p)). \<exists>ev. row_event P r ev"
    using assms(2) set_sql_page [of offset limit "event_rows_by_age E (ticks p) p"]
    by (fastforce simp: events_wf_def)
  then show ?thesis
    using assms by (simp add: GetAllEvents_def quiet_def collect_rows_all)
qed

text \<open>Successive pages of the same size cut the list without gap or overlap.\<close>

fun pages :: "nat \<Rightarrow> nat \<Rightarrow> nat \<Rightarrow> 'r list \<Rightarrow> 'r list" where
  "pages 0 sz start rows = []"
| "pages (Suc n) sz start rows =
     sql_page (int start) (int sz) rows @ pages n sz (start + sz) rows"

lemma pages_take: "pages n sz start rows = take (n * sz) (drop start rows)"
proof (induction n arbitrary: start)
  case (Suc n)
  then show ?case
    by (simp add: sql_page_def Let_def take_add add.commute)
qed simp

end
