(* ===== verification/SqliteQuery.thy ===== *)
theory SqliteQuery
  imports SqliteRead
begin

text \<open>
  Vector search of \<open>internal/storage/sqlite/provider_pure.go\<close>: \<open>findFilteredEventIDs\<close> and
  \<open>QuerySimilar\<close>. The filter query is kept as the conditions the code appends, together with
  the SQL text they are joined to; its meaning is given where the text is the one the code
  intends, and left to the parameter \<open>injectedQuery\<close> where a quote character in an attribute
  key changes the statement.
\<close>

section \<open>Filters\<close>

record query_filter =
  flUserID :: "string option"
  flSessionID :: "string option"
  flEventTypes :: "string list"
  flTimeFrom :: "timestamp option"
  flTimeTo :: "timestamp option"
  flAttributes :: "string gomap"

record query_result =
  qrID :: string
  qrScore :: f32

datatype sqlval = VNull | VText string | VInt int | VReal f64

record sqlite =
  jsonExtract :: "cell \<Rightarrow> string \<Rightarrow> sqlval"
  dateTime :: "sqlval \<Rightarrow> sqlval"
  injectedQuery :: "string \<Rightarrow> string list \<Rightarrow> node_row list \<times> edge_row list \<Rightarrow>
    (string list \<times> node_row list \<times> edge_row list) option"

text \<open>One element of \<open>whereConditions\<close> with its arguments.\<close>

datatype cond =
    ExtractEq string string
  | TypeIn "string list"
  | TimeGe string
  | TimeLe string

abbreviation apos :: char where
  "apos \<equiv> CHR 0x27"

fun cond_text :: "cond \<Rightarrow> string" where
  "cond_text (ExtractEq path v) = ''json_extract(content, '' @ [apos] @ path @ [apos] @ '') = ?''"
| "cond_text (TypeIn ts) =
     ''json_extract(content, '' @ [apos] @ ''$.type'' @ [apos] @ '') IN ('' @
       join '','' (map (\<lambda>_. ''?'') ts) @ '')''"
| "cond_text (TimeGe s) =
     ''datetime(json_extract(content, '' @ [apos] @ ''$.time'' @ [apos] @ '')) >= datetime(?)''"
| "cond_text (TimeLe s) =
     ''datetime(json_extract(content, '' @ [apos] @ ''$.time'' @ [apos] @ '')) <= datetime(?)''"

fun cond_args :: "cond \<Rightarrow> string list" where
  "cond_args (ExtractEq path v) = [v]"
| "cond_args (TypeIn ts) = ts"
| "cond_args (TimeGe s) = [s]"
| "cond_args (TimeLe s) = [s]"

definition attribute_path :: "string \<Rightarrow> string" where
  "attribute_path k = ''$.attributes.'' @ [quot] @ k @ [quot]"

definition where_conditions :: "query_filter \<Rightarrow> cond list" where
  "where_conditions fl =
     (case flUserID fl of None \<Rightarrow> [] | Some u \<Rightarrow> [ExtractEq ''$.user_id'' u]) @
     (case flSessionID fl of None \<Rightarrow> [] | Some s \<Rightarrow> [ExtractEq ''$.session_id'' s]) @
     (if flEventTypes fl \<noteq> [] then [TypeIn (flEventTypes fl)] else []) @
     (case flTimeFrom fl of None \<Rightarrow> [] | Some t \<Rightarrow> [TimeGe (format_rfc3339 t)]) @
     (case flTimeTo fl of None \<Rightarrow> [] | Some t \<Rightarrow> [TimeLe (format_rfc3339 t)]) @
     map (\<lambda>(k, v). ExtractEq (attribute_path k) v) (flAttributes fl)"

definition filter_sql :: "cond list \<Rightarrow> string" where
  "filter_sql cs =
     ''SELECT id FROM nodes WHERE type = '' @ [apos] @ ''event'' @ [apos] @
       (if cs \<noteq> [] then '' AND '' @ join '' AND '' (map cond_text cs) else [])"

text \<open>SQL's comparisons: NULL never compares, and only text equals text.\<close>

fun cond_holds :: "sqlite \<Rightarrow> cell \<Rightarrow> cond \<Rightarrow> bool" where
  "cond_holds S c (ExtractEq path v) \<longleftrightarrow> jsonExtract S c path = VText v"
| "cond_holds S c (TypeIn ts) \<longleftrightarrow>
     (case jsonExtract S c ''$.type'' of VText t \<Rightarrow> t \<in> set ts | _ \<Rightarrow> False)"
| "cond_holds S c (TimeGe s) \<longleftrightarrow>
     (case (dateTime S (jsonExtract S c ''$.time''), dateTime S (VText s)) of
        (VText a, VText b) \<Rightarrow> b \<le> a | _ \<Rightarrow> False)"
| "cond_holds S c (TimeLe s) \<longleftrightarrow>
     (case (dateTime S (jsonExtract S c ''$.time''), dateTime S (VText s)) of
        (VText a, VText b) \<Rightarrow> a \<le> b | _ \<Rightarrow> False)"

text \<open>A path that stays inside its SQL literal and its JSON label.\<close>

fun cond_plain :: "cond \<Rightarrow> bool" where
  "cond_plain (ExtractEq path v) \<longleftrightarrow> apos \<notin> set path"
| "cond_plain _ \<longleftrightarrow> True"

definition matches_filter :: "sqlite \<Rightarrow> cond list \<Rightarrow> node_row \<Rightarrow> bool" where
  "matches_filter S cs r \<longleftrightarrow> nType r = ''event'' \<and> list_all (cond_holds S (nContent r)) cs"

text \<open>The set \<open>eligibleIDs\<close>; an error met while iterating is not looked at.\<close>

definition findFilteredEventIDs ::
    "env \<Rightarrow> sqlite \<Rightarrow> query_filter \<Rightarrow> 'g provider \<Rightarrow> string list res \<times> 'g provider" where
  "findFilteredEventIDs E S fl p =
     (let cs = where_conditions fl; n = ticks p; failed = Fail (Wrap ''failed to query filtered events'' DriverError)
      in if StmtFails E n then (failed, tick p)
         else if list_all cond_plain cs then
           (Ok (remdups (map nId (seen_rows E n (delivered E n nId (filter (matches_filter S cs) (Nodes p)))))),
            tick p)
         else
           (case injectedQuery S (filter_sql cs) (concat (map cond_args cs)) (Nodes p, Edges p) of
              None \<Rightarrow> (failed, tick p)
            | Some (ids, ns, es) \<Rightarrow>
                (Ok (remdups (seen_rows E n ids)), tick (p\<lparr>Nodes := ns, Edges := es\<rparr>))))"

section \<open>Similarity search\<close>

text \<open>The loop over the search result that stops at \<open>topK\<close> eligible vectors.\<close>

fun pick_eligible :: "int \<Rightarrow> string list \<Rightarrow> (string \<times> f32 list) list \<Rightarrow> (string \<times> f32 list) list \<Rightarrow>
    (string \<times> f32 list) list" where
  "pick_eligible topK vids [] acc = acc"
| "pick_eligible topK vids (nd # nds) acc =
     (if fst nd \<in> set vids then
        (if int (length (acc @ [nd])) \<ge> topK then acc @ [nd] else pick_eligible topK vids nds (acc @ [nd]))
      else pick_eligible topK vids nds acc)"

definition score_of :: "'g hnsw \<Rightarrow> f32 list \<Rightarrow> f32 list \<Rightarrow> f32" where
  "score_of H emb v = f32_sub f32_one (CosineDistance H emb v)"

definition score_map :: "'g hnsw \<Rightarrow> f32 list \<Rightarrow> (string \<times> f32 list) list \<Rightarrow> f32 gomap" where
  "score_map H emb nds = gm_of (map (\<lambda>(k, v). (k, score_of H emb v)) nds)"

fun result_rows :: "f32 gomap \<Rightarrow> edge_row list \<Rightarrow> query_result list" where
  "result_rows m [] = []"
| "result_rows m (e # es) =
     (case map_of m (eSource e) of
        Some sc \<Rightarrow> \<lparr>qrID = eTarget e, qrScore = sc\<rparr> # result_rows m es
      | None \<Rightarrow> result_rows m es)"

definition linked_edges :: "(edge_row \<Rightarrow> string) \<Rightarrow> string list \<Rightarrow> 'g provider \<Rightarrow> edge_row list" where
  "linked_edges f ks p = filter (\<lambda>e. f e \<in> set ks \<and> eLabel e = ''embedding_of'') (Edges p)"

text \<open>The last part: from the chosen vector nodes to scored events.\<close>

definition results_of ::
    "env \<Rightarrow> 'g hnsw \<Rightarrow> f32 list \<Rightarrow> (string \<times> f32 list) list \<Rightarrow> 'g provider \<Rightarrow>
     query_result list res \<times> 'g provider" where
  "results_of E H emb nds p =
     (if nds = [] then (Ok [], p)
      else if StmtFails E (ticks p) then (Fail (Wrap ''failed to query edges'' DriverError), tick p)
      else (Ok (result_rows (score_map H emb nds)
              (seen_rows E (ticks p) (delivered E (ticks p) eId (linked_edges eSource (map fst nds) p)))),
            tick p))"

definition search_eligible ::
    "env \<Rightarrow> 'g hnsw \<Rightarrow> f32 list \<Rightarrow> int \<Rightarrow> string list \<Rightarrow> 'g provider \<Rightarrow>
     (string \<times> f32 list) list res \<times> 'g provider" where
  "search_eligible E H emb topK eids p =
     (if StmtFails E (ticks p) then (Fail (Wrap ''failed to query vector nodes'' DriverError), tick p)
      else
        (let vids = map eSource (seen_rows E (ticks p)
               (delivered E (ticks p) eId (linked_edges eTarget eids p)))
         in case GSearch H (hnswIndex p) emb (topK * 10) of
              None \<Rightarrow> (Panics, tick p)
            | Some nds \<Rightarrow> (Ok (pick_eligible topK vids nds []), tick p)))"

definition QuerySimilar ::
    "env \<Rightarrow> 'g hnsw \<Rightarrow> sqlite \<Rightarrow> f32 list \<Rightarrow> int \<Rightarrow> query_filter option \<Rightarrow> 'g provider \<Rightarrow>
     query_result list res \<times> 'g provider" where
  "QuerySimilar E H S emb topK filt p =
     (if emb = [] then (Fail (Errorf ''embedding cannot be empty''), p)
      else if topK \<le> 0 then (Fail (Errorf ''topK must be positive''), p)
      else case filt of
        None \<Rightarrow>
          (case GSearch H (hnswIndex p) emb topK of
             None \<Rightarrow> (Panics, p)
           | Some nds \<Rightarrow> results_of E H emb nds p)
      | Some fl \<Rightarrow>
          (case findFilteredEventIDs E S fl p of
             (Fail e, p) \<Rightarrow> (Fail (Wrap ''failed to filter events'' e), p)
           | (Panics, p) \<Rightarrow> (Panics, p)
           | (Ok [], p) \<Rightarrow> (Ok [], p)
           | (Ok eids, p) \<Rightarrow>
               (case search_eligible E H emb topK eids p of
                  (Fail e, p) \<Rightarrow> (Fail e, p)
                | (Panics, p) \<Rightarrow> (Panics, p)
                | (Ok nds, p) \<Rightarrow> results_of E H emb nds p)))"

section \<open>What a filter selects\<close>

text \<open>
  What the filter queries rely on in SQLite: \<open>json_extract\<close> of a top-level member gives its
  text when it is a string and NULL when it is missing (nothing is asked of other members), a
  path into a missing member gives NULL, and \<open>datetime\<close> of RFC 3339 texts gives texts that compare
  as the instants do, second by second, and NULL of NULL.
\<close>

definition member_path :: "string \<Rightarrow> string" where
  "member_path k = ''$.'' @ k"

definition filter_keys :: "string set" where
  "filter_keys = {''user_id'', ''session_id'', ''type'', ''time''}"

definition sqlite_ok :: "sqlite \<Rightarrow> bool" where
  "sqlite_ok S \<longleftrightarrow>
     (\<forall>m k. json_ok (GObj m) \<longrightarrow> k \<in> filter_keys \<longrightarrow>
        (map_of m k = None \<longrightarrow> jsonExtract S (CText (json_txt (GObj m))) (member_path k) = VNull) \<and>
        (\<forall>s. map_of m k = Some (GStr s) \<longrightarrow>
           jsonExtract S (CText (json_txt (GObj m))) (member_path k) = VText s)) \<and>
     (\<forall>m k. json_ok (GObj m) \<longrightarrow> map_of m ''attributes'' = None \<longrightarrow> quot \<notin> set k \<longrightarrow>
        jsonExtract S (CText (json_txt (GObj m))) (attribute_path k) = VNull) \<and>
     (\<forall>a b. ts_valid a \<longrightarrow> ts_valid b \<longrightarrow>
        (\<exists>x y. dateTime S (VText (format_rfc3339 a)) = VText x \<and>
               dateTime S (VText (format_rfc3339 b)) = VText y \<and>
               (x \<le> y \<longleftrightarrow> tsSeconds a \<le> tsSeconds b))) \<and>
     dateTime S VNull = VNull"

text \<open>The filter as a predicate on the event that was stored.\<close>

definition event_matches :: "query_filter \<Rightarrow> event \<Rightarrow> bool" where
  "event_matches fl ev \<longleftrightarrow>
     (case flUserID fl of None \<Rightarrow> True | Some u \<Rightarrow> u \<noteq> [] \<and> evUserId ev = u) \<and>
     (case flSessionID fl of None \<Rightarrow> True | Some s \<Rightarrow> s \<noteq> [] \<and> evSessionId ev = s) \<and>
     (flEventTypes fl \<noteq> [] \<longrightarrow> evType ev \<in> set (flEventTypes fl)) \<and>
     (case flTimeFrom fl of None \<Rightarrow> True
      | Some t \<Rightarrow> (case evTime ev of None \<Rightarrow> False | Some u \<Rightarrow> tsSeconds t \<le> tsSeconds u)) \<and>
     (case flTimeTo fl of None \<Rightarrow> True
      | Some t \<Rightarrow> (case evTime ev of None \<Rightarrow> False | Some u \<Rightarrow> tsSeconds u \<le> tsSeconds t)) \<and>
     flAttributes fl = []"

definition filter_wf :: "query_filter \<Rightarrow> bool" where
  "filter_wf fl \<longleftrightarrow>
     (case flTimeFrom fl of None \<Rightarrow> True | Some t \<Rightarrow> ts_valid t) \<and>
     (case flTimeTo fl of None \<Rightarrow> True | Some t \<Rightarrow> ts_valid t) \<and>
     (\<forall>(k, v) \<in> set (flAttributes fl). quot \<notin> set k \<and> apos \<notin> set k)"

lemma event_json_ok:
  "pb_json_ok P \<Longrightarrow> event_wf ev \<Longrightarrow> json_ok (GObj (json_map (event_map P ev)))"
  by (rule json_ok_map [OF event_map_ok gm_wf_event_map])

lemma as_json_GStr: "as_json v = GStr s \<longleftrightarrow> v = GStr s"
  by (cases v) (simp_all add: as_json_def)

text \<open>The members a filter asks for are strings or missing.\<close>

lemma extract_member_value:
  assumes "sqlite_ok S" "pb_json_ok P" "row_event P r ev" "k \<in> filter_keys"
  shows "map_of (event_fields ev) k = None \<Longrightarrow> jsonExtract S (nContent r) (member_path k) = VNull"
    and "map_of (event_fields ev) k = Some (GStr s) \<Longrightarrow> jsonExtract S (nContent r) (member_path k) = VText s"
proof -
  have wf: "event_wf ev" "nContent r = CText (json_txt (GObj (json_map (event_map P ev))))"
    using assms(3) by (simp_all add: row_event_def json_txt_json_map del: json_txt.simps)
  have "k \<noteq> ''data''" using assms(4) by (auto simp: filter_keys_def)
  then have fields: "map_of (json_map (event_map P ev)) k = map_option as_json (map_of (event_fields ev) k)"
    by (simp add: map_of_json_map map_of_event_map)
  note member = conjunct1 [OF assms(1) [unfolded sqlite_ok_def], rule_format,
    OF event_json_ok [OF assms(2) wf(1)] assms(4)]
  show "jsonExtract S (nContent r) (member_path k) = VNull" if "map_of (event_fields ev) k = None"
    unfolding wf(2) using that by (intro member [THEN conjunct1, rule_format]) (simp add: fields)
  show "jsonExtract S (nContent r) (member_path k) = VText s" if "map_of (event_fields ev) k = Some (GStr s)"
    unfolding wf(2) using that by (intro member [THEN conjunct2, rule_format]) (simp add: fields as_json_GStr)
qed

lemma extract_member:
  assumes "sqlite_ok S" "pb_json_ok P" "row_event P r ev" "k \<in> filter_keys"
  shows "jsonExtract S (nContent r) (member_path k) = VText s \<longleftrightarrow>
    map_of (event_fields ev) k = Some (GStr s)"
proof -
  have "\<exists>t. v = GStr t" if "map_of (event_fields ev) k = Some v" for v
    using assms(4) that by (auto simp: filter_keys_def event_fields_lookup split: if_splits)
  then show ?thesis
    using extract_member_value [OF assms] by (cases "map_of (event_fields ev) k") fastforce+
qed

lemma extract_attribute:
  assumes "sqlite_ok S" "pb_json_ok P" "row_event P r ev" "quot \<notin> set k"
  shows "jsonExtract S (nContent r) (attribute_path k) = VNull"
proof -
  have wf: "event_wf ev" "nContent r = CText (json_txt (GObj (json_map (event_map P ev))))"
    using assms(3) by (simp_all add: row_event_def json_txt_json_map del: json_txt.simps)
  have "map_of (json_map (event_map P ev)) ''attributes'' = None"
    by (simp add: map_of_json_map map_of_event_map event_fields_lookup)
  then show ?thesis
    using assms(1,4) event_json_ok [OF assms(2) wf(1)] wf(2) unfolding sqlite_ok_def
    by (simp del: json_txt.simps)
qed

lemma member_paths:
  "''$.user_id'' = member_path ''user_id''" "''$.session_id'' = member_path ''session_id''"
  "''$.type'' = member_path ''type''" "''$.time'' = member_path ''time''"
  by (simp_all add: member_path_def)

lemma cond_user:
  assumes "sqlite_ok S" "pb_json_ok P" "row_event P r ev"
  shows "cond_holds S (nContent r) (ExtractEq ''$.user_id'' u) \<longleftrightarrow> u \<noteq> [] \<and> evUserId ev = u"
  using extract_member [OF assms, of "''user_id''" u]
  by (auto simp: member_paths filter_keys_def event_fields_lookup)

lemma cond_session:
  assumes "sqlite_ok S" "pb_json_ok P" "row_event P r ev"
  shows "cond_holds S (nContent r) (ExtractEq ''$.session_id'' u) \<longleftrightarrow> u \<noteq> [] \<and> evSessionId ev = u"
  using extract_member [OF assms, of "''session_id''" u]
  by (auto simp: member_paths filter_keys_def event_fields_lookup)

lemma cond_type:
  assumes "sqlite_ok S" "pb_json_ok P" "row_event P r ev"
  shows "cond_holds S (nContent r) (TypeIn ts) \<longleftrightarrow> evType ev \<in> set ts"
proof -
  have "jsonExtract S (nContent r) (member_path ''type'') = VText (evType ev)"
    using extract_member [OF assms, of "''type''" "evType ev"]
    by (simp add: filter_keys_def event_fields_lookup)
  then show ?thesis by (simp add: member_paths)
qed

lemma stored_time:
  assumes "sqlite_ok S" "pb_json_ok P" "row_event P r ev"
  shows "jsonExtract S (nContent r) (member_path ''time'') = VText s \<longleftrightarrow>
    (\<exists>t. evTime ev = Some t \<and> s = format_rfc3339 t)"
proof -
  have "ts_valid t" if "evTime ev = Some t" for t
    using assms(3) that by (simp add: row_event_def event_wf_def)
  then show ?thesis
    using extract_member [OF assms, of "''time''" s]
    by (cases "evTime ev") (auto simp: filter_keys_def event_fields_lookup)
qed

lemma sqlite_time:
  assumes "sqlite_ok S" "ts_valid a" "ts_valid b"
  obtains x y where "dateTime S (VText (format_rfc3339 a)) = VText x"
    "dateTime S (VText (format_rfc3339 b)) = VText y" "x \<le> y \<longleftrightarrow> tsSeconds a \<le> tsSeconds b"
proof -
  have "\<forall>a b. ts_valid a \<longrightarrow> ts_valid b \<longrightarrow>
        (\<exists>x y. dateTime S (VText (format_rfc3339 a)) = VText x \<and>
               dateTime S (VText (format_rfc3339 b)) = VText y \<and>
               (x \<le> y \<longleftrightarrow> tsSeconds a \<le> tsSeconds b))"
    using assms(1) unfolding sqlite_ok_def by (elim conjE)
  from this [rule_format, OF assms(2,3)] show ?thesis by (elim exE conjE) (rule that)
qed

lemma cond_time:
  assumes "sqlite_ok S" "pb_json_ok P" "row_event P r ev" "ts_valid t"
  shows "(cond_holds S (nContent r) (TimeGe (format_rfc3339 t)) \<longleftrightarrow>
      (case evTime ev of None \<Rightarrow> False | Some u \<Rightarrow> tsSeconds t \<le> tsSeconds u)) \<and>
    (cond_holds S (nContent r) (TimeLe (format_rfc3339 t)) \<longleftrightarrow>
      (case evTime ev of None \<Rightarrow> False | Some u \<Rightarrow> tsSeconds u \<le> tsSeconds t))"
proof (cases "evTime ev")
  case None
  then have "jsonExtract S (nContent r) (member_path ''time'') = VNull"
    by (intro extract_member_value(1) [OF assms(1-3)]) (simp_all add: filter_keys_def event_fields_lookup)
  moreover have "dateTime S VNull = VNull" using assms(1) unfolding sqlite_ok_def by (elim conjE)
  ultimately show ?thesis by (simp add: None member_paths)
next
  case (Some u)
  have u: "ts_valid u" using assms(3) Some by (simp add: row_event_def event_wf_def)
  have e: "jsonExtract S (nContent r) (member_path ''time'') = VText (format_rfc3339 u)"
    using stored_time [OF assms(1-3)] Some by simp
  obtain x y where xy: "dateTime S (VText (format_rfc3339 u)) = VText x"
    "dateTime S (VText (format_rfc3339 t)) = VText y" "x \<le> y \<longleftrightarrow> tsSeconds u \<le> tsSeconds t"
    using sqlite_time [OF assms(1) u assms(4)] by blast
  obtain x' y' where "dateTime S (VText (format_rfc3339 t)) = VText x'"
    "dateTime S (VText (format_rfc3339 u)) = VText y'" "x' \<le> y' \<longleftrightarrow> tsSeconds t \<le> tsSeconds u"
    using sqlite_time [OF assms(1,4) u] by blast
  with xy show ?thesis by (simp add: Some member_paths e)
qed

lemma cond_attributes:
  assumes "sqlite_ok S" "pb_json_ok P" "row_event P r ev" "\<forall>(k, v) \<in> set m. quot \<notin> set k"
  shows "list_all (cond_holds S (nContent r)) (map (\<lambda>(k, v). ExtractEq (attribute_path k) v) m) \<longleftrightarrow> m = []"
proof (cases m)
  case (Cons p m')
  then show ?thesis using extract_attribute [OF assms(1-3), of "fst p"] assms(4) by (cases p) simp
qed simp

lemma matches_filter_iff:
  assumes "sqlite_ok S" "pb_json_ok P" "row_event P r ev" "nType r = ''event''" "filter_wf fl"
  shows "matches_filter S (where_conditions fl) r \<longleftrightarrow> event_matches fl ev"
proof -
  note A = assms(1-3)
  have attrs: "list_all (cond_holds S (nContent r))
      (map (\<lambda>(k, v). ExtractEq (attribute_path k) v) (flAttributes fl)) \<longleftrightarrow> flAttributes fl = []"
    using assms(5) by (intro cond_attributes [OF A]) (auto simp: filter_wf_def)
  have from': "list_all (cond_holds S (nContent r))
      (case flTimeFrom fl of None \<Rightarrow> [] | Some t \<Rightarrow> [TimeGe (format_rfc3339 t)]) \<longleftrightarrow>
      (case flTimeFrom fl of None \<Rightarrow> True
      | Some t \<Rightarrow> (case evTime ev of None \<Rightarrow> False | Some u \<Rightarrow> tsSeconds t \<le> tsSeconds u))"
    using assms(5) cond_time [OF A] by (cases "flTimeFrom fl") (simp_all add: filter_wf_def del: cond_holds.simps)
  have to': "list_all (cond_holds S (nContent r))
      (case flTimeTo fl of None \<Rightarrow> [] | Some t \<Rightarrow> [TimeLe (format_rfc3339 t)]) \<longleftrightarrow>
      (case flTimeTo fl of None \<Rightarrow> True
      | Some t \<Rightarrow> (case evTime ev of None \<Rightarrow> False | Some u \<Rightarrow> tsSeconds u \<le> tsSeconds t))"
    using assms(5) cond_time [OF A] by (cases "flTimeTo fl") (simp_all add: filter_wf_def del: cond_holds.simps)
  have user: "list_all (cond_holds S (nContent r))
      (case flUserID fl of None \<Rightarrow> [] | Some u \<Rightarrow> [ExtractEq ''$.user_id'' u]) \<longleftrightarrow>
      (case flUserID fl of None \<Rightarrow> True | Some u \<Rightarrow> u \<noteq> [] \<and> evUserId ev = u)"
    by (cases "flUserID fl") (simp_all add: cond_user [OF A] del: cond_holds.simps)
  have session: "list_all (cond_holds S (nContent r))
      (case flSessionID fl of None \<Rightarrow> [] | Some u \<Rightarrow> [ExtractEq ''$.session_id'' u]) \<longleftrightarrow>
      (case flSessionID fl of None \<Rightarrow> True | Some u \<Rightarrow> u \<noteq> [] \<and> evSessionId ev = u)"
    by (cases "flSessionID fl") (simp_all add: cond_session [OF A] del: cond_holds.simps)
  have types: "list_all (cond_holds S (nContent r))
      (if flEventTypes fl \<noteq> [] then [TypeIn (flEventTypes fl)] else []) \<longleftrightarrow>
      (flEventTypes fl \<noteq> [] \<longrightarrow> evType ev \<in> set (flEventTypes fl))"
    by (simp add: cond_type [OF A] del: cond_holds.simps)
  show ?thesis
    unfolding matches_filter_def where_conditions_def list_all_append user session types from' to' attrs
      event_matches_def
    using assms(4) by simp
qed

lemma apos_attribute_path: "apos \<notin> set k \<Longrightarrow> apos \<notin> set (attribute_path k)"
  by (simp add: attribute_path_def)

lemma where_plain: "filter_wf fl \<Longrightarrow> list_all cond_plain (where_conditions fl)"
  using apos_attribute_path
  by (auto simp: where_conditions_def filter_wf_def list_all_iff split: option.splits)

lemma findFiltered_Ok:
  assumes "sqlite_ok S" "pb_json_ok P" "events_wf P p" "filter_wf fl"
    and "findFilteredEventIDs E S fl p = (Ok ids, q)" "k \<in> set ids"
  shows "q = tick p \<and> (\<exists>r \<in> set (Nodes p). \<exists>ev. nId r = k \<and> nType r = ''event'' \<and>
    row_event P r ev \<and> event_matches fl ev)"
proof -
  let ?rows = "delivered E (ticks p) nId (filter (matches_filter S (where_conditions fl)) (Nodes p))"
  have ids: "ids = remdups (map nId (seen_rows E (ticks p) ?rows))" and q: "q = tick p"
    using assms(5) where_plain [OF assms(4)] by (auto simp: findFilteredEventIDs_def Let_def split: if_splits)
  obtain r where r: "r \<in> set (Nodes p)" "nId r = k" "matches_filter S (where_conditions fl) r"
    using assms(6) set_seen_rows [of E "ticks p" ?rows] by (auto simp: ids)
  then obtain ev where "row_event P r ev" using assms(3) by (auto simp: events_wf_def matches_filter_def)
  then show ?thesis
    using r matches_filter_iff [OF assms(1,2) _ _ assms(4)] q by (auto simp: matches_filter_def)
qed

lemma findFiltered_complete:
  assumes "sqlite_ok S" "pb_json_ok P" "filter_wf fl" "quiet E (ticks p)"
    and "r \<in> set (Nodes p)" "nType r = ''event''" "row_event P r ev" "event_matches fl ev"
  shows "\<exists>ids. findFilteredEventIDs E S fl p = (Ok ids, tick p) \<and> nId r \<in> set ids"
  using assms matches_filter_iff [OF assms(1,2,7,6,3)]
  by (auto simp: findFilteredEventIDs_def Let_def quiet_def where_plain)

section \<open>What a search returns\<close>

text \<open>A result is an event an indexed vector is linked to, with that vector's score.\<close>

definition sound_result :: "'g hnsw \<Rightarrow> f32 list \<Rightarrow> 'g provider \<Rightarrow> query_result \<Rightarrow> bool" where
  "sound_result H emb p r \<longleftrightarrow>
     (\<exists>e \<in> set (Edges p). \<exists>v. eTarget e = qrID r \<and>
        GNodes H (hnswIndex p) (eSource e) = Some v \<and> qrScore r = score_of H emb v)"

lemma score_map_Some:
  assumes "map_of (score_map H emb nds) k = Some sc"
  shows "\<exists>v. (k, v) \<in> set nds \<and> sc = score_of H emb v"
  using map_of_SomeD [OF assms [unfolded score_map_def map_of_gm_of]] by auto

lemma set_result_rows:
  "r \<in> set (result_rows m es) \<Longrightarrow> \<exists>e \<in> set es. eTarget e = qrID r \<and> map_of m (eSource e) = Some (qrScore r)"
  by (induction es) (auto split: option.splits)

lemma length_result_rows: "length (result_rows m es) \<le> length es"
  by (induction es) (auto split: option.split)

lemma length_linked:
  assumes "distinct (map eSource es)" "\<forall>e \<in> set es. eSource e \<in> set ks"
  shows "length es \<le> length ks"
proof -
  have "length es = card (set (map eSource es))" using distinct_card [OF assms(1)] by simp
  also have "\<dots> \<le> card (set ks)" using assms(2) by (intro card_mono) auto
  also have "\<dots> \<le> length ks" by (rule card_length)
  finally show ?thesis .
qed

lemma distinct_map_seen: "distinct (map f rows) \<Longrightarrow> distinct (map f (seen_rows E n rows))"
  by (auto simp: seen_rows_def take_map [symmetric] split: option.split)

lemma results_of_sound:
  assumes "edges_ok p" "results_of E H emb nds p = (Ok rs, q)"
    and "\<forall>(k, v) \<in> set nds. GNodes H (hnswIndex p) k = Some v"
  shows "length rs \<le> length nds \<and> (\<forall>r \<in> set rs. sound_result H emb p r)"
proof (cases "nds = []")
  case False
  let ?es = "seen_rows E (ticks p) (delivered E (ticks p) eId (linked_edges eSource (map fst nds) p))"
  have rs: "rs = result_rows (score_map H emb nds) ?es"
    using assms(2) False by (auto simp: results_of_def split: if_splits)
  have sub: "set ?es \<subseteq> set (linked_edges eSource (map fst nds) p)"
    using set_seen_rows [of E "ticks p"] by fastforce
  have "distinct (map eSource (linked_edges eSource (map fst nds) p))"
    using assms(1) by (simp add: edges_ok_def linked_edges_def distinct_map_filter)
  then have "length ?es \<le> length (map fst nds)"
    using sub by (intro length_linked distinct_map_seen) (auto simp: linked_edges_def)
  then have "length rs \<le> length nds"
    using length_result_rows [of "score_map H emb nds" ?es] by (simp add: rs)
  moreover have "sound_result H emb p r" if r: "r \<in> set rs" for r
  proof -
    obtain e where e: "e \<in> set ?es" "eTarget e = qrID r"
      "map_of (score_map H emb nds) (eSource e) = Some (qrScore r)"
      using set_result_rows [OF r [unfolded rs]] by blast
    obtain v where v: "(eSource e, v) \<in> set nds" "qrScore r = score_of H emb v"
      using score_map_Some [OF e(3)] by blast
    moreover have "GNodes H (hnswIndex p) (eSource e) = Some v" using assms(3) v(1) by auto
    moreover have "e \<in> set (Edges p)" using e(1) sub by (auto simp: linked_edges_def)
    ultimately show ?thesis using e(2) unfolding sound_result_def by blast
  qed
  ultimately show ?thesis by blast
qed (use assms in \<open>simp add: results_of_def\<close>)

lemma pick_eligible_set: "set (pick_eligible k vids nds acc) \<subseteq> set acc \<union> {nd \<in> set nds. fst nd \<in> set vids}"
  by (induction k vids nds acc rule: pick_eligible.induct) auto

lemma pick_eligible_length:
  "int (length acc) \<le> k \<Longrightarrow> 0 < k \<Longrightarrow> length acc = 0 \<or> int (length acc) < k \<Longrightarrow>
    int (length (pick_eligible k vids nds acc)) \<le> k"
  by (induction k vids nds acc rule: pick_eligible.induct) auto

lemma search_eligible_Ok:
  assumes "hnsw_ok H" "search_eligible E H emb k eids p = (Ok nds, q)" "0 < k"
  shows "q = tick p \<and> int (length nds) \<le> k \<and>
    (\<forall>(i, v) \<in> set nds. GNodes H (hnswIndex p) i = Some v \<and>
       (\<exists>e \<in> set (Edges p). eSource e = i \<and> eTarget e \<in> set eids))"
proof -
  let ?vids = "map eSource (seen_rows E (ticks p) (delivered E (ticks p) eId (linked_edges eTarget eids p)))"
  obtain all where all: "GSearch H (hnswIndex p) emb (k * 10) = Some all"
    and nds: "nds = pick_eligible k ?vids all []" and q: "q = tick p"
    using assms(2) by (auto simp: search_eligible_def Let_def split: if_splits option.splits)
  have "int (length nds) \<le> k" using assms(3) by (simp add: nds pick_eligible_length)
  moreover have "GNodes H (hnswIndex p) i = Some v \<and> (\<exists>e \<in> set (Edges p). eSource e = i \<and> eTarget e \<in> set eids)"
    if "(i, v) \<in> set nds" for i v
  proof -
    have iv: "(i, v) \<in> set all" "i \<in> set ?vids" using that pick_eligible_set [of k ?vids all "[]"] by (auto simp: nds)
    then obtain e where "e \<in> set (linked_edges eTarget eids p)" "eSource e = i"
      using set_seen_rows [of E "ticks p" "delivered E (ticks p) eId (linked_edges eTarget eids p)"] by auto
    then show ?thesis using hnsw_search_nodes [OF assms(1) all iv(1)] by (auto simp: linked_edges_def)
  qed
  ultimately show ?thesis using q by blast
qed

lemma sound_result_tick [simp]: "sound_result H emb (tick p) r = sound_result H emb p r"
  by (simp add: sound_result_def)

lemma edges_ok_tick [simp]: "edges_ok (tick p) = edges_ok p"
  by (simp add: edges_ok_def has_node_def)

lemma findFiltered_tick:
  "list_all cond_plain (where_conditions fl) \<Longrightarrow> findFilteredEventIDs E S fl p = (x, q) \<Longrightarrow> q = tick p \<and> x \<noteq> Panics"
  by (auto simp: findFilteredEventIDs_def Let_def split: if_splits)

definition filter_plain :: "query_filter option \<Rightarrow> bool" where
  "filter_plain filt \<longleftrightarrow> (case filt of None \<Rightarrow> True | Some fl \<Rightarrow> list_all cond_plain (where_conditions fl))"

definition eligible :: "env \<Rightarrow> sqlite \<Rightarrow> query_filter option \<Rightarrow> 'g provider \<Rightarrow> string \<Rightarrow> bool" where
  "eligible E S filt p k \<longleftrightarrow>
     (case filt of None \<Rightarrow> True
      | Some fl \<Rightarrow> (\<exists>ids. findFilteredEventIDs E S fl p = (Ok ids, tick p) \<and> k \<in> set ids))"

lemma QuerySimilar_filtered:
  assumes "hnsw_ok H" "edges_ok p" "0 < k" "list_all cond_plain (where_conditions fl)"
    and "QuerySimilar E H S emb k (Some fl) p = (Ok rs, q)"
  shows "int (length rs) \<le> k \<and> (\<forall>r \<in> set rs. sound_result H emb p r \<and> eligible E S (Some fl) p (qrID r))"
proof -
  have emb: "emb \<noteq> []" using assms(5) by (auto simp: QuerySimilar_def)
  obtain ids p1 where f: "findFilteredEventIDs E S fl p = (Ok ids, p1)"
    using assms(3,5) emb by (auto simp: QuerySimilar_def split: prod.splits res.splits)
  have p1: "p1 = tick p" using findFiltered_tick [OF assms(4) f] by simp
  show ?thesis
  proof (cases ids)
    case Nil
    then show ?thesis using assms(3,5) emb f by (simp add: QuerySimilar_def)
  next
    case (Cons i is')
    obtain nds p2 where s: "search_eligible E H emb k ids p1 = (Ok nds, p2)"
      using assms(3,5) emb f Cons by (auto simp: QuerySimilar_def split: prod.splits res.splits)
    have r: "results_of E H emb nds p2 = (Ok rs, q)"
      using assms(3,5) emb f Cons s by (simp add: QuerySimilar_def)
    note S = search_eligible_Ok [OF assms(1) s assms(3)]
    have "edges_ok p2" using assms(2) S by (simp add: p1)
    then have R: "length rs \<le> length nds \<and> (\<forall>r \<in> set rs. sound_result H emb p2 r)"
      using S by (intro results_of_sound [OF _ r]) auto
    have "qrID r \<in> set ids" if mem: "r \<in> set rs" for r
    proof -
      have ne: "nds \<noteq> []" using r mem by (auto simp: results_of_def)
      have rs: "rs = result_rows (score_map H emb nds) (seen_rows E (ticks p2)
          (delivered E (ticks p2) eId (linked_edges eSource (map fst nds) p2)))"
        using r ne by (auto simp: results_of_def split: if_splits)
      obtain e where e: "e \<in> set (seen_rows E (ticks p2)
          (delivered E (ticks p2) eId (linked_edges eSource (map fst nds) p2)))" "eTarget e = qrID r"
        using set_result_rows [OF mem [unfolded rs]] by blast
      have "e \<in> set (linked_edges eSource (map fst nds) p2)"
        using e(1) set_seen_rows [of E "ticks p2" "delivered E (ticks p2) eId (linked_edges eSource (map fst nds) p2)"]
        by auto
      then have ee: "e \<in> set (Edges p)" "eSource e \<in> fst ` set nds"
        using S by (auto simp: linked_edges_def p1)
      then obtain e' where e': "e' \<in> set (Edges p)" "eSource e' = eSource e" "eTarget e' \<in> set ids"
        using S by (auto simp: p1)
      have "distinct (map eSource (Edges p))" using assms(2) by (simp add: edges_ok_def)
      then have "e' = e" using e'(1,2) ee(1) by (auto simp: distinct_map inj_on_def)
      then show ?thesis using e'(3) e(2) by simp
    qed
    then show ?thesis
      using R S f by (auto simp: eligible_def p1)
  qed
qed

lemma QuerySimilar_sound:
  assumes "hnsw_ok H" "edges_ok p" "filter_plain filt" "QuerySimilar E H S emb k filt p = (Ok rs, q)"
  shows "int (length rs) \<le> k \<and> (\<forall>r \<in> set rs. sound_result H emb p r \<and> eligible E S filt p (qrID r))"
proof -
  have emb: "emb \<noteq> []" "0 < k" using assms(4) by (auto simp: QuerySimilar_def split: if_splits)
  show ?thesis
  proof (cases filt)
    case None
    then obtain nds where s: "GSearch H (hnswIndex p) emb k = Some nds" "results_of E H emb nds p = (Ok rs, q)"
      using assms(4) emb by (auto simp: QuerySimilar_def split: option.splits)
    have "length rs \<le> length nds \<and> (\<forall>r \<in> set rs. sound_result H emb p r)"
      using hnsw_search_nodes [OF assms(1) s(1)] by (intro results_of_sound [OF assms(2) s(2)]) auto
    then show ?thesis using hnsw_search_length [OF assms(1) s(1)] emb None by (auto simp: eligible_def)
  next
    case (Some fl)
    then show ?thesis
      using QuerySimilar_filtered [OF assms(1,2) emb(2), of fl E S emb rs q] assms(3,4)
      by (simp add: filter_plain_def)
  qed
qed

text \<open>A search leaves the tables and the index alone.\<close>

definition same_store :: "'g provider \<Rightarrow> 'g provider \<Rightarrow> bool" where
  "same_store p q \<longleftrightarrow> Nodes q = Nodes p \<and> Edges q = Edges p \<and> hnswIndex q = hnswIndex p \<and>
    indexPath q = indexPath p \<and> indexFile q = indexFile p"

lemma same_store_refl [simp]: "same_store p p" and same_store_tick [simp]: "same_store p (tick q) = same_store p q"
  and same_store_tick_left [simp]: "same_store (tick p) q = same_store p q"
  by (simp_all add: same_store_def)

lemma results_of_state: "results_of E H emb nds p = (x, q) \<Longrightarrow> same_store p q"
  by (auto simp: results_of_def split: if_splits)

lemma search_eligible_state: "search_eligible E H emb k ids p = (x, q) \<Longrightarrow> q = tick p"
  by (auto simp: search_eligible_def Let_def split: if_splits option.splits)

lemma same_store_trans: "same_store p q \<Longrightarrow> same_store q r \<Longrightarrow> same_store p r"
  by (simp add: same_store_def)

lemma QuerySimilar_state:
  assumes "filter_plain filt" "QuerySimilar E H S emb k filt p = (x, q)"
  shows "same_store p q"
proof (cases filt)
  case None
  then show ?thesis
    using assms(2) by (auto simp: QuerySimilar_def split: if_splits option.splits intro: results_of_state)
next
  case (Some fl)
  obtain y p1 where f: "findFilteredEventIDs E S fl p = (y, p1)" by fastforce
  have p1: "p1 = tick p" using findFiltered_tick [OF _ f] assms(1) Some by (simp add: filter_plain_def)
  obtain z p2 where s: "search_eligible E H emb k (case y of Ok ids \<Rightarrow> ids | _ \<Rightarrow> []) p1 = (z, p2)" by fastforce
  have p2: "p2 = tick p1" by (rule search_eligible_state [OF s])
  have "same_store p q \<or> (\<exists>nds. results_of E H emb nds p2 = (x, q))"
    using assms(2) f s p1 p2
    by (auto simp: QuerySimilar_def Some split: if_splits res.splits list.splits)
  then show ?thesis
    using results_of_state [of E H emb _ p2 x q] by (auto simp: p1 p2 intro: same_store_trans)
qed

end
