(* ===== verification/StorageInterface.thy ===== *)
theory StorageInterface
  imports SqliteModel
begin

text \<open>
  The contract of the interface \<open>storage.Storage\<close> (\<open>internal/storage/provider.go\<close>) as the
  bus relies on it: whatever calls are made, an event that was stored successfully stays
  stored, and reading it gives the event in the storage's own form. \<open>up s\<close> says that the next
  statement on \<open>s\<close> is not one that fails.
\<close>

locale event_storage =
  fixes step :: "'s \<Rightarrow> 's \<Rightarrow> bool"
    and inv :: "'s \<Rightarrow> bool"
    and holds :: "'s \<Rightarrow> event \<Rightarrow> bool"
    and store :: "event \<Rightarrow> f32 list \<Rightarrow> 's \<Rightarrow> unit res \<times> 's"
    and get :: "string \<Rightarrow> 's \<Rightarrow> event res \<times> 's"
    and norm :: "event \<Rightarrow> event"
    and wf :: "event \<Rightarrow> bool"
    and up :: "'s \<Rightarrow> bool"
  assumes step_inv: "inv s \<Longrightarrow> step s t \<Longrightarrow> inv t"
    and step_holds: "holds s ev \<Longrightarrow> step s t \<Longrightarrow> holds t ev"
    and store_step: "store ev emb s = (x, t) \<Longrightarrow> x \<noteq> Panics \<Longrightarrow> wf ev \<Longrightarrow> step s t"
    and store_holds: "store ev emb s = (Ok u, t) \<Longrightarrow> holds t ev"
    and get_holds: "inv s \<Longrightarrow> holds s ev \<Longrightarrow> wf ev \<Longrightarrow> up s \<Longrightarrow> fst (get (evId ev) s) = Ok (norm ev)"
begin

lemma run_inv: "step\<^sup>*\<^sup>* s t \<Longrightarrow> inv s \<Longrightarrow> inv t"
  by (induction rule: rtranclp_induct) (auto intro: step_inv)

lemma run_holds: "step\<^sup>*\<^sup>* s t \<Longrightarrow> holds s ev \<Longrightarrow> holds t ev"
  by (induction rule: rtranclp_induct) (auto intro: step_holds)

lemma stored_then_read:
  assumes "inv s" "store ev emb s = (Ok u, s1)" "wf ev" "step\<^sup>*\<^sup>* s1 t" "up t"
  shows "fst (get (evId ev) t) = Ok (norm ev)"
proof -
  have "step s s1" using store_step [OF assms(2) _ assms(3)] by simp
  then have "inv s1" using step_inv assms(1) by blast
  then show ?thesis
    using run_inv [OF assms(4)] run_holds [OF assms(4) store_holds [OF assms(2)]] assms(3,5)
    by (intro get_holds)
qed

end

end
