(* ===== verification/SqliteProvider.thy ===== *)
theory SqliteProvider
  imports SqliteQuery StorageInterface
begin

text \<open>
  The life of a storage provider (\<open>NewProvider\<close>, \<open>initSchema\<close>, \<open>initHNSWIndex\<close> and
  \<open>Close\<close> of \<open>internal/storage/sqlite/provider_pure.go\<close>), the runs of its operations as a
  step relation, and the interpretation of the storage interface on it.
\<close>

section \<open>Opening and closing\<close>

text \<open>What is found at the two paths: the tables (\<open>None\<close> before they are created) and the file.\<close>

record disk =
  dNodes :: "node_row list option"
  dEdges :: "edge_row list option"
  dFile :: "byte list option"

definition disk_of :: "'g provider \<Rightarrow> disk" where
  "disk_of p = \<lparr>dNodes = Some (Nodes p), dEdges = Some (Edges p), dFile = indexFile p\<rparr>"

definition TrimSuffix :: "string \<Rightarrow> string \<Rightarrow> string" where
  "TrimSuffix s suf =
     (if length suf \<le> length s \<and> drop (length s - length suf) s = suf
      then take (length s - length suf) s else s)"

definition index_path_of :: "string \<Rightarrow> string" where
  "index_path_of path = TrimSuffix path ''.db'' @ ''.hnsw''"

definition no_index_file :: "string \<Rightarrow> bool" where
  "no_index_file ipath \<longleftrightarrow> ipath = ''.hnsw'' \<or> take 8 ipath = '':memory:''"

text \<open>The four statements of \<open>initSchema\<close>; the indexes do not change what the tables hold.\<close>

definition initSchema :: "env \<Rightarrow> nat \<Rightarrow> disk \<Rightarrow> err option \<times> disk" where
  "initSchema E n d =
     (if StmtFails E n then (Some (Wrap ''failed to create nodes table'' DriverError), d)
      else
        (let d = d\<lparr>dNodes := Some (case dNodes d of None \<Rightarrow> [] | Some ns \<Rightarrow> ns)\<rparr>
         in if StmtFails E (n + 1) then (Some (Wrap ''failed to create edges table'' DriverError), d)
            else
              (let d = d\<lparr>dEdges := Some (case dEdges d of None \<Rightarrow> [] | Some es \<Rightarrow> es)\<rparr>
               in if StmtFails E (n + 2) then (Some (Wrap ''failed to create nodes indexes'' DriverError), d)
                  else if StmtFails E (n + 3) then (Some (Wrap ''failed to create edges indexes'' DriverError), d)
                  else (None, d))))"

text \<open>The loop that fills an empty graph from the vector rows.\<close>

fun rebuild_loop :: "'g hnsw \<Rightarrow> node_row list \<Rightarrow> 'g \<Rightarrow> nat \<Rightarrow> ('g \<times> nat) res" where
  "rebuild_loop H [] g cnt = Ok (g, cnt)"
| "rebuild_loop H (r # rs) g cnt =
     (case row_vector r of
        None \<Rightarrow> rebuild_loop H rs g cnt
      | Some v \<Rightarrow>
          (case GAdd H g (nId r) v of
             None \<Rightarrow> Panics
           | Some g' \<Rightarrow> rebuild_loop H rs g' (cnt + 1)))"

definition save_index :: "env \<Rightarrow> 'g hnsw \<Rightarrow> 'g provider \<Rightarrow> 'g provider" where
  "save_index E H p =
     (if SaveFails E (ticks p) then p else p\<lparr>indexFile := Some (GExport H (hnswIndex p))\<rparr>)"

definition initHNSWIndex :: "env \<Rightarrow> 'g hnsw \<Rightarrow> 'g provider \<Rightarrow> unit res \<times> 'g provider" where
  "initHNSWIndex E H p =
     (let p = p\<lparr>hnswIndex := NewGraph H\<rparr>
      in if no_index_file (indexPath p) then (Ok (), p)
         else case GLoad H (indexFile p) of
           Some g \<Rightarrow> (Ok (), p\<lparr>hnswIndex := g\<rparr>)
         | None \<Rightarrow>
             if StmtFails E (ticks p) then (Fail (Wrap ''failed to query vector nodes'' DriverError), tick p)
             else
               (case rebuild_loop H
                       (seen_rows E (ticks p) (delivered E (ticks p) nId
                          (filter (\<lambda>r. nType r = ''vector'') (Nodes p)))) (hnswIndex p) 0 of
                  Panics \<Rightarrow> (Panics, tick p)
                | Fail e \<Rightarrow> (Fail e, tick p)
                | Ok (g, cnt) \<Rightarrow>
                    (let n = ticks p; p = tick (p\<lparr>hnswIndex := g\<rparr>)
                     in if rows_err E n then (Fail (Wrap ''failed to iterate embeddings'' DriverError), p)
                        else (Ok (), if 0 < cnt then save_index E H p else p))))"

definition NewProvider ::
    "env \<Rightarrow> 'g hnsw \<Rightarrow> err option \<Rightarrow> string \<Rightarrow> disk \<Rightarrow> 'g provider res \<times> disk" where
  "NewProvider E H opened path d =
     (case opened of
        Some e \<Rightarrow> (Fail (Wrap ''failed to open SQLite database'' e), d)
      | None \<Rightarrow>
          (case initSchema E 0 d of
             (Some e, d) \<Rightarrow> (Fail (Wrap ''failed to initialize schema'' e), d)
           | (None, d) \<Rightarrow>
               (case initHNSWIndex E H
                       \<lparr>Nodes = (case dNodes d of None \<Rightarrow> [] | Some ns \<Rightarrow> ns),
                        Edges = (case dEdges d of None \<Rightarrow> [] | Some es \<Rightarrow> es),
                        hnswIndex = NewGraph H, indexPath = index_path_of path,
                        indexFile = dFile d, ticks = 4\<rparr> of
                  (Ok _, p) \<Rightarrow> (Ok p, disk_of p)
                | (Fail e, p) \<Rightarrow> (Fail (Wrap ''failed to initialize HNSW index'' e), disk_of p)
                | (Panics, p) \<Rightarrow> (Panics, disk_of p))))"

definition Close :: "env \<Rightarrow> 'g hnsw \<Rightarrow> 'g provider \<Rightarrow> unit res \<times> disk" where
  "Close E H p =
     (let p = (if no_index_file (indexPath p) then p else save_index E H p)
      in (if StmtFails E (ticks p) then Fail DriverError else Ok (), disk_of p))"

section \<open>The index after a restart\<close>

lemma row_vector_nonempty: "row_vector r = Some v \<Longrightarrow> v \<noteq> []"
  by (auto simp: row_vector_def deserializeVector_def split: option.splits if_splits)

lemma rebuild_loop_nodes:
  assumes "hnsw_ok H" "distinct (map nId rows)" "rebuild_loop H rows g c = Ok (g', c')"
  shows "GNodes H g' k = Some v \<longleftrightarrow>
    (\<exists>r \<in> set rows. nId r = k \<and> row_vector r = Some v) \<or>
    GNodes H g k = Some v \<and> \<not> (\<exists>r \<in> set rows. nId r = k \<and> row_vector r \<noteq> None)"
  using assms(2,3)
proof (induction rows arbitrary: g c)
  case (Cons r rows)
  show ?case
  proof (cases "row_vector r")
    case None
    then show ?thesis using Cons by auto
  next
    case (Some w)
    obtain g1 where g1: "GAdd H g (nId r) w = Some g1" "rebuild_loop H rows g1 (c + 1) = Ok (g', c')"
      using Cons.prems(2) Some by (auto split: option.splits)
    have IH: "GNodes H g' k = Some v \<longleftrightarrow>
      (\<exists>r \<in> set rows. nId r = k \<and> row_vector r = Some v) \<or>
      GNodes H g1 k = Some v \<and> \<not> (\<exists>r \<in> set rows. nId r = k \<and> row_vector r \<noteq> None)"
      using Cons.prems(1) by (intro Cons.IH [OF _ g1(2)]) simp
    have n1: "GNodes H g1 = (GNodes H g)(nId r \<mapsto> w)" by (rule hnsw_add [OF assms(1) g1(1)])
    have "\<forall>r' \<in> set rows. nId r' \<noteq> nId r" using Cons.prems(1) by (auto simp: image_iff)
    then show ?thesis unfolding IH n1 using Some by auto
  qed
qed simp

lemma index_agrees_rebuilt:
  assumes "hnsw_ok H" "distinct (map nId (Nodes p))"
    and "rebuild_loop H (delivered E n nId (filter (\<lambda>r. nType r = ''vector'') (Nodes p))) (NewGraph H) c = Ok (g, c')"
    and "Nodes q = Nodes p" "hnswIndex q = g"
  shows "index_agrees H q"
proof -
  have "distinct (map nId (delivered E n nId (filter (\<lambda>r. nType r = ''vector'') (Nodes p))))"
    using assms(2) by (simp add: distinct_map_filter)
  from rebuild_loop_nodes [OF assms(1) this assms(3)] show ?thesis
    using hnsw_new [OF assms(1)] assms(4,5) by (auto simp: index_agrees_def)
qed

lemma initHNSWIndex_tables:
  "initHNSWIndex E H p = (x, q) \<Longrightarrow> Nodes q = Nodes p \<and> Edges q = Edges p \<and> indexPath q = indexPath p"
  by (auto simp: initHNSWIndex_def Let_def save_index_def split: if_splits option.splits res.splits)

lemma initHNSWIndex_loaded:
  assumes "initHNSWIndex E H p = (x, q)" "\<not> no_index_file (indexPath p)" "GLoad H (indexFile p) = Some g"
  shows "x = Ok () \<and> hnswIndex q = g"
  using assms by (auto simp: initHNSWIndex_def Let_def)

lemma initHNSWIndex_rebuilt:
  assumes "hnsw_ok H" "distinct (map nId (Nodes p))"
    and "initHNSWIndex E H p = (Ok u, q)" "\<not> no_index_file (indexPath p)" "GLoad H (indexFile p) = None"
  shows "index_agrees H q"
proof -
  let ?rows = "delivered E (ticks p) nId (filter (\<lambda>r. nType r = ''vector'') (Nodes p))"
  have run: "\<not> rows_err E (ticks p)"
    using assms(3-5) by (auto simp: initHNSWIndex_def Let_def split: if_splits res.splits prod.splits)
  then obtain g c where g: "rebuild_loop H ?rows (NewGraph H) 0 = Ok (g, c)" "hnswIndex q = g"
    using assms(3-5)
    by (auto simp: initHNSWIndex_def Let_def save_index_def split: if_splits res.splits prod.splits)
  show ?thesis
    by (rule index_agrees_rebuilt [OF assms(1,2) g(1) _ g(2)])
      (use initHNSWIndex_tables [OF assms(3)] in simp)
qed

definition opened_provider :: "'g hnsw \<Rightarrow> string \<Rightarrow> disk \<Rightarrow> 'g provider" where
  "opened_provider H path d =
     \<lparr>Nodes = (case dNodes d of None \<Rightarrow> [] | Some ns \<Rightarrow> ns),
      Edges = (case dEdges d of None \<Rightarrow> [] | Some es \<Rightarrow> es),
      hnswIndex = NewGraph H, indexPath = index_path_of path, indexFile = dFile d, ticks = 4\<rparr>"

lemma initSchema_done:
  "initSchema E n d = (None, d') \<Longrightarrow>
    dFile d' = dFile d \<and> dNodes d' = Some (case dNodes d of None \<Rightarrow> [] | Some ns \<Rightarrow> ns) \<and>
    dEdges d' = Some (case dEdges d of None \<Rightarrow> [] | Some es \<Rightarrow> es)"
  by (auto simp: initSchema_def Let_def split: if_splits)

lemma opened_provider_cong:
  "dFile d' = dFile d \<Longrightarrow> dNodes d' = Some (case dNodes d of None \<Rightarrow> [] | Some ns \<Rightarrow> ns) \<Longrightarrow>
    dEdges d' = Some (case dEdges d of None \<Rightarrow> [] | Some es \<Rightarrow> es) \<Longrightarrow>
    opened_provider H path d' = opened_provider H path d"
  by (simp add: opened_provider_def)

lemma NewProvider_Ok:
  assumes "NewProvider E H opened path d = (Ok p, d')"
  shows "initHNSWIndex E H (opened_provider H path d) = (Ok (), p)"
proof -
  have opened: "opened = None" using assms by (cases opened) (auto simp: NewProvider_def)
  obtain e d1 where s: "initSchema E 0 d = (e, d1)" by fastforce
  have e: "e = None" using assms s opened by (cases e) (auto simp: NewProvider_def)
  obtain x q where i: "initHNSWIndex E H (opened_provider H path d1) = (x, q)" by fastforce
  have "x = Ok ()" "q = p"
    using assms s opened e i
    by (auto simp: NewProvider_def opened_provider_def [symmetric] split: res.splits)
  moreover have "opened_provider H path d1 = opened_provider H path d"
    using initSchema_done [OF s [unfolded e]] by (intro opened_provider_cong) simp_all
  ultimately show ?thesis using i by simp
qed

lemma provider_inv_reopen:
  assumes "provider_inv H P p" "Nodes q = Nodes p" "Edges q = Edges p" "index_agrees H q"
  shows "provider_inv H P q"
  using assms by (simp add: provider_inv_def rows_ok_def edges_ok_def has_node_def)

lemma index_agrees_nodes:
  "index_agrees H p \<Longrightarrow> Nodes q = Nodes p \<Longrightarrow> GNodes H (hnswIndex q) = GNodes H (hnswIndex p) \<Longrightarrow>
    index_agrees H q"
  by (simp add: index_agrees_def)

section \<open>Runs\<close>

text \<open>
  One call of the storage interface that returns, whatever its result. The events stored have
  UTF-8 strings, as protobuf requires, and times in protobuf's range.
\<close>

inductive provider_step ::
    "env \<Rightarrow> 'g hnsw \<Rightarrow> pb \<Rightarrow> sqlite \<Rightarrow> 'g provider \<Rightarrow> 'g provider \<Rightarrow> bool"
  for E H P S where
  store: "StoreEvent E H P ev emb p = (x, q) \<Longrightarrow> x \<noteq> Panics \<Longrightarrow> event_wf ev \<Longrightarrow> provider_step E H P S p q"
| embed: "AddEmbeddingToEvent E H k emb p = (x, q) \<Longrightarrow> x \<noteq> Panics \<Longrightarrow> provider_step E H P S p q"
| get: "GetEventByID E P k p = (x, q) \<Longrightarrow> provider_step E H P S p q"
| batch: "BatchGetEvents E P ks p = (x, q) \<Longrightarrow> provider_step E H P S p q"
| page: "GetAllEvents E P offset limit p = (x, q) \<Longrightarrow> provider_step E H P S p q"
| similar: "filter_plain filt \<Longrightarrow> QuerySimilar E H S emb n filt p = (x, q) \<Longrightarrow> provider_step E H P S p q"

inductive_cases provider_stepE: "provider_step E H P S p q"

lemma read_states:
  "GetEventByID E P k p = (x, q) \<Longrightarrow> same_store p q"
  "BatchGetEvents E P ks p = (y, q) \<Longrightarrow> same_store p q"
  "GetAllEvents E P offset limit p = (y, q) \<Longrightarrow> same_store p q"
  by (auto simp: GetEventByID_def BatchGetEvents_def GetAllEvents_def split: if_splits)

lemma same_store_inv: "same_store p q \<Longrightarrow> provider_inv H P q = provider_inv H P p"
  by (rule provider_inv_cong) (simp_all add: same_store_def)

lemma same_store_grows: "same_store p q \<Longrightarrow> grows p q"
  by (simp add: same_store_def grows_def)

lemma provider_step_cases:
  assumes "provider_step E H P S p q"
  obtains "same_store p q"
  | ev emb x where "StoreEvent E H P ev emb p = (x, q)" "x \<noteq> Panics" "event_wf ev"
  | k emb x where "AddEmbeddingToEvent E H k emb p = (x, q)" "x \<noteq> Panics"
  using assms
  by (elim provider_stepE) (auto dest: read_states QuerySimilar_state)

text \<open>Vector rows and failures aside, \<open>StoreEvent\<close> adds the row of its event and no other event row.\<close>

lemma StoreVector_event_rows:
  "StoreVector E H vec p = (x, q) \<Longrightarrow> r \<in> set (Nodes q) \<Longrightarrow> nType r = ''event'' \<Longrightarrow> r \<in> set (Nodes p)"
  by (erule StoreVector_cases) (auto dest!: insert_node_None)

lemma CreateEdge_nodes: "CreateEdge E src tgt lab p = (x, q) \<Longrightarrow> Nodes q = Nodes p"
  by (auto simp: CreateEdge_def Let_def split: prod.splits option.splits dest: insert_edge_Some insert_edge_None)

lemma link_embedding_event_rows:
  "link_embedding E H k vec p = (x, q) \<Longrightarrow> r \<in> set (Nodes q) \<Longrightarrow> nType r = ''event'' \<Longrightarrow> r \<in> set (Nodes p)"
  by (auto simp: link_embedding_def split: prod.splits res.splits
      dest!: CreateEdge_nodes dest: StoreVector_event_rows)

lemma AddEmbeddingToEvent_event_rows:
  "AddEmbeddingToEvent E H k vec p = (x, q) \<Longrightarrow> r \<in> set (Nodes q) \<Longrightarrow> nType r = ''event'' \<Longrightarrow> r \<in> set (Nodes p)"
  by (auto simp: AddEmbeddingToEvent_def split: if_splits dest: link_embedding_event_rows)

lemma StoreEvent_event_rows:
  assumes "StoreEvent E H P ev emb p = (x, q)" "r \<in> set (Nodes q)" "nType r = ''event''" "event_wf ev"
  shows "r \<in> set (Nodes p) \<or> row_event P r ev"
proof (cases "encode_event P ev")
  case (Some s)
  obtain e p1 where i: "insert_node E (evId ev) ''event'' (CText s) p = (e, p1)" by fastforce
  show ?thesis
  proof (cases e)
    case None
    have "r \<in> set (Nodes p1)"
      using assms i None Some
      by (auto simp: StoreEvent_def split: if_splits dest: link_embedding_event_rows)
    then show ?thesis
      using insert_node_None [OF i [unfolded None]] Some assms(4)
      by (auto simp: row_event_def encode_event_def json_marshal_def split: if_splits)
  next
    case e: (Some e')
    have "p1 = tick p" by (rule insert_node_Some [OF i [unfolded e]])
    then have "Nodes q = Nodes p" using assms(1) i Some e by (auto simp: StoreEvent_def)
    then show ?thesis using assms(2) by simp
  qed
qed (use assms in \<open>auto simp: StoreEvent_def\<close>)

definition storage_inv :: "'g hnsw \<Rightarrow> pb \<Rightarrow> 'g provider \<Rightarrow> bool" where
  "storage_inv H P p \<longleftrightarrow> provider_inv H P p \<and> events_wf P p"

lemma provider_inv_distinct: "provider_inv H P p \<Longrightarrow> distinct (map nId (Nodes p))"
  by (simp add: provider_inv_def rows_ok_def)

lemma events_wf_more:
  assumes "provider_inv H P q" "events_wf P p"
    and "\<And>r. r \<in> set (Nodes q) \<Longrightarrow> nType r = ''event'' \<Longrightarrow> r \<in> set (Nodes p) \<or> row_event P r ev"
  shows "events_wf P q"
  using assms(2,3) provider_inv_distinct [OF assms(1)] unfolding events_wf_def by blast

lemma provider_step_inv:
  assumes "hnsw_ok H" "storage_inv H P p" "provider_step E H P S p q"
  shows "storage_inv H P q"
  using assms(3)
proof (cases rule: provider_step_cases)
  case 1
  then show ?thesis
    using assms(2) events_wf_cong [of q p P] by (simp add: storage_inv_def same_store_inv) (simp add: same_store_def)
next
  case (2 ev emb x)
  have inv: "provider_inv H P q"
    using assms(1,2) 2 by (auto simp: storage_inv_def intro: StoreEvent_inv)
  moreover have "events_wf P q"
    using assms(2) StoreEvent_event_rows [OF 2(1) _ _ 2(3)]
    by (intro events_wf_more [OF inv, of p]) (auto simp: storage_inv_def)
  ultimately show ?thesis by (simp add: storage_inv_def)
next
  case (3 k emb x)
  have inv: "provider_inv H P q"
    using assms(1,2) 3 by (auto simp: storage_inv_def intro: AddEmbeddingToEvent_inv)
  moreover have "events_wf P q"
    using assms(2) AddEmbeddingToEvent_event_rows [OF 3(1)]
    by (intro events_wf_more [OF inv, of p]) (auto simp: storage_inv_def)
  ultimately show ?thesis by (simp add: storage_inv_def)
qed

lemma provider_step_grows: "provider_step E H P S p q \<Longrightarrow> grows p q"
  by (erule provider_step_cases)
    (auto intro: same_store_grows StoreEvent_grows AddEmbeddingToEvent_grows)

text \<open>The SQLite provider keeps the contract of the storage interface.\<close>

interpretation sq: event_storage
  "provider_step E H P S" "\<lambda>p. hnsw_ok H \<and> pb_json_ok P \<and> storage_inv H P p" "holds_event P"
  "\<lambda>ev emb p. StoreEvent E H P ev emb p" "GetEventByID E P" "stored_form P" event_wf
  "\<lambda>p. \<not> StmtFails E (ticks p)"
  for E :: env and H :: "'g hnsw" and P :: pb and S :: sqlite
proof
  fix s t :: "'g provider" and ev emb x u
  show "hnsw_ok H \<and> pb_json_ok P \<and> storage_inv H P t"
    if "hnsw_ok H \<and> pb_json_ok P \<and> storage_inv H P s" "provider_step E H P S s t"
    using that provider_step_inv by blast
  show "holds_event P t ev" if "holds_event P s ev" "provider_step E H P S s t"
    using that provider_step_grows holds_event_grows by blast
  show "provider_step E H P S s t" if "StoreEvent E H P ev emb s = (x, t)" "x \<noteq> Panics" "event_wf ev"
    using that by (rule provider_step.store)
  show "holds_event P t ev" if "StoreEvent E H P ev emb s = (Ok u, t)"
    using that by (rule StoreEvent_holds)
  show "fst (GetEventByID E P (evId ev) s) = Ok (stored_form P ev)"
    if "hnsw_ok H \<and> pb_json_ok P \<and> storage_inv H P s" "holds_event P s ev" "event_wf ev"
      "\<not> StmtFails E (ticks s)"
    using that by (auto simp: storage_inv_def events_wf_def intro: GetEventByID_holds)
qed

section \<open>A new database\<close>

definition empty_disk :: disk where
  "empty_disk = \<lparr>dNodes = None, dEdges = None, dFile = None\<rparr>"

lemma fresh_provider_inv:
  assumes "hnsw_ok H" "NewProvider E H None path empty_disk = (Ok p, d)"
  shows "storage_inv H P p"
proof -
  note i = NewProvider_Ok [OF assms(2)]
  have none: "Nodes p = [] \<and> Edges p = []"
    using initHNSWIndex_tables [OF i] by (simp add: opened_provider_def empty_disk_def)
  have "GNodes H (hnswIndex p) = Map.empty"
  proof (cases "no_index_file (index_path_of path)")
    case True
    then show ?thesis
      using i hnsw_new [OF assms(1)] by (auto simp: initHNSWIndex_def Let_def opened_provider_def)
  next
    case False
    then show ?thesis
      using i hnsw_new [OF assms(1)] hnsw_load_new [OF assms(1)]
      by (auto simp: initHNSWIndex_def Let_def opened_provider_def empty_disk_def seen_rows_def delivered_def
          split: option.splits if_splits)
  qed
  with none show ?thesis
    by (simp add: storage_inv_def provider_inv_def rows_ok_def edges_ok_def index_agrees_def events_wf_def)
qed

lemma storage_run_inv:
  assumes "(provider_step E H P S)\<^sup>*\<^sup>* p q" "hnsw_ok H" "storage_inv H P p"
  shows "storage_inv H P q"
  using assms by (induction rule: rtranclp_induct) (auto intro: provider_step_inv)

text \<open>A clean close, or a rebuild, and reopening gives the rows back and an index that agrees with them.\<close>

lemma reopened_index:
  assumes "hnsw_ok H" "storage_inv H P p" "\<not> no_index_file (indexPath p)" "index_path_of path = indexPath p"
    and "(\<not> SaveFails E (ticks p) \<and> d = snd (Close E H p)) \<or> (GLoad H (indexFile p) = None \<and> d = disk_of p)"
    and "NewProvider E' H None path d = (Ok q, d')"
  shows "Nodes q = Nodes p \<and> Edges q = Edges p \<and> storage_inv H P q"
proof -
  note i = NewProvider_Ok [OF assms(6)]
  have rows: "Nodes (opened_provider H path d) = Nodes p" "Edges (opened_provider H path d) = Edges p"
    "indexPath (opened_provider H path d) = indexPath p"
    using assms(3-5) by (auto simp: Close_def Let_def disk_of_def save_index_def opened_provider_def)
  note same = initHNSWIndex_tables [OF i, unfolded rows]
  have np: "\<not> no_index_file (indexPath (opened_provider H path d))" using assms(3) rows by simp
  have inv: "provider_inv H P p" using assms(2) by (simp add: storage_inv_def)
  have "index_agrees H q"
    using assms(5)
  proof
    assume a: "\<not> SaveFails E (ticks p) \<and> d = snd (Close E H p)"
    then have f: "indexFile (opened_provider H path d) = Some (GExport H (hnswIndex p))"
      using assms(3) by (simp add: Close_def Let_def disk_of_def save_index_def opened_provider_def)
    obtain g where g: "GLoad H (Some (GExport H (hnswIndex p))) = Some g" "GNodes H g = GNodes H (hnswIndex p)"
      using hnsw_load [OF assms(1)] by blast
    have "hnswIndex q = g" using initHNSWIndex_loaded [OF i np] f g(1) by simp
    then show ?thesis
      using index_agrees_nodes [of H p q] inv same g(2) by (simp add: provider_inv_def)
  next
    assume b: "GLoad H (indexFile p) = None \<and> d = disk_of p"
    then have "GLoad H (indexFile (opened_provider H path d)) = None"
      by (simp add: disk_of_def opened_provider_def)
    from initHNSWIndex_rebuilt [OF assms(1) _ i np this] show ?thesis
      using inv rows by (simp add: provider_inv_def rows_ok_def)
  qed
  then show ?thesis
    using same inv assms(2) events_wf_cong [of q p P] provider_inv_reopen [of H P p q]
    by (simp add: storage_inv_def)
qed

section \<open>Results of searches and batches\<close>

lemma row_result_id: "pb_json_ok P \<Longrightarrow> row_event P r ev \<Longrightarrow> evId (row_result P r) = nId r"
  using row_event_result [of P r ev] by (auto simp: row_event_def stored_form_def simp del: json_txt.simps)

lemma QuerySimilar_results:
  assumes "hnsw_ok H" "pb_json_ok P" "sqlite_ok S" "storage_inv H P p"
    and "case filt of None \<Rightarrow> True | Some fl \<Rightarrow> filter_wf fl"
    and "QuerySimilar E H S emb topK filt p = (Ok rs, q)"
  shows "int (length rs) \<le> topK \<and>
    (\<forall>x \<in> set rs. sound_result H emb p x \<and>
      (\<exists>r \<in> set (Nodes p). \<exists>ev. row_event P r ev \<and> nId r = qrID x \<and> nType r = ''event'' \<and>
        (case filt of None \<Rightarrow> True | Some fl \<Rightarrow> event_matches fl ev)))"
proof -
  have edges: "edges_ok p" and wf: "events_wf P p"
    using assms(4) by (simp_all add: storage_inv_def provider_inv_def)
  have "filter_plain filt" using assms(5) where_plain by (cases filt) (simp_all add: filter_plain_def)
  note Q = QuerySimilar_sound [OF assms(1) edges this assms(6)]
  have "\<exists>r \<in> set (Nodes p). \<exists>ev. row_event P r ev \<and> nId r = qrID x \<and> nType r = ''event'' \<and>
        (case filt of None \<Rightarrow> True | Some fl \<Rightarrow> event_matches fl ev)" if x: "x \<in> set rs" for x
  proof (cases filt)
    case None
    obtain e where "e \<in> set (Edges p)" "eTarget e = qrID x" using Q x by (auto simp: sound_result_def)
    then have "has_node p ''event'' (qrID x)" using edges by (auto simp: edges_ok_def)
    then show ?thesis unfolding None using wf by (simp add: has_node_def events_wf_def) blast
  next
    case (Some fl)
    then obtain ids where f: "findFilteredEventIDs E S fl p = (Ok ids, tick p)" "qrID x \<in> set ids"
      using Q x by (auto simp: eligible_def)
    have "filter_wf fl" using assms(5) Some by simp
    from findFiltered_Ok [OF assms(3,2) wf this f] show ?thesis using Some by auto
  qed
  with Q show ?thesis by blast
qed

lemma BatchGetEvents_events:
  assumes "pb_json_ok P" "events_wf P p" "quiet E (ticks p)"
  shows "\<exists>evs. fst (BatchGetEvents E P ids p) = Ok evs \<and> distinct (map evId evs) \<and>
    set evs = {stored_form P ev | r ev. r \<in> set (Nodes p) \<and> nType r = ''event'' \<and>
      row_event P r ev \<and> nId r \<in> set ids}"
proof -
  let ?rows = "filter (\<lambda>r. nId r \<in> set ids \<and> nType r = ''event'') (Nodes p)"
  obtain evs where run: "fst (BatchGetEvents E P ids p) = Ok evs"
    and ms: "mset evs = image_mset (row_result P) (mset ?rows)"
    using BatchGetEvents_result [OF assms] by blast
  have ev: "\<exists>ev. row_event P r ev" if "r \<in> set ?rows" for r
    using that assms(2) by (auto simp: events_wf_def)
  have "set evs = row_result P ` set ?rows"
    using arg_cong [OF ms, of set_mset] by simp
  also have "\<dots> = {stored_form P ev | r ev. r \<in> set (Nodes p) \<and> nType r = ''event'' \<and>
      row_event P r ev \<and> nId r \<in> set ids}"
    using ev row_event_result [OF assms(1)] by (fastforce simp: image_iff)
  finally have set: "set evs = {stored_form P ev | r ev. r \<in> set (Nodes p) \<and> nType r = ''event'' \<and>
      row_event P r ev \<and> nId r \<in> set ids}" .
  have keys: "map evId (map (row_result P) ?rows) = map nId ?rows"
    using ev row_result_id [OF assms(1)] by auto
  have "distinct (map evId (map (row_result P) ?rows))"
    unfolding keys using assms(2) by (simp add: events_wf_def distinct_map_filter)
  moreover have "mset (map evId evs) = mset (map evId (map (row_result P) ?rows))"
    using ms by (simp del: mset_filter map_map)
  ultimately have "distinct (map evId evs)" using mset_eq_imp_distinct_iff by blast
  with run set show ?thesis by blast
qed

end
