(* ===== verification/Instances.thy ===== *)
theory Instances
  imports SqliteQuery "HOL-Library.AList"
begin

text \<open>
  Concrete instances of the parameters of the storage model, each with a proof that it keeps
  the contract the theorems assume: a graph that is a list of vectors, a protobuf runtime
  that writes a value as its JSON text, a JSON and date evaluator for the filter queries,
  and an environment in which nothing fails. The theorems are applied to them, so their
  hypotheses can hold together.
\<close>

section \<open>A graph library\<close>

text \<open>The saved form: counts in unary, each closed by a zero byte.\<close>

definition put_count :: "nat \<Rightarrow> byte list" where
  "put_count n = replicate n 1 @ [0]"

definition get_count :: "byte list \<Rightarrow> nat \<times> byte list" where
  "get_count bs = (length (takeWhile ((=) 1) bs), drop 1 (dropWhile ((=) 1) bs))"

definition byte_of :: "char \<Rightarrow> byte" where
  "byte_of c = of_nat (of_char c)"

definition put_entry :: "string \<times> f32 list \<Rightarrow> byte list" where
  "put_entry p =
     put_count (length (fst p)) @ map byte_of (fst p) @
     put_count (length (snd p)) @ concat (map PutUint32 (snd p))"

fun get_words :: "nat \<Rightarrow> byte list \<Rightarrow> f32 list" where
  "get_words 0 bs = []"
| "get_words (Suc n) bs = Uint32 bs # get_words n (drop 4 bs)"

fun get_entries :: "nat \<Rightarrow> byte list \<Rightarrow> (string \<times> f32 list) list" where
  "get_entries 0 bs = []"
| "get_entries (Suc n) bs =
     (let (k, bs) = get_count bs; (m, cs) = get_count (drop k bs)
      in (map (\<lambda>b. char_of (unat b)) (take k bs), get_words m cs) # get_entries n (drop (4 * m) cs))"

type_synonym graph = "(string \<times> f32 list) list"

definition list_graph :: "graph hnsw" where
  "list_graph =
     \<lparr>NewGraph = [],
      GAdd = (\<lambda>g k v. Some ((k, v) # filter (\<lambda>p. fst p \<noteq> k) g)),
      GSearch = (\<lambda>g q n. Some (take (nat n) (AList.clearjunk g))),
      GNodes = map_of,
      GExport = (\<lambda>g. put_count (length g) @ concat (map put_entry g)),
      GLoad = (\<lambda>f. case f of None \<Rightarrow> None
        | Some bs \<Rightarrow> (case get_count bs of (n, cs) \<Rightarrow> Some (get_entries n cs))),
      CosineDistance = (\<lambda>a b. if a = b then 0 else f32_one)\<rparr>"

lemma get_put_count [simp]: "get_count (put_count n @ bs) = (n, bs)"
  by (simp add: get_count_def put_count_def takeWhile_append dropWhile_append)

lemma char_of_byte_of [simp]: "char_of (unat (byte_of c)) = c"
  by (simp add: byte_of_def unsigned_of_nat char_of_take_bit_eq)

lemma chars_of_bytes [simp]: "map ((\<lambda>b. char_of (unat b)) \<circ> byte_of) s = s"
  by (rule map_idI) simp

lemma get_put_words: "get_words (length v) (concat (map PutUint32 v) @ bs) = v"
  by (induction v) simp_all

lemma get_put_entries: "get_entries (length g) (concat (map put_entry g)) = g"
proof (induction g)
  case (Cons p g)
  have "drop (4 * length (snd p)) (concat (map PutUint32 (snd p)) @ bs) = bs" for bs
    using length_concat_Put [of "snd p"] by simp
  with Cons show ?case
    by (simp add: put_entry_def get_put_words comp_def del: append_assoc) (simp add: get_put_words)
qed simp

lemma list_graph_ok: "hnsw_ok list_graph"
proof -
  have add: "map_of ((k, v) # filter (\<lambda>p. fst p \<noteq> k) g) = (map_of g)(k \<mapsto> v)"
    for k :: string and v :: "f32 list" and g
    using map_of_gm_del [of k g] by (simp add: gm_del_def)
  have search: "map_of g k = Some v" if "(k, v) \<in> set (take n (AList.clearjunk g))"
    for g k n and v :: "f32 list"
  proof -
    have "(k, v) \<in> set (AList.clearjunk g)" using that by (rule in_set_takeD)
    then have "map_of (AList.clearjunk g) k = Some v" using distinct_clearjunk by (rule map_of_is_SomeI [rotated])
    then show ?thesis by (simp add: map_of_clearjunk)
  qed
  have dist: "distinct (map fst (take n (AList.clearjunk g)))" for n and g :: graph
    using distinct_clearjunk [of g] by (simp add: take_map [symmetric] distinct_take)
  show ?thesis
    unfolding hnsw_ok_def
    using add search dist by (auto simp: list_graph_def get_put_entries)
qed

section \<open>A protobuf runtime\<close>

definition value_url :: string where
  "value_url = ''type.googleapis.com/google.protobuf.Value''"

definition chars_of :: "byte list \<Rightarrow> string" where
  "chars_of bs = map (\<lambda>b. char_of (unat b)) bs"

definition text_pb :: pb where
  "text_pb =
     \<lparr>MessageIsValue = (\<lambda>a. TypeUrl a = value_url),
      ValueOfAny = (\<lambda>a. let s = chars_of (AnyBytes a)
        in case pv (length s + 1) s of
             Some (v, []) \<Rightarrow> if json_ok v then Some v else None
           | _ \<Rightarrow> None),
      AnyOfValue = (\<lambda>v. if json_ok v
        then Some \<lparr>TypeUrl = value_url, AnyBytes = map byte_of (json_txt v)\<rparr> else None)\<rparr>"

lemma chars_of_byte_of [simp]: "chars_of (map byte_of s) = s"
  by (simp add: chars_of_def)

lemma text_pb_reads:
  assumes "json_ok v"
  shows "ValueOfAny text_pb \<lparr>TypeUrl = u, AnyBytes = map byte_of (json_txt v)\<rparr> = Some v"
proof -
  have "pv (length (json_txt v) + 1) (json_txt v) = Some (v, [])"
    using assms json_reads_back [of v "length (json_txt v) + 1" "[]"] by (simp add: json_ok_def del: pv.simps)
  then show ?thesis using assms by (simp add: text_pb_def del: pv.simps)
qed

lemma text_pb_ok: "pb_json_ok text_pb"
proof -
  have "json_ok v" if "ValueOfAny text_pb a = Some v" for a v
    using that by (auto simp: text_pb_def Let_def split: option.splits prod.splits list.splits if_splits)
  moreover have "pb_ok text_pb"
    unfolding pb_ok_def
  proof (intro allI impI)
    fix v a assume "AnyOfValue text_pb v = Some a"
    then have "json_ok v" "a = \<lparr>TypeUrl = value_url, AnyBytes = map byte_of (json_txt v)\<rparr>"
      by (auto simp: text_pb_def split: if_splits)
    then show "MessageIsValue text_pb a \<and> ValueOfAny text_pb a = Some v"
      using text_pb_reads [of v value_url] by (simp add: text_pb_def)
  qed
  ultimately show ?thesis by (simp add: pb_json_ok_def)
qed

section \<open>JSON and date functions of the database\<close>

definition member_extract :: "cell \<Rightarrow> string \<Rightarrow> sqlval" where
  "member_extract c path =
     (case c of
        CText s \<Rightarrow>
          (case json_unmarshal_map s of
             Some m \<Rightarrow>
               (case map_of m (drop 2 path) of
                  Some (GStr t) \<Rightarrow> VText t
                | Some (GArr vs) \<Rightarrow> VText (json_txt (GArr vs))
                | Some (GObj n) \<Rightarrow> VText (json_txt (GObj n))
                | Some (GNum x) \<Rightarrow> VReal x
                | Some (GBool b) \<Rightarrow> VInt (if b then 1 else 0)
                | _ \<Rightarrow> VNull)
           | None \<Rightarrow> VNull)
      | _ \<Rightarrow> VNull)"

text \<open>Instants as texts of a length that grows with the instant.\<close>

definition unary_time :: "sqlval \<Rightarrow> sqlval" where
  "unary_time v =
     (case v of
        VText s \<Rightarrow>
          (case parse_rfc3339 s of
             Some t \<Rightarrow> VText (replicate (nat (tsSeconds t + 62135596800)) (CHR ''0''))
           | None \<Rightarrow> VNull)
      | _ \<Rightarrow> VNull)"

definition json_sqlite :: sqlite where
  "json_sqlite =
     \<lparr>jsonExtract = (\<lambda>c path. if take 12 path = ''$.attributes'' then VNull else member_extract c path),
      dateTime = unary_time, injectedQuery = (\<lambda>q args tables. None)\<rparr>"

lemma replicate_le: "replicate a c \<le> replicate b c \<longleftrightarrow> a \<le> b" for c :: char
proof (induction a arbitrary: b)
  case (Suc a)
  then show ?case by (cases b) simp_all
qed simp

lemma json_sqlite_ok: "sqlite_ok json_sqlite"
proof -
  have keys: "take 12 (member_path k) \<noteq> ''$.attributes''" if "k \<in> filter_keys" for k
    using that by (auto simp: filter_keys_def member_path_def)
  have "(map_of m k = None \<longrightarrow> jsonExtract json_sqlite (CText (json_txt (GObj m))) (member_path k) = VNull) \<and>
      (\<forall>s. map_of m k = Some (GStr s) \<longrightarrow>
        jsonExtract json_sqlite (CText (json_txt (GObj m))) (member_path k) = VText s)"
    if "json_ok (GObj m)" "k \<in> filter_keys" for m k
    using that keys [OF that(2)] json_map_roundtrip [of m]
    by (auto simp: json_sqlite_def member_extract_def member_path_def json_ok_def simp del: json_txt.simps)
  moreover have "jsonExtract json_sqlite c (attribute_path k) = VNull" for c k
    by (simp add: json_sqlite_def attribute_path_def)
  moreover have "\<exists>x y. dateTime json_sqlite (VText (format_rfc3339 a)) = VText x \<and>
      dateTime json_sqlite (VText (format_rfc3339 b)) = VText y \<and> (x \<le> y \<longleftrightarrow> tsSeconds a \<le> tsSeconds b)"
    if "ts_valid a" "ts_valid b" for a b
  proof -
    have "0 \<le> tsSeconds a + 62135596800" "0 \<le> tsSeconds b + 62135596800"
      using that by (simp_all add: ts_valid_def)
    then have "nat (tsSeconds a + 62135596800) \<le> nat (tsSeconds b + 62135596800) \<longleftrightarrow>
        tsSeconds a \<le> tsSeconds b" by (simp add: nat_le_eq_zle)
    then show ?thesis
      using that by (simp add: json_sqlite_def unary_time_def replicate_le parse_format_rfc3339)
  qed
  moreover have "dateTime json_sqlite VNull = VNull" by (simp add: json_sqlite_def unary_time_def)
  ultimately show ?thesis unfolding sqlite_ok_def by blast
qed

section \<open>An environment\<close>

definition calm_env :: env where
  "calm_env =
     \<lparr>UnixNano = int, CurrentTimestamp = int, StmtFails = (\<lambda>n. False), RowsBreak = (\<lambda>n. None),
      RowRank = (\<lambda>n k. 0), SaveFails = (\<lambda>n. False)\<rparr>"

lemma calm_quiet [simp]: "quiet calm_env n"
  by (simp add: quiet_def calm_env_def rows_err_def)

end
