(* ===== verification/SampleStore.thy ===== *)
theory SampleStore
  imports SqliteProvider Instances
begin

text \<open>
  A sample database on the concrete instances, for the witnesses: a new database
  \<open>sample_start\<close>, and \<open>sample_stored\<close> after one event with a one-dimensional embedding was
  stored in it.
\<close>

section \<open>A sample database\<close>

definition sample_event :: event where
  "sample_event = empty_event\<lparr>evId := ''e1'', evType := ''note'', evUserId := ''ann''\<rparr>"

definition sample_start :: "graph provider" where
  "sample_start =
     \<lparr>Nodes = [], Edges = [], hnswIndex = [], indexPath = ''a.hnsw'', indexFile = None, ticks = 5\<rparr>"

definition sample_stored :: "graph provider" where
  "sample_stored = snd (StoreEvent calm_env list_graph text_pb sample_event [f32_one] sample_start)"

lemma sample_opened: "fst (NewProvider calm_env list_graph None ''a.db'' empty_disk) = Ok sample_start"
  by code_simp

lemma sample_store_ok: "fst (StoreEvent calm_env list_graph text_pb sample_event [f32_one] sample_start) = Ok ()"
  by code_simp

lemma sample_store:
  "StoreEvent calm_env list_graph text_pb sample_event [f32_one] sample_start = (Ok (), sample_stored)"
  using sample_store_ok by (simp add: sample_stored_def prod_eq_iff)

lemma sample_event_wf: "event_wf sample_event"
  by code_simp

lemma sample_start_inv: "storage_inv list_graph text_pb sample_start"
proof -
  obtain d where "NewProvider calm_env list_graph None ''a.db'' empty_disk = (Ok sample_start, d)"
    using sample_opened by (metis prod.collapse)
  then show ?thesis by (rule fresh_provider_inv [OF list_graph_ok])
qed

lemma sample_step: "provider_step calm_env list_graph text_pb json_sqlite sample_start sample_stored"
  by (rule provider_step.store [OF sample_store _ sample_event_wf]) simp

lemma sample_run: "(provider_step calm_env list_graph text_pb json_sqlite)\<^sup>*\<^sup>* sample_start sample_stored"
  using sample_step by (rule r_into_rtranclp)

lemma sample_stored_inv: "storage_inv list_graph text_pb sample_stored"
  by (rule provider_step_inv [OF list_graph_ok sample_start_inv sample_step])

lemma sample_nodes: "map nId (Nodes sample_stored) = [''e1'', ''vec_6_1'']"
  by code_simp

lemma sample_index: "hnswIndex sample_stored = [(''vec_6_1'', [f32_one])]"
  by code_simp

lemma sample_edges:
  "Edges sample_stored = [\<lparr>eId = ''edge_vec_6_1_e1_8'', eSource = ''vec_6_1'', eTarget = ''e1'',
     eLabel = ''embedding_of'', eCreated = 9\<rparr>]"
  by code_simp

section \<open>A search\<close>

definition ann_filter :: query_filter where
  "ann_filter = \<lparr>flUserID = Some ''ann'', flSessionID = None, flEventTypes = [''note''],
     flTimeFrom = None, flTimeTo = None, flAttributes = []\<rparr>"

lemma ann_filter_wf: "filter_wf ann_filter"
  by (simp add: filter_wf_def ann_filter_def)

lemma sample_filtered: "fst (findFilteredEventIDs calm_env json_sqlite ann_filter sample_stored) = Ok [''e1'']"
  by code_simp

lemma sample_search:
  "\<exists>q. QuerySimilar calm_env list_graph json_sqlite [f32_one] 3 (Some ann_filter) sample_stored =
    (Ok [\<lparr>qrID = ''e1'', qrScore = score_of list_graph [f32_one] [f32_one]\<rparr>], q)"
proof -
  have f: "findFilteredEventIDs calm_env json_sqlite ann_filter sample_stored = (Ok [''e1''], tick sample_stored)"
    using sample_filtered findFiltered_tick [OF where_plain [OF ann_filter_wf]] by (metis prod.collapse)
  have "search_eligible calm_env list_graph [f32_one] 3 [''e1''] (tick sample_stored) =
      (Ok [(''vec_6_1'', [f32_one])], tick (tick sample_stored))"
    by (simp add: search_eligible_def calm_env_def seen_rows_def delivered_def linked_edges_def sample_edges
        sample_index list_graph_def)
  moreover have "results_of calm_env list_graph [f32_one] [(''vec_6_1'', [f32_one])] (tick (tick sample_stored)) =
      (Ok [\<lparr>qrID = ''e1'', qrScore = score_of list_graph [f32_one] [f32_one]\<rparr>],
       tick (tick (tick sample_stored)))"
    by (simp add: results_of_def calm_env_def seen_rows_def delivered_def linked_edges_def sample_edges
        score_map_def gm_of_def)
  ultimately show ?thesis by (simp add: QuerySimilar_def f)
qed

end
