(* ===== verification/StorageProperties.thy ===== *)
theory StorageProperties
  imports SampleStore
begin

text \<open>
  The properties of the storage provider that span its operations, each with a witness on the
  sample database.
\<close>

section \<open>Properties\<close>

text \<open>
  C3: whatever calls of the storage interface are made on a new database, and however their
  statements fail, as long as none panics: node and edge ids stay unique, every edge links
  one vector node to one event node and no vector has two edges, every event row holds a
  readable event, and the graph index holds exactly the vectors of the vector rows.
\<close>

theorem storage_stays_consistent:
  assumes "hnsw_ok H" "NewProvider E H None path empty_disk = (Ok p, d)"
    and "(provider_step E H P S)\<^sup>*\<^sup>* p q"
  shows "distinct (map nId (Nodes q)) \<and> edges_ok q \<and> events_wf P q \<and> index_agrees H q"
  using storage_run_inv [OF assms(3,1) fresh_provider_inv [OF assms(1,2)]]
  by (simp add: storage_inv_def provider_inv_def rows_ok_def)

theorem storage_stays_consistent_witness:
  "\<exists>d. NewProvider calm_env list_graph None ''a.db'' empty_disk = (Ok sample_start, d) \<and>
    (provider_step calm_env list_graph text_pb json_sqlite)\<^sup>*\<^sup>* sample_start sample_stored \<and>
    map nId (Nodes sample_stored) = [''e1'', ''vec_6_1''] \<and>
    edges_ok sample_stored \<and> index_agrees list_graph sample_stored"
proof -
  obtain d where q: "NewProvider calm_env list_graph None ''a.db'' empty_disk = (Ok sample_start, d)"
    using sample_opened by (metis prod.collapse)
  show ?thesis
    using storage_stays_consistent [OF list_graph_ok q sample_run] sample_run sample_nodes q
    by (intro exI [of _ d]) simp
qed

text \<open>
  C4: an event stored without error can be read for ever: after any further calls,
  \<open>GetEventByID\<close> of its id gives the event back, with its time cut to the second, without its
  attributes, content type and schema, and with data that is no \<open>Value\<close> replaced by the
  object that names its type.
\<close>

theorem stored_event_is_read:
  assumes "hnsw_ok H" "pb_json_ok P" "storage_inv H P p" "event_wf ev"
    and "StoreEvent E H P ev emb p = (Ok u, q)" "(provider_step E H P S)\<^sup>*\<^sup>* q r"
    and "\<not> StmtFails E (ticks r)"
  shows "fst (GetEventByID E P (evId ev) r) = Ok (stored_form P ev)"
  by (rule sq.stored_then_read [OF _ assms(5,4,6,7)]) (use assms(1-3) in simp)

theorem stored_event_is_read_witness:
  "fst (GetEventByID calm_env text_pb ''e1'' sample_stored) =
    Ok (empty_event\<lparr>evId := ''e1'', evType := ''note'', evUserId := ''ann''\<rparr>)"
  using stored_event_is_read [OF list_graph_ok text_pb_ok sample_start_inv sample_event_wf sample_store
      rtranclp.rtrancl_refl [of "provider_step calm_env list_graph text_pb json_sqlite"]]
  by (simp add: calm_env_def sample_event_def stored_form_def empty_event_def)

text \<open>
  C28: the index survives a restart: after an orderly close whose save succeeds, or when the
  index file cannot be loaded and the index is rebuilt from the vector rows, the reopened
  provider holds the same rows and an index with exactly their vectors.
\<close>

theorem restart_restores_index:
  assumes "hnsw_ok H" "storage_inv H P p" "\<not> no_index_file (indexPath p)" "index_path_of path = indexPath p"
    and "(\<not> SaveFails E (ticks p) \<and> d = snd (Close E H p)) \<or> (GLoad H (indexFile p) = None \<and> d = disk_of p)"
    and "NewProvider E' H None path d = (Ok q, d')"
  shows "Nodes q = Nodes p \<and> Edges q = Edges p \<and> storage_inv H P q"
  by (rule reopened_index [OF assms])

lemma sample_reopens:
  "case fst (NewProvider calm_env list_graph None ''a.db'' (snd (Close calm_env list_graph sample_stored))) of
     Ok q \<Rightarrow> True | _ \<Rightarrow> False"
  by code_simp

theorem restart_restores_index_witness:
  "\<exists>q d. NewProvider calm_env list_graph None ''a.db'' (snd (Close calm_env list_graph sample_stored)) = (Ok q, d) \<and>
    map nId (Nodes q) = [''e1'', ''vec_6_1''] \<and> storage_inv list_graph text_pb q"
proof -
  obtain q d where q: "NewProvider calm_env list_graph None ''a.db''
      (snd (Close calm_env list_graph sample_stored)) = (Ok q, d)"
    using sample_reopens by (auto split: res.splits) (metis prod.collapse)
  have "\<not> no_index_file (indexPath sample_stored)" "index_path_of ''a.db'' = indexPath sample_stored"
    by code_simp+
  moreover have "\<not> SaveFails calm_env (ticks sample_stored) \<and>
      snd (Close calm_env list_graph sample_stored) = snd (Close calm_env list_graph sample_stored)"
    by (simp add: calm_env_def)
  ultimately have "Nodes q = Nodes sample_stored \<and> storage_inv list_graph text_pb q"
    using restart_restores_index [OF list_graph_ok sample_stored_inv _ _ disjI1 q] by blast
  then show ?thesis using q sample_nodes by auto
qed

text \<open>
  A saved index that is out of date is trusted: when the file at the index path loads, the
  database is not consulted, so after a crash (the file is only written on close and after a
  rebuild) a vector stored since the last save is in the tables but no longer found by any
  search.
\<close>

theorem stale_index_hides_vectors:
  assumes "hnsw_ok H" "NewProvider E H None path d = (Ok q, d')" "\<not> no_index_file (index_path_of path)"
    and "GLoad H (dFile d) = Some g" "GNodes H g k = None" "dNodes d = Some ns"
    and "r \<in> set ns" "nId r = k" "nType r = ''vector''" "row_vector r = Some v"
  shows "r \<in> set (Nodes q) \<and> \<not> index_agrees H q \<and>
    (\<forall>emb n nds. GSearch H (hnswIndex q) emb n = Some nds \<longrightarrow> k \<notin> fst ` set nds)"
proof -
  note i = NewProvider_Ok [OF assms(2)]
  have g: "hnswIndex q = g"
    using initHNSWIndex_loaded [OF i, of g] assms(3,4) by (simp add: opened_provider_def)
  have row: "r \<in> set (Nodes q)"
    using initHNSWIndex_tables [OF i] assms(6,7) by (simp add: opened_provider_def)
  have "\<not> index_agrees H q"
  proof
    assume "index_agrees H q"
    then have "GNodes H g k = Some v"
      unfolding index_agrees_def g using row_vector_nonempty [OF assms(10)] row assms(8-10) by blast
    then show False using assms(5) by simp
  qed
  moreover have "k \<notin> fst ` set nds" if "GSearch H (hnswIndex q) emb n = Some nds" for emb n nds
  proof
    assume "k \<in> fst ` set nds"
    then obtain w where "(k, w) \<in> set nds" by auto
    then show False using hnsw_search_nodes [OF assms(1) that] assms(5) by (simp add: g)
  qed
  ultimately show ?thesis using row by blast
qed

definition stale_disk :: disk where
  "stale_disk = (disk_of sample_stored)\<lparr>dFile := Some (GExport list_graph [])\<rparr>"

lemma stale_opens:
  "case fst (NewProvider calm_env list_graph None ''a.db'' stale_disk) of Ok q \<Rightarrow> True | _ \<Rightarrow> False"
  by code_simp

theorem stale_index_hides_vectors_example:
  "\<exists>q d. NewProvider calm_env list_graph None ''a.db'' stale_disk = (Ok q, d) \<and>
    \<not> index_agrees list_graph q \<and>
    (\<forall>emb n nds. GSearch list_graph (hnswIndex q) emb n = Some nds \<longrightarrow> ''vec_6_1'' \<notin> fst ` set nds)"
proof -
  obtain q d where q: "NewProvider calm_env list_graph None ''a.db'' stale_disk = (Ok q, d)"
    using stale_opens by (auto split: res.splits) (metis prod.collapse)
  let ?r = "Nodes sample_stored ! 1"
  have path: "\<not> no_index_file (index_path_of ''a.db'')" by code_simp
  have load: "GLoad list_graph (dFile stale_disk) = Some []" by code_simp
  have none: "GNodes list_graph [] ''vec_6_1'' = None" by code_simp
  have rows: "dNodes stale_disk = Some (Nodes sample_stored)" by (simp add: stale_disk_def disk_of_def)
  have row: "nId ?r = ''vec_6_1'' \<and> nType ?r = ''vector'' \<and> row_vector ?r = Some [f32_one]" by code_simp
  have "length (Nodes sample_stored) = 2" using arg_cong [OF sample_nodes, of length] by simp
  then have mem: "?r \<in> set (Nodes sample_stored)" by simp
  from stale_index_hides_vectors [OF list_graph_ok q path load none rows mem] row q show ?thesis by blast
qed

text \<open>
  C7: a search returns at most \<open>topK\<close> results; each is an event that a stored vector is linked
  to, with one minus the cosine distance of that vector as its score; and under a filter
  each is an event that satisfies it, so a search restricted to a user never shows another
  user's event. (Attribute keys that hold a quote character are excluded: they would change
  the statement.)
\<close>

theorem search_results:
  assumes "hnsw_ok H" "pb_json_ok P" "sqlite_ok S" "storage_inv H P p"
    and "case filt of None \<Rightarrow> True | Some fl \<Rightarrow> filter_wf fl"
    and "QuerySimilar E H S emb topK filt p = (Ok rs, q)"
  shows "int (length rs) \<le> topK \<and>
    (\<forall>x \<in> set rs. sound_result H emb p x \<and>
      (\<exists>r \<in> set (Nodes p). \<exists>ev. row_event P r ev \<and> nId r = qrID x \<and> nType r = ''event'' \<and>
        (case filt of None \<Rightarrow> True | Some fl \<Rightarrow> event_matches fl ev)))"
  using assms by (rule QuerySimilar_results)

theorem search_results_witness:
  "\<exists>rs q. QuerySimilar calm_env list_graph json_sqlite [f32_one] 3 (Some ann_filter) sample_stored = (Ok rs, q) \<and>
    map qrID rs = [''e1''] \<and> int (length rs) \<le> 3 \<and>
    (\<forall>x \<in> set rs. sound_result list_graph [f32_one] sample_stored x)"
proof -
  obtain q where q: "QuerySimilar calm_env list_graph json_sqlite [f32_one] 3 (Some ann_filter) sample_stored =
    (Ok [\<lparr>qrID = ''e1'', qrScore = score_of list_graph [f32_one] [f32_one]\<rparr>], q)"
    using sample_search by blast
  from search_results [OF list_graph_ok text_pb_ok json_sqlite_ok sample_stored_inv _ q] ann_filter_wf q
  show ?thesis by auto
qed

text \<open>
  C16: \<open>findFilteredEventIDs\<close> selects exactly the events that satisfy the filter: same user,
  same session, one of the types, and a time between the bounds to the second. An empty
  user or session id selects nothing, events without a time satisfy no time bound, and no
  event satisfies an attribute filter.
\<close>

theorem filter_selects_exactly:
  assumes "sqlite_ok S" "pb_json_ok P" "events_wf P p" "filter_wf fl" "quiet E (ticks p)"
  shows "\<exists>ids. findFilteredEventIDs E S fl p = (Ok ids, tick p) \<and> distinct ids \<and>
    (\<forall>r \<in> set (Nodes p). \<forall>ev. nType r = ''event'' \<longrightarrow> row_event P r ev \<longrightarrow>
      (nId r \<in> set ids \<longleftrightarrow> event_matches fl ev))"
proof -
  let ?sel = "filter (matches_filter S (where_conditions fl)) (Nodes p)"
  let ?ids = "remdups (map nId (delivered E (ticks p) nId ?sel))"
  have run: "findFilteredEventIDs E S fl p = (Ok ?ids, tick p)"
    using assms(5) where_plain [OF assms(4)]
    by (simp add: findFilteredEventIDs_def Let_def quiet_def)
  have "nId r \<in> set ?ids \<longleftrightarrow> event_matches fl ev"
    if "r \<in> set (Nodes p)" "nType r = ''event''" "row_event P r ev" for r ev
  proof -
    have "r' = r" if "r' \<in> set (Nodes p)" "nId r' = nId r" for r'
      using that \<open>r \<in> set (Nodes p)\<close> assms(3) by (auto simp: events_wf_def distinct_map inj_on_def)
    then have "nId r \<in> set ?ids \<longleftrightarrow> matches_filter S (where_conditions fl) r"
      using that(1) by auto
    then show ?thesis using matches_filter_iff [OF assms(1,2) that(3,2) assms(4)] by simp
  qed
  then show ?thesis using run by (intro exI [of _ ?ids]) auto
qed

theorem filter_selects_exactly_witness:
  "\<exists>ids. findFilteredEventIDs calm_env json_sqlite ann_filter sample_stored = (Ok ids, tick sample_stored) \<and>
    (\<forall>r \<in> set (Nodes sample_stored). \<forall>ev. nType r = ''event'' \<longrightarrow> row_event text_pb r ev \<longrightarrow>
      (nId r \<in> set ids \<longleftrightarrow> event_matches ann_filter ev))"
  using filter_selects_exactly [OF json_sqlite_ok text_pb_ok _ ann_filter_wf calm_quiet, of sample_stored]
    sample_stored_inv
  by (auto simp: storage_inv_def)

text \<open>
  C40: the attributes of an event are not part of what \<open>StoreEvent\<close> writes, so a search with
  an attribute filter finds nothing, whatever was stored.
\<close>

theorem attribute_filter_finds_nothing:
  assumes "hnsw_ok H" "pb_json_ok P" "sqlite_ok S" "storage_inv H P p" "filter_wf fl" "flAttributes fl \<noteq> []"
    and "QuerySimilar E H S emb topK (Some fl) p = (Ok rs, q)"
  shows "rs = []"
proof (rule ccontr)
  have edges: "edges_ok p" and wf: "events_wf P p"
    using assms(4) by (simp_all add: storage_inv_def provider_inv_def)
  have plain: "filter_plain (Some fl)" using where_plain [OF assms(5)] by (simp add: filter_plain_def)
  assume "rs \<noteq> []"
  then obtain x where "x \<in> set rs" by (cases rs) auto
  then obtain ids where f: "findFilteredEventIDs E S fl p = (Ok ids, tick p)" "qrID x \<in> set ids"
    using QuerySimilar_sound [OF assms(1) edges plain assms(7)] by (auto simp: eligible_def)
  from findFiltered_Ok [OF assms(3,2) wf assms(5) f] show False
    using assms(6) by (auto simp: event_matches_def)
qed

definition topic_filter :: query_filter where
  "topic_filter = \<lparr>flUserID = None, flSessionID = None, flEventTypes = [],
     flTimeFrom = None, flTimeTo = None, flAttributes = [(''topic'', ''go'')]\<rparr>"

lemma topic_search_ok:
  "case fst (QuerySimilar calm_env list_graph json_sqlite [f32_one] 3 (Some topic_filter) sample_stored) of
     Ok rs \<Rightarrow> True | _ \<Rightarrow> False"
  by code_simp

theorem attribute_filter_finds_nothing_witness:
  "\<exists>q. QuerySimilar calm_env list_graph json_sqlite [f32_one] 3 (Some topic_filter) sample_stored = (Ok [], q)"
proof -
  obtain rs q where q: "QuerySimilar calm_env list_graph json_sqlite [f32_one] 3 (Some topic_filter) sample_stored =
      (Ok rs, q)"
    using topic_search_ok by (auto split: res.splits) (metis prod.collapse)
  have "filter_wf topic_filter" "flAttributes topic_filter \<noteq> []"
    by (simp_all add: filter_wf_def topic_filter_def)
  from attribute_filter_finds_nothing [OF list_graph_ok text_pb_ok json_sqlite_ok sample_stored_inv this q] q
  show ?thesis by blast
qed

text \<open>
  \<open>StoreEvent\<close> runs no transaction: when the event row is written and the embedding then
  fails, the call reports an error, yet the event is stored and readable, and the obvious
  retry is rejected because the id is taken.
\<close>

theorem failed_store_keeps_event:
  assumes "hnsw_ok H" "pb_json_ok P" "event_wf ev" "provider_inv H P p"
    and "StoreEvent E H P ev emb p = (Fail (Wrap s e), q)" "s \<noteq> ''failed to store event node''"
    and "\<not> StmtFails E (ticks q)"
  shows "fst (GetEventByID E P (evId ev) q) = Ok (stored_form P ev) \<and>
    fst (StoreEvent E H P ev emb q) = Fail (Wrap ''failed to store event node'' UniqueViolation)"
proof -
  note enc = encode_event_decodes(1) [OF assms(2,3)]
  obtain x p1 where i: "insert_node E (evId ev) ''event'' (CText (json_txt (GObj (event_map P ev)))) p = (x, p1)"
    by fastforce
  have x: "x = None" using assms(5,6) i enc by (cases x) (auto simp: StoreEvent_def)
  note I = insert_node_None [OF i [unfolded x]]
  have run: "link_embedding E H (evId ev) emb p1 = (Fail (Wrap s e), q)"
    using assms(5) i x enc by (auto simp: StoreEvent_def split: if_splits)
  have held: "holds_event P q ev"
    by (rule holds_event_grows [OF link_embedding_grows [OF run]])
      (use I in \<open>auto simp: holds_event_def is_event_def\<close>)
  have "provider_inv H P q" by (rule StoreEvent_inv [OF assms(1,4,5)]) simp
  then have dist: "distinct (map nId (Nodes q))" by (rule provider_inv_distinct)
  have "evId ev \<in> nId ` set (Nodes q)" using held unfolding holds_event_def is_event_def by (metis imageI)
  then have "fst (StoreEvent E H P ev emb q) = Fail (Wrap ''failed to store event node'' UniqueViolation)"
    using assms(7) enc by (simp add: StoreEvent_def insert_node_def)
  then show ?thesis using GetEventByID_holds [OF assms(2,3) dist held assms(7)] by blast
qed

definition flaky_env :: env where
  "flaky_env = calm_env\<lparr>StmtFails := (\<lambda>n. n = 7)\<rparr>"

lemma flaky_store:
  "fst (StoreEvent flaky_env list_graph text_pb sample_event [f32_one] sample_start) =
    Fail (Wrap ''failed to store vector'' (Wrap ''failed to store vector node'' DriverError))"
  "ticks (snd (StoreEvent flaky_env list_graph text_pb sample_event [f32_one] sample_start)) = 8"
  by code_simp+

theorem failed_store_keeps_event_example:
  "fst (GetEventByID flaky_env text_pb ''e1''
      (snd (StoreEvent flaky_env list_graph text_pb sample_event [f32_one] sample_start))) =
    Ok (stored_form text_pb sample_event)"
proof -
  have "StoreEvent flaky_env list_graph text_pb sample_event [f32_one] sample_start =
    (Fail (Wrap ''failed to store vector'' (Wrap ''failed to store vector node'' DriverError)),
     snd (StoreEvent flaky_env list_graph text_pb sample_event [f32_one] sample_start))"
    using flaky_store(1) by (metis prod.collapse)
  from failed_store_keeps_event [OF list_graph_ok text_pb_ok sample_event_wf _ this] flaky_store(2) sample_start_inv
  show ?thesis by (simp add: storage_inv_def flaky_env_def sample_event_def)
qed

text \<open>
  C31: \<open>BatchGetEvents\<close> returns each stored event whose id is asked for exactly once (ids that
  are asked for twice or are not stored make no difference), each in the form
  \<open>GetEventByID\<close> gives.
\<close>

theorem batch_returns_each_once:
  assumes "pb_json_ok P" "events_wf P p" "quiet E (ticks p)"
  shows "\<exists>evs. fst (BatchGetEvents E P ids p) = Ok evs \<and> distinct (map evId evs) \<and>
    set evs = {stored_form P ev | r ev. r \<in> set (Nodes p) \<and> nType r = ''event'' \<and>
      row_event P r ev \<and> nId r \<in> set ids}"
  using assms by (rule BatchGetEvents_events)

theorem batch_returns_each_once_witness:
  "\<exists>evs. fst (BatchGetEvents calm_env text_pb [''e1'', ''e1'', ''x''] sample_stored) = Ok evs \<and>
    distinct (map evId evs)"
  using batch_returns_each_once [OF text_pb_ok _ calm_quiet, of sample_stored "[''e1'', ''e1'', ''x'']"]
    sample_stored_inv
  by (auto simp: storage_inv_def)

text \<open>A reader that asks for one page after the other.\<close>

fun read_pages :: "env \<Rightarrow> pb \<Rightarrow> nat \<Rightarrow> nat \<Rightarrow> nat \<Rightarrow> 'g provider \<Rightarrow> event list res" where
  "read_pages E P 0 sz start p = Ok []"
| "read_pages E P (Suc n) sz start p =
     (case GetAllEvents E P (int start) (int sz) p of
        (Ok evs, q) \<Rightarrow> (case read_pages E P n sz (start + sz) q of Ok later \<Rightarrow> Ok (evs @ later) | r \<Rightarrow> r)
      | (r, q) \<Rightarrow> r)"

lemma read_pages_result:
  assumes "pb_json_ok P" "\<forall>n. quiet E n" "\<forall>n. RowRank E n = rk"
  shows "events_wf P p \<Longrightarrow> read_pages E P n sz start p =
    Ok (map (row_result P) (pages n sz start (event_rows_by_age E (ticks p) p)))"
proof (induction n arbitrary: p start)
  case (Suc n)
  have g: "GetAllEvents E P (int start) (int sz) p =
      (Ok (map (row_result P) (sql_page (int start) (int sz) (event_rows_by_age E (ticks p) p))), tick p)"
    using GetAllEvents_result [OF assms(1) Suc.prems(1), of E "int sz" "int start"] assms(2)
    by (simp add: GetAllEvents_def quiet_def)
  have "event_rows_by_age E (ticks (tick p)) (tick p) = event_rows_by_age E (ticks p) p"
    by (simp add: event_rows_by_age_def delivered_def assms(3))
  moreover have "events_wf P (tick p)" using Suc.prems(1) by (simp add: events_wf_def)
  ultimately show ?case
    using g Suc.IH [of "tick p" "start + sz"] by simp
qed simp

text \<open>
  C32: reading page after page with \<open>GetAllEvents\<close> until the pages cover the table gives every
  stored event exactly once, oldest first. Events of the same second have no defined order,
  so this needs the database to break ties the same way on each call.
\<close>

theorem pages_cover_all_events:
  assumes "pb_json_ok P" "events_wf P p" "\<forall>n. quiet E n" "\<forall>n. RowRank E n = RowRank E (ticks p)"
    and "length (Nodes p) \<le> n * sz"
  shows "\<exists>evs rows. read_pages E P n sz 0 p = Ok evs \<and> sorted (map nCreated rows) \<and>
    mset rows = mset (filter (\<lambda>r. nType r = ''event'') (Nodes p)) \<and>
    list_all2 (\<lambda>r e. \<exists>ev. row_event P r ev \<and> e = stored_form P ev) rows evs"
proof -
  let ?rows = "event_rows_by_age E (ticks p) p"
  have "length ?rows \<le> length (Nodes p)" by (simp add: event_rows_by_age_def delivered_def)
  then have "pages n sz 0 ?rows = ?rows" using assms(5) by (simp add: pages_take)
  then have run: "read_pages E P n sz 0 p = Ok (map (row_result P) ?rows)"
    using read_pages_result [OF assms(1,3,4,2), of n sz 0] by simp
  have "\<exists>ev. row_event P r ev" if "r \<in> set ?rows" for r
    using that assms(2) by (auto simp: events_wf_def)
  then have "list_all2 (\<lambda>r e. \<exists>ev. row_event P r ev \<and> e = stored_form P ev) ?rows (map (row_result P) ?rows)"
    unfolding list_all2_map2 using row_event_result [OF assms(1)]
    by (intro list.rel_refl_strong) blast
  moreover have "mset ?rows = mset (filter (\<lambda>r. nType r = ''event'') (Nodes p))"
    by (simp add: event_rows_by_age_def)
  moreover have "sorted (map nCreated ?rows)" by (simp add: event_rows_by_age_def)
  ultimately show ?thesis using run by blast
qed

theorem pages_cover_all_events_witness:
  "\<exists>evs rows. read_pages calm_env text_pb 2 1 0 sample_stored = Ok evs \<and>
    mset rows = mset (filter (\<lambda>r. nType r = ''event'') (Nodes sample_stored)) \<and>
    list_all2 (\<lambda>r e. \<exists>ev. row_event text_pb r ev \<and> e = stored_form text_pb ev) rows evs"
proof -
  have "\<forall>n. quiet calm_env n" "\<forall>n. RowRank calm_env n = RowRank calm_env (ticks sample_stored)"
    "events_wf text_pb sample_stored"
    using sample_stored_inv by (simp_all add: calm_env_def quiet_def rows_err_def storage_inv_def)
  moreover have "length (Nodes sample_stored) \<le> 2 * 1"
    using arg_cong [OF sample_nodes, of length] by simp
  ultimately show ?thesis
    using pages_cover_all_events [OF text_pb_ok, of sample_stored calm_env 2 1] by blast
qed

end
