(* ===== verification/RagText.thy ===== *)
theory RagText
  imports GoJson GoTime
begin

text \<open>
  The texts the bus derives from events: what is embedded for an event
  (\<open>extractTextContent\<close> of \<open>internal/bus/vectorize.go\<close>), what is searched for
  (\<open>generateQueryText\<close>) and the markdown context that is put before a prompt
  (\<open>renderEventsMarkdown\<close> and \<open>renderSingleEventMarkdown\<close> of \<open>internal/bus/server_rag.go\<close>).
  A request map is \<open>None\<close> when it is nil.
\<close>

section \<open>Operations\<close>

abbreviation newline :: char where
  "newline \<equiv> CHR 0x0A"

text \<open>The value of a field when it is a string and not empty, as a list of at most one part.\<close>

definition text_field :: "gval gomap \<Rightarrow> string \<Rightarrow> string list" where
  "text_field m k =
     (case as_string (map_of m k) of
        Some s \<Rightarrow> if s \<noteq> [] then [s] else []
      | None \<Rightarrow> [])"

definition generateQueryText :: "event \<Rightarrow> gval gomap option \<Rightarrow> string" where
  "generateQueryText ev requestData =
     (let parts = (if evSubject ev \<noteq> [] then [evSubject ev] else []) @
            (case requestData of
               None \<Rightarrow> []
             | Some m \<Rightarrow>
                 text_field m ''query'' @ text_field m ''prompt'' @
                 text_field m ''message'' @ text_field m ''text'')
      in if parts = [] then [] else join '' '' parts)"

definition textFields :: "string list" where
  "textFields = [''prompt'', ''response'', ''message'', ''text'', ''content'', ''description'']"

definition extractTextContent :: "pb \<Rightarrow> event \<Rightarrow> string" where
  "extractTextContent P ev =
     (if evSubject ev \<noteq> [] then evSubject ev
      else
        case event_object P ev of
          None \<Rightarrow> []
        | Some m \<Rightarrow>
            (let textParts = concat (map (text_field m) textFields)
             in if textParts = [] then (case json_marshal (GObj m) of Some s \<Rightarrow> s | None \<Rightarrow> [])
                else join '' '' textParts))"

definition priorityKeys :: "string list" where
  "priorityKeys =
     [''prompt'', ''message'', ''query'', ''text'', ''description'', ''content'', ''response'', ''result'']"

definition truncate_value :: "string \<Rightarrow> string" where
  "truncate_value s = (if length s > 200 then take 197 s @ ''...'' else s)"

definition key_field :: "gval gomap \<Rightarrow> string \<Rightarrow> string list" where
  "key_field m k = map (\<lambda>s. ''  - '' @ k @ '': '' @ truncate_value s) (text_field m k)"

definition renderSingleEventMarkdown :: "pb \<Rightarrow> event \<Rightarrow> string" where
  "renderSingleEventMarkdown P ev =
     (case evTime ev of
        None \<Rightarrow> []
      | Some t \<Rightarrow> ''**['' @ format_minute (AsTime t) @ '']** '') @
     evType ev @
     (if evSubject ev \<noteq> [] then '': '' @ evSubject ev else []) @
     [newline] @
     (case event_object P ev of
        None \<Rightarrow> []
      | Some m \<Rightarrow>
          (let keyFields = concat (map (key_field m) priorityKeys)
           in if keyFields \<noteq> [] then join [newline] keyFields @ [newline] else []))"

definition context_header :: string where
  "context_header = ''## Relevant Historical Context'' @ [newline, newline]"

definition event_separator :: string where
  "event_separator = [newline] @ ''---'' @ [newline, newline]"

definition truncation_note :: "nat \<Rightarrow> string" where
  "truncation_note n =
     [newline] @ ''*... and '' @ dec_nat n @ '' more relevant events (truncated due to token limit)*'' @ [newline]"

text \<open>The loop over the events: \<open>cur\<close> counts tokens, four bytes each.\<close>

fun render_loop :: "pb \<Rightarrow> nat \<Rightarrow> event list \<Rightarrow> nat \<Rightarrow> string \<Rightarrow> string" where
  "render_loop P maxTokens [] cur buf = buf"
| "render_loop P maxTokens (ev # evs) cur buf =
     (let eventMD = renderSingleEventMarkdown P ev; eventTokens = length eventMD div 4
      in if cur + eventTokens > maxTokens then buf @ truncation_note (length (ev # evs))
         else render_loop P maxTokens evs (cur + (eventTokens + 10)) (buf @ eventMD @ event_separator))"

definition renderEventsMarkdown :: "pb \<Rightarrow> event list \<Rightarrow> nat \<Rightarrow> string" where
  "renderEventsMarkdown P evs maxTokens = render_loop P maxTokens evs 40 context_header"

section \<open>Properties\<close>

text \<open>The tokens the loop counts for a list of events.\<close>

definition token_cost :: "pb \<Rightarrow> event list \<Rightarrow> nat" where
  "token_cost P evs = sum_list (map (\<lambda>ev. length (renderSingleEventMarkdown P ev) div 4 + 10) evs)"

text \<open>The last event of the list still fits.\<close>

definition fits :: "pb \<Rightarrow> nat \<Rightarrow> nat \<Rightarrow> event list \<Rightarrow> bool" where
  "fits P maxTokens cur evs \<longleftrightarrow>
     (\<forall>i < length evs. cur + token_cost P (take i evs) +
        length (renderSingleEventMarkdown P (evs ! i)) div 4 \<le> maxTokens)"

definition rendered :: "pb \<Rightarrow> event list \<Rightarrow> string" where
  "rendered P evs = concat (map (\<lambda>ev. renderSingleEventMarkdown P ev @ event_separator) evs)"

lemma fits_Cons: "fits P mx cur (ev # evs) \<longleftrightarrow>
    cur + length (renderSingleEventMarkdown P ev) div 4 \<le> mx \<and>
    fits P mx (cur + (length (renderSingleEventMarkdown P ev) div 4 + 10)) evs"
  by (auto simp: fits_def token_cost_def less_Suc_eq_0_disj)

lemma render_loop_prefix:
  "\<exists>k \<le> length evs. fits P mx cur (take k evs) \<and>
     (k < length evs \<longrightarrow> \<not> fits P mx cur (take (Suc k) evs)) \<and>
     render_loop P mx evs cur buf =
       buf @ rendered P (take k evs) @ (if k < length evs then truncation_note (length evs - k) else [])"
proof (induction evs arbitrary: cur buf)
  case Nil
  then show ?case by (simp add: fits_def rendered_def)
next
  case (Cons ev evs)
  let ?t = "length (renderSingleEventMarkdown P ev) div 4"
  show ?case
  proof (cases "cur + ?t > mx")
    case True
    then show ?thesis
      by (intro exI [of _ 0]) (simp add: fits_Cons rendered_def, simp add: fits_def)
  next
    case False
    obtain k where k: "k \<le> length evs" "fits P mx (cur + (?t + 10)) (take k evs)"
      "k < length evs \<longrightarrow> \<not> fits P mx (cur + (?t + 10)) (take (Suc k) evs)"
      "render_loop P mx evs (cur + (?t + 10)) (buf @ renderSingleEventMarkdown P ev @ event_separator) =
        (buf @ renderSingleEventMarkdown P ev @ event_separator) @ rendered P (take k evs) @
        (if k < length evs then truncation_note (length evs - k) else [])"
      using Cons.IH by blast
    show ?thesis
      by (intro exI [of _ "Suc k"]) (use False k in \<open>simp add: fits_Cons rendered_def Let_def\<close>)
  qed
qed

text \<open>
  C30: \<open>renderEventsMarkdown\<close> renders, in order, the longest run of events from the front that
  fits the token limit, each followed by the separator, and closes with the number of events
  left out exactly when some are left out.
\<close>

theorem context_is_longest_prefix:
  "\<exists>k \<le> length evs. fits P maxTokens 40 (take k evs) \<and>
     fits P maxTokens 40 (take (Suc k) evs) = (k = length evs) \<and>
     renderEventsMarkdown P evs maxTokens =
       context_header @ rendered P (take k evs) @
       (if k < length evs then truncation_note (length evs - k) else [])"
proof -
  obtain k where k: "k \<le> length evs" "fits P maxTokens 40 (take k evs)"
    "k < length evs \<longrightarrow> \<not> fits P maxTokens 40 (take (Suc k) evs)"
    "render_loop P maxTokens evs 40 context_header = context_header @ rendered P (take k evs) @
       (if k < length evs then truncation_note (length evs - k) else [])"
    using render_loop_prefix [of evs P maxTokens 40 context_header] by blast
  show ?thesis
    by (rule exI [of _ k]) (use k in \<open>auto simp: renderEventsMarkdown_def\<close>)
qed

lemma length_separator [simp]: "length event_separator = 6"
  by (simp add: event_separator_def)

lemma length_header [simp]: "length context_header = 32"
  by (simp add: context_header_def)

lemma length_dec_nat_mono: "m \<le> n \<Longrightarrow> length (dec_nat m) \<le> length (dec_nat n)"
proof (induction n arbitrary: m rule: dec_nat.induct)
  case (1 n)
  show ?case
  proof (cases "m < 10")
    case True
    have "length (dec_nat m) = 1" using True by (subst dec_nat.simps) simp
    moreover have "dec_nat n \<noteq> []" by simp
    then have "1 \<le> length (dec_nat n)" by (cases "dec_nat n") simp_all
    ultimately show ?thesis by simp
  next
    case False
    then have "length (dec_nat (m div 10)) \<le> length (dec_nat (n div 10))"
      using 1 by (intro "1.IH") (auto simp: div_le_mono)
    moreover have "dec_nat m = dec_nat (m div 10) @ [digit_char (m mod 10)]"
      "dec_nat n = dec_nat (n div 10) @ [digit_char (n mod 10)]"
      using False "1.prems" by (subst dec_nat.simps, simp)+
    ultimately show ?thesis by simp
  qed
qed

lemma length_note: "length (truncation_note n) = length (dec_nat n) + 64"
  by (simp add: truncation_note_def)

lemma length_rendered: "length (rendered P evs) + 31 * length evs \<le> 4 * token_cost P evs"
  by (induction evs) (auto simp: rendered_def token_cost_def)

lemma fits_cost:
  "fits P mx cur evs \<Longrightarrow> evs \<noteq> [] \<Longrightarrow> cur + token_cost P evs \<le> mx + 10"
proof (induction evs arbitrary: cur)
  case (Cons ev evs)
  show ?case
  proof (cases "evs = []")
    case False
    then have "cur + (length (renderSingleEventMarkdown P ev) div 4 + 10) + token_cost P evs \<le> mx + 10"
      using Cons by (simp add: fits_Cons)
    then show ?thesis by (simp add: token_cost_def)
  qed (use Cons.prems in \<open>simp add: fits_Cons token_cost_def\<close>)
qed simp

text \<open>
  The context stays within its budget: four bytes for each token of the limit (never less
  than the header), plus the one line that says how many events were left out.
\<close>

lemma context_length_bound:
  "length (renderEventsMarkdown P evs maxTokens) \<le>
    max 32 (4 * maxTokens) + (64 + length (dec_nat (length evs)))"
proof -
  obtain k where k: "k \<le> length evs" "fits P maxTokens 40 (take k evs)"
    "render_loop P maxTokens evs 40 context_header = context_header @ rendered P (take k evs) @
       (if k < length evs then truncation_note (length evs - k) else [])"
    using render_loop_prefix [of evs P maxTokens 40 context_header] by blast
  have body: "32 + length (rendered P (take k evs)) \<le> max 32 (4 * maxTokens)"
  proof (cases "take k evs = []")
    case False
    then show ?thesis
      using fits_cost [OF k(2) False] length_rendered [of P "take k evs"] by simp
  next
    case True
    then show ?thesis unfolding True by (simp add: rendered_def)
  qed
  have msg: "length (if k < length evs then truncation_note (length evs - k) else []) \<le>
      64 + length (dec_nat (length evs))"
    using length_dec_nat_mono [of "length evs - k" "length evs"] by (simp add: length_note)
  show ?thesis
    using body msg k(3) by (simp add: renderEventsMarkdown_def)
qed

lemma context_not_empty: "renderEventsMarkdown P evs maxTokens \<noteq> []"
proof -
  obtain ys where "renderEventsMarkdown P evs maxTokens = context_header @ ys"
    using render_loop_prefix [of evs P maxTokens 40 context_header] by (auto simp: renderEventsMarkdown_def)
  then show ?thesis by (simp add: context_header_def)
qed

lemma length_truncate: "length (truncate_value s) \<le> 200"
  by (simp add: truncate_value_def)

text \<open>
  The text that is embedded for an event is its subject if it has one, otherwise the known
  text fields of its data joined by blanks, otherwise the data as JSON; it is empty exactly
  when there is neither a subject nor a JSON object that can be encoded.
\<close>

lemma embedded_text_empty:
  "extractTextContent P ev = [] \<longleftrightarrow>
     evSubject ev = [] \<and>
     (case event_object P ev of
        None \<Rightarrow> True
      | Some m \<Rightarrow> concat (map (text_field m) textFields) = [] \<and> json_marshal (GObj m) = None)"
proof -
  have join_ne: "join sep xs \<noteq> []" if "xs \<noteq> []" "\<forall>x \<in> set xs. x \<noteq> []" for sep and xs :: "string list"
    using that by (induction sep xs rule: join.induct) auto
  have parts: "\<forall>x \<in> set (concat (map (text_field m) ks)). x \<noteq> []" for m ks
    by (auto simp: text_field_def split: option.splits if_splits)
  have json: "json_marshal (GObj m) \<noteq> Some []" for m
    by (simp add: json_marshal_def)
  show ?thesis
    using join_ne [OF _ parts] json
    by (auto simp: extractTextContent_def Let_def split: option.split)
qed

end
