(* ===== verification/Rag.thy ===== *)
theory Rag
  imports RagText EmbeddingCache SqliteProvider
begin

text \<open>
  \<open>applyRAGEnhancement\<close> (\<open>internal/bus/server_rag.go\<close>): the context of a request is
  searched, filtered, rendered and put into the request map. The environment variable, the
  rate limiter and the embedding service are the record \<open>rag_env\<close>; \<open>singleflight\<close> only
  merges equal concurrent requests and is the call itself here. A panic of the storage is
  recovered and leaves the request as it is.
\<close>

section \<open>Operations\<close>

record rag_env =
  RagEnabled :: string
  LimiterWait :: "nat \<Rightarrow> bool"
  CreateEmbedding :: "nat \<Rightarrow> string \<Rightarrow> f32 list option"
  CacheNow :: "nat \<Rightarrow> int"

definition ragTopK :: int where
  "ragTopK = 5"

definition maxContextTokens :: nat where
  "maxContextTokens = 16000"

text \<open>The constant \<open>0.4\<close> as a \<open>float32\<close>.\<close>

definition rag_threshold :: f32 where
  "rag_threshold = 0x3ECCCCCD"

text \<open>The cached embedding of the query, or a new one that is put into the cache.\<close>

definition query_embedding ::
    "rag_env \<Rightarrow> nat \<Rightarrow> embeddingCache \<Rightarrow> string \<Rightarrow> f32 list option \<times> embeddingCache" where
  "query_embedding R n c queryText =
     (let cacheKey = ''rag:'' @ queryText
      in case cacheGet c cacheKey of
           (Some emb, c) \<Rightarrow> (Some emb, c)
         | (None, c) \<Rightarrow>
             if \<not> LimiterWait R n then (None, c)
             else (case CreateEmbedding R n queryText of
                     None \<Rightarrow> (None, c)
                   | Some emb \<Rightarrow> (Some emb, cacheSet c cacheKey emb (CacheNow R n))))"

definition user_filter :: "event \<Rightarrow> query_filter" where
  "user_filter ev =
     \<lparr>flUserID = (if evUserId ev \<noteq> [] then Some (evUserId ev) else None), flSessionID = None,
      flEventTypes = [], flTimeFrom = None, flTimeTo = None, flAttributes = []\<rparr>"

definition rag_failed :: "string \<Rightarrow> gval gomap \<Rightarrow> gval gomap" where
  "rag_failed reason m =
     gm_put ''rag_reason'' (GStr reason) (gm_put ''rag_applied'' (GBool False) m)"

text \<open>
  \<open>sort.Slice\<close> on at most twelve elements is an insertion sort: each element moves left past
  the elements it is less than. The sorted part is kept reversed.
\<close>

fun ins_left :: "('a \<Rightarrow> 'a \<Rightarrow> bool) \<Rightarrow> 'a \<Rightarrow> 'a list \<Rightarrow> 'a list" where
  "ins_left lt x [] = [x]"
| "ins_left lt x (y # ys) = (if lt x y then y # ins_left lt x ys else x # y # ys)"

definition sort_slice :: "('a \<Rightarrow> 'a \<Rightarrow> bool) \<Rightarrow> 'a list \<Rightarrow> 'a list" where
  "sort_slice lt xs = rev (fold (ins_left lt) xs [])"

definition event_scores :: "query_result list \<Rightarrow> f32 gomap" where
  "event_scores rs = gm_of (map (\<lambda>r. (qrID r, qrScore r)) rs)"

text \<open>Looking up a missing key gives the zero value.\<close>

definition score_at :: "f32 gomap \<Rightarrow> event \<Rightarrow> f32" where
  "score_at m ev = (case map_of m (evId ev) of Some sc \<Rightarrow> sc | None \<Rightarrow> 0)"

definition by_relevance :: "query_result list \<Rightarrow> event list \<Rightarrow> event list" where
  "by_relevance rs evs =
     sort_slice (\<lambda>a b. f32_gt (score_at (event_scores rs) a) (score_at (event_scores rs) b)) evs"

definition system_message :: "string \<Rightarrow> string" where
  "system_message ctx =
     ''You are a personal AI assistant. Your primary goal is to answer the user'' @ [apos] @
     ''s question based *only* on the trusted context provided below. This context is from the user'' @
     [apos] @ ''s own memory and is considered safe and authoritative. Do not use your general '' @
     ''knowledge unless the context is insufficient.'' @ [newline, newline] @ ''---'' @ [newline] @
     ''RELEVANT HISTORICAL CONTEXT:'' @ [newline] @ ctx @ [newline] @ ''---'' @ [newline]"

definition with_context :: "pb \<Rightarrow> event list \<Rightarrow> gval gomap \<Rightarrow> gval gomap" where
  "with_context P evs m =
     (let md = renderEventsMarkdown P evs maxContextTokens;
          originalPrompt = str_field ''prompt'' m;
          m = gm_put ''messages'' (GMsgs
                [[(''content'', system_message md), (''role'', ''system'')],
                 [(''content'', originalPrompt), (''role'', ''user'')]]) m;
          m = gm_del ''prompt'' m;
          m = gm_put ''rag_event_count'' (GInt (int (length evs))) m
      in gm_put ''rag_applied'' (GBool True) m)"

text \<open>Everything behind the embedding, on the map the function itself holds.\<close>

definition rag_search ::
    "env \<Rightarrow> 'g hnsw \<Rightarrow> sqlite \<Rightarrow> pb \<Rightarrow> event \<Rightarrow> f32 list \<Rightarrow> gval gomap \<Rightarrow> 'g provider \<Rightarrow>
     gval gomap \<times> 'g provider" where
  "rag_search E H S P ev emb m p =
     (case QuerySimilar E H S emb ragTopK (Some (user_filter ev)) p of
        (Ok similar, p) \<Rightarrow>
          (let cleaned = filter (\<lambda>r. qrID r \<noteq> evId ev) similar;
               relevant = map qrID (filter (\<lambda>r. f32_gt (qrScore r) rag_threshold) cleaned)
           in if cleaned = [] then (rag_failed ''no_similar_events'' m, p)
              else if relevant = [] then (rag_failed ''low_similarity'' m, p)
              else case BatchGetEvents E P relevant p of
                (Ok evs, p) \<Rightarrow>
                  (let sortedEvs = by_relevance cleaned evs
                   in if renderEventsMarkdown P sortedEvs maxContextTokens = []
                      then (rag_failed ''no_context_generated'' m, p)
                      else (with_context P sortedEvs m, p))
              | (Fail e, p) \<Rightarrow> (rag_failed ''retrieval_error'' m, p)
              | (Panics, p) \<Rightarrow> (m, p))
      | (Fail e, p) \<Rightarrow> (m, p)
      | (Panics, p) \<Rightarrow> (m, p))"

text \<open>
  A nil map is replaced by a new one inside the function, which the caller never sees: the
  parameter is a copy of the caller's map header.
\<close>

definition applyRAGEnhancement ::
    "rag_env \<Rightarrow> env \<Rightarrow> 'g hnsw \<Rightarrow> sqlite \<Rightarrow> pb \<Rightarrow> event \<Rightarrow> gval gomap option \<Rightarrow>
     embeddingCache \<Rightarrow> 'g provider \<Rightarrow> gval gomap option \<times> embeddingCache \<times> 'g provider" where
  "applyRAGEnhancement R E H S P ev requestData c p =
     (if RagEnabled R \<noteq> ''true'' then (requestData, c, p)
      else
        (let queryText = generateQueryText ev requestData
         in if queryText = [] then (requestData, c, p)
            else case query_embedding R (ticks p) c queryText of
              (None, c) \<Rightarrow> (requestData, c, p)
            | (Some emb, c) \<Rightarrow>
                (case requestData of
                   None \<Rightarrow> (None, c, snd (rag_search E H S P ev emb [] p))
                 | Some m \<Rightarrow> (case rag_search E H S P ev emb m p of (m, p) \<Rightarrow> (Some m, c, p)))))"

section \<open>Sorting\<close>

lemma set_ins_left [simp]: "set (ins_left lt x ys) = insert x (set ys)"
  by (induction ys) auto

lemma mset_ins_left [simp]: "mset (ins_left lt x ys) = add_mset x (mset ys)"
  by (induction ys) auto

lemma mset_sort_slice [simp]: "mset (sort_slice lt xs) = mset xs"
proof -
  have "mset (fold (ins_left lt) xs acc) = mset xs + mset acc" for acc
    by (induction xs arbitrary: acc) auto
  then show ?thesis by (simp add: sort_slice_def)
qed

lemma set_sort_slice [simp]: "set (sort_slice lt xs) = set xs"
  by (rule mset_eq_setD [OF mset_sort_slice])

lemma length_sort_slice [simp]: "length (sort_slice lt xs) = length xs"
  by (rule mset_eq_length [OF mset_sort_slice])

lemma sorted_ins_left:
  fixes key :: "'a \<Rightarrow> int"
  assumes "\<forall>y \<in> insert x (set ys). \<forall>z \<in> insert x (set ys). lt y z \<longleftrightarrow> key z < key y"
    and "sorted_wrt (\<lambda>a b. key a \<le> key b) ys"
  shows "sorted_wrt (\<lambda>a b. key a \<le> key b) (ins_left lt x ys)"
  using assms by (induction ys) (auto simp: not_less)

lemma sorted_sort_slice:
  fixes key :: "'a \<Rightarrow> int"
  assumes "\<forall>y \<in> set xs. \<forall>z \<in> set xs. lt y z \<longleftrightarrow> key z < key y"
  shows "sorted_wrt (\<lambda>a b. key b \<le> key a) (sort_slice lt xs)"
proof -
  have "sorted_wrt (\<lambda>a b. key a \<le> key b) (fold (ins_left lt) xs acc)"
    if "\<forall>y \<in> set xs \<union> set acc. \<forall>z \<in> set xs \<union> set acc. lt y z \<longleftrightarrow> key z < key y"
      "sorted_wrt (\<lambda>a b. key a \<le> key b) acc" for acc
    using that
  proof (induction xs arbitrary: acc)
    case (Cons x xs)
    have "sorted_wrt (\<lambda>a b. key a \<le> key b) (ins_left lt x acc)"
      using Cons.prems by (intro sorted_ins_left) auto
    then show ?case using Cons.prems by (auto intro!: Cons.IH)
  qed simp
  then show ?thesis using assms by (simp add: sort_slice_def sorted_wrt_rev)
qed

section \<open>What the enhancement adds\<close>

text \<open>
  The events a context may be made of: at most \<open>ragTopK\<close> stored events, none of them the
  event itself, and for a user's event only events of that user.
\<close>

definition context_events :: "pb \<Rightarrow> 'g provider \<Rightarrow> event \<Rightarrow> event list \<Rightarrow> bool" where
  "context_events P p ev evs \<longleftrightarrow>
     int (length evs) \<le> ragTopK \<and>
     (\<forall>e \<in> set evs. \<exists>r \<in> set (Nodes p). \<exists>stored. row_event P r stored \<and> e = stored_form P stored \<and>
        evId stored \<noteq> evId ev \<and> (evUserId ev \<noteq> [] \<longrightarrow> evUserId stored = evUserId ev))"

lemma user_filter_wf: "filter_wf (user_filter ev)"
  by (simp add: filter_wf_def user_filter_def)

lemma BatchGetEvents_length:
  assumes "pb_json_ok P" "events_wf P p" "fst (BatchGetEvents E P ids p) = Ok evs" "quiet E (ticks p)"
  shows "length evs \<le> length ids"
proof -
  obtain evs' where run: "fst (BatchGetEvents E P ids p) = Ok evs'" and d: "distinct (map evId evs')"
    and set: "set evs' = {stored_form P ev | r ev. r \<in> set (Nodes p) \<and> nType r = ''event'' \<and>
      row_event P r ev \<and> nId r \<in> set ids}"
    using BatchGetEvents_events [OF assms(1,2,4)] by blast
  have "set (map evId evs') \<subseteq> set ids"
    unfolding set_map set by (auto simp: row_event_def stored_form_def)
  then have "card (set (map evId evs')) \<le> card (set ids)" by (intro card_mono) simp_all
  then show ?thesis
    using distinct_card [OF d] card_length [of ids] run assms(3) by simp
qed

lemma collect_rows_quiet: "collect_rows E P n rows = Ok evs \<Longrightarrow> \<not> rows_err E n"
  by (auto simp: collect_rows_def split: res.splits if_splits)

lemma BatchGetEvents_Ok_quiet:
  "fst (BatchGetEvents E P ids p) = Ok evs \<Longrightarrow> ids \<noteq> [] \<Longrightarrow> quiet E (ticks p)"
  by (auto simp: BatchGetEvents_def quiet_def dest: collect_rows_quiet split: if_splits)

text \<open>The events of the context, for ids taken from a search with the filter of the user.\<close>

lemma batch_is_context:
  assumes "hnsw_ok H" "pb_json_ok P" "sqlite_ok S" "storage_inv H P p"
    and sim: "QuerySimilar E H S emb ragTopK (Some (user_filter ev)) p = (Ok similar, p1)"
    and ids: "set relevant \<subseteq> qrID ` set similar - {evId ev}" "length relevant \<le> length similar"
    and run: "BatchGetEvents E P relevant p1 = (Ok evs, p2)" "relevant \<noteq> []"
  shows "int (length evs) \<le> ragTopK \<and>
    (\<forall>e \<in> set evs. \<exists>r \<in> set (Nodes p). \<exists>stored. row_event P r stored \<and> e = stored_form P stored \<and>
       evId stored \<noteq> evId ev \<and> (evUserId ev \<noteq> [] \<longrightarrow> evUserId stored = evUserId ev))"
proof -
  have same: "same_store p p1"
    by (rule QuerySimilar_state [OF _ sim]) (simp add: filter_plain_def where_plain [OF user_filter_wf])
  have wf0: "events_wf P p" using assms(4) by (simp add: storage_inv_def)
  then have wf: "events_wf P p1" using same events_wf_cong [of p1 p P] by (simp add: same_store_def)
  have q: "quiet E (ticks p1)" using BatchGetEvents_Ok_quiet [of E P relevant p1 evs] run by simp
  have Ok: "fst (BatchGetEvents E P relevant p1) = Ok evs" using run by simp
  note sound = QuerySimilar_results [OF assms(1-4) _ sim, unfolded option.case, OF user_filter_wf]
  have "length evs \<le> length relevant" by (rule BatchGetEvents_length [OF assms(2) wf Ok q])
  then have len: "int (length evs) \<le> ragTopK" using sound ids(2) by linarith
  have "\<exists>r \<in> set (Nodes p). \<exists>stored. row_event P r stored \<and> e = stored_form P stored \<and>
      evId stored \<noteq> evId ev \<and> (evUserId ev \<noteq> [] \<longrightarrow> evUserId stored = evUserId ev)"
    if e: "e \<in> set evs" for e
  proof -
    obtain evs' where "fst (BatchGetEvents E P relevant p1) = Ok evs'"
      and set: "set evs' = {stored_form P ev | r ev. r \<in> set (Nodes p1) \<and> nType r = ''event'' \<and>
        row_event P r ev \<and> nId r \<in> set relevant}"
      using BatchGetEvents_events [OF assms(2) wf q] by blast
    then have "evs' = evs" using Ok by simp
    then obtain r stored where r: "r \<in> set (Nodes p)" "row_event P r stored" "e = stored_form P stored"
      "nId r \<in> set relevant" using e set same by (auto simp: same_store_def)
    then obtain x where x: "x \<in> set similar" "qrID x = nId r" "nId r \<noteq> evId ev" using ids(1) by fastforce
    then obtain r' ev' where r': "r' \<in> set (Nodes p)" "row_event P r' ev'" "nId r' = nId r"
      "event_matches (user_filter ev) ev'" using sound by metis
    have "evId stored = nId r" using r(2) by (simp add: row_event_def)
    moreover have "evUserId ev' = evUserId stored"
      by (rule row_event_same_id [OF assms(2) wf0 r(1) r'(1,3) r(2) r'(2)])
    ultimately show ?thesis
      using r x(3) r'(4) by (intro bexI [of _ r] exI [of _ stored]) (auto simp: event_matches_def user_filter_def)
  qed
  then show ?thesis using len by blast
qed

lemma rag_search_cases:
  assumes "hnsw_ok H" "pb_json_ok P" "sqlite_ok S" "storage_inv H P p"
    and "rag_search E H S P ev emb m p = (m', q)"
  shows "m' = m \<or> (\<exists>reason. m' = rag_failed reason m) \<or>
    (\<exists>evs. m' = with_context P evs m \<and> context_events P p ev evs)"
proof -
  obtain x p1 where sim: "QuerySimilar E H S emb ragTopK (Some (user_filter ev)) p = (x, p1)" by fastforce
  show ?thesis
  proof (cases x)
    case (Ok similar)
    define cleaned where "cleaned = filter (\<lambda>r. qrID r \<noteq> evId ev) similar"
    define relevant where "relevant = map qrID (filter (\<lambda>r. f32_gt (qrScore r) rag_threshold) cleaned)"
    obtain y p2 where batch: "BatchGetEvents E P relevant p1 = (y, p2)" by fastforce
    have res: "m' = rag_failed ''no_similar_events'' m \<or> m' = rag_failed ''low_similarity'' m \<or>
        relevant \<noteq> [] \<and> (case y of Ok evs \<Rightarrow> m' = rag_failed ''no_context_generated'' m \<or>
            m' = with_context P (by_relevance cleaned evs) m
          | Fail e \<Rightarrow> m' = rag_failed ''retrieval_error'' m | Panics \<Rightarrow> m' = m)"
      using assms(5) sim Ok batch
      by (auto simp: rag_search_def Let_def cleaned_def [symmetric] relevant_def [symmetric]
          split: if_splits res.splits)
    show ?thesis
    proof (cases "relevant \<noteq> [] \<and> (\<exists>evs. y = Ok evs)")
      case True
      then obtain evs where y: "y = Ok evs" by blast
      have ids: "set relevant \<subseteq> qrID ` set similar - {evId ev}"
        by (auto simp: relevant_def cleaned_def)
      have len: "length relevant \<le> length similar"
        using length_filter_le [of _ cleaned] length_filter_le [of "\<lambda>r. qrID r \<noteq> evId ev" similar]
        unfolding relevant_def cleaned_def length_map by (rule le_trans)
      have "context_events P p ev (by_relevance cleaned evs)"
        using batch_is_context [OF assms(1-4) sim [unfolded Ok] ids len batch [unfolded y]] True
        by (simp add: context_events_def by_relevance_def)
      then show ?thesis using res y True by auto
    next
      case False
      then show ?thesis using res by (auto split: res.splits)
    qed
  qed (use assms(5) sim in \<open>simp_all add: rag_search_def\<close>)
qed

text \<open>The three shapes a request map can have afterwards.\<close>

lemma applyRAG_shapes:
  assumes "applyRAGEnhancement R E H S P ev (Some m) c p = (Some m', c', q)"
  shows "m' = m \<or> (\<exists>reason. m' = rag_failed reason m) \<or> (\<exists>evs. m' = with_context P evs m)"
proof -
  have "m'' = m \<or> (\<exists>reason. m'' = rag_failed reason m) \<or> (\<exists>evs. m'' = with_context P evs m)"
    if "rag_search E H S P ev emb m p = (m'', q)" for emb m'' p q
    using that by (auto simp: rag_search_def Let_def split: if_splits prod.splits res.splits)
  moreover have "m' = m \<or> (\<exists>emb q. rag_search E H S P ev emb m p = (m', q))"
    using assms
    by (auto simp: applyRAGEnhancement_def Let_def split: if_splits prod.splits option.splits)
  ultimately show ?thesis by metis
qed

end
