(* ===== verification/RagProperties.thy ===== *)
theory RagProperties
  imports Rag SampleStore
begin

text \<open>
  The properties of the context enhancement: which events it adds and in which order, what it
  changes in the request, and that it is lost for a request without data.
\<close>

text \<open>
  C27: the enhancement leaves the request map as it is, marks it with the reason why it added
  nothing, or puts a context into it; such a context is made of at most five stored events,
  never of the event itself, and for an event of a user only of events of that user.
\<close>

theorem rag_context_is_relevant:
  assumes "hnsw_ok H" "pb_json_ok P" "sqlite_ok S" "storage_inv H P p"
    and "applyRAGEnhancement R E H S P ev (Some m) c p = (Some m', c', q)"
  shows "m' = m \<or> (\<exists>reason. m' = rag_failed reason m) \<or>
    (\<exists>evs. m' = with_context P evs m \<and> context_events P p ev evs)"
proof -
  have "m' = m \<or> (\<exists>emb q. rag_search E H S P ev emb m p = (m', q))"
    using assms(5)
    by (auto simp: applyRAGEnhancement_def Let_def split: if_splits prod.splits option.splits)
  then show ?thesis using rag_search_cases [OF assms(1-4)] by blast
qed

lemma sample_user_search:
  assumes "evUserId ev = ''ann''"
  shows "QuerySimilar calm_env list_graph json_sqlite [f32_one] ragTopK (Some (user_filter ev)) sample_stored =
    (Ok [\<lparr>qrID = ''e1'', qrScore = f32_one\<rparr>], tick (tick (tick sample_stored)))"
proof -
  let ?ann = "user_filter (sample_event\<lparr>evUserId := ''ann''\<rparr>)"
  have uf: "user_filter ev = ?ann" using assms by (simp add: user_filter_def)
  have "fst (findFilteredEventIDs calm_env json_sqlite ?ann sample_stored) = Ok [''e1'']"
    by code_simp
  then have f: "findFilteredEventIDs calm_env json_sqlite ?ann sample_stored = (Ok [''e1''], tick sample_stored)"
    using findFiltered_tick [OF where_plain [OF user_filter_wf]] by (metis prod.collapse)
  have sc: "score_of list_graph [f32_one] [f32_one] = f32_one"
    using f32_sub_zero [OF f32_one_finite] by (simp add: score_of_def list_graph_def)
  have "search_eligible calm_env list_graph [f32_one] ragTopK [''e1''] (tick sample_stored) =
      (Ok [(''vec_6_1'', [f32_one])], tick (tick sample_stored))"
    by (simp add: search_eligible_def calm_env_def seen_rows_def delivered_def linked_edges_def sample_edges
        sample_index list_graph_def ragTopK_def)
  moreover have "results_of calm_env list_graph [f32_one] [(''vec_6_1'', [f32_one])] (tick (tick sample_stored)) =
      (Ok [\<lparr>qrID = ''e1'', qrScore = f32_one\<rparr>], tick (tick (tick sample_stored)))"
    by (simp add: results_of_def calm_env_def seen_rows_def delivered_def linked_edges_def sample_edges
        score_map_def gm_of_def sc)
  ultimately show ?thesis by (simp add: QuerySimilar_def uf f ragTopK_def)
qed

definition sample_rag :: rag_env where
  "sample_rag = \<lparr>RagEnabled = ''true'', LimiterWait = (\<lambda>n. True),
     CreateEmbedding = (\<lambda>n s. Some [f32_one]), CacheNow = int\<rparr>"

definition ann_question :: event where
  "ann_question = empty_event\<lparr>evId := ''e2'', evType := ''question'', evUserId := ''ann''\<rparr>"

definition ann_request :: "gval gomap" where
  "ann_request = [(''prompt'', GStr ''hi'')]"

lemma sample_rag_search:
  "rag_search calm_env list_graph json_sqlite text_pb ann_question [f32_one] ann_request sample_stored =
    (with_context text_pb [sample_event] ann_request, tick (tick (tick (tick sample_stored))))"
proof -
  have "fst (BatchGetEvents calm_env text_pb [''e1''] (tick (tick (tick sample_stored)))) = Ok [sample_event]"
    by code_simp
  then have b: "BatchGetEvents calm_env text_pb [''e1''] (tick (tick (tick sample_stored))) =
      (Ok [sample_event], tick (tick (tick (tick sample_stored))))"
    by (simp add: BatchGetEvents_def calm_env_def)
  have gt: "f32_gt f32_one rag_threshold"
    by (simp add: f32_gt_def f32_nan_def f32_key_def f32_neg_def f32_mag_def f32_one_def rag_threshold_def)
  have u: "evUserId ann_question = ''ann''" "evId ann_question = ''e2''"
    by (simp_all add: ann_question_def empty_event_def)
  show ?thesis
    by (simp add: rag_search_def sample_user_search [OF u(1)] u(2) gt b context_not_empty
        by_relevance_def sort_slice_def)
qed

lemma sample_enhanced:
  "\<exists>c. applyRAGEnhancement sample_rag calm_env list_graph json_sqlite text_pb ann_question
      (Some ann_request) (newEmbeddingCache 1000) sample_stored =
    (Some (with_context text_pb [sample_event] ann_request), c, tick (tick (tick (tick sample_stored))))"
proof -
  have "generateQueryText ann_question (Some ann_request) = ''hi''"
    by (simp add: generateQueryText_def ann_question_def ann_request_def empty_event_def text_field_def)
  then show ?thesis
    by (simp add: applyRAGEnhancement_def sample_rag_search query_embedding_def cacheGet_None
        newEmbeddingCache_def sample_rag_def)
qed

theorem rag_context_is_relevant_witness:
  "\<exists>m c q evs. applyRAGEnhancement sample_rag calm_env list_graph json_sqlite text_pb ann_question
      (Some ann_request) (newEmbeddingCache 1000) sample_stored = (Some m, c, q) \<and>
    m = with_context text_pb [sample_event] ann_request \<and>
    (m = ann_request \<or> (\<exists>reason. m = rag_failed reason ann_request) \<or>
     m = with_context text_pb evs ann_request \<and> context_events text_pb sample_stored ann_question evs)"
proof -
  obtain c where run: "applyRAGEnhancement sample_rag calm_env list_graph json_sqlite text_pb ann_question
      (Some ann_request) (newEmbeddingCache 1000) sample_stored =
    (Some (with_context text_pb [sample_event] ann_request), c, tick (tick (tick (tick sample_stored))))"
    using sample_enhanced by blast
  from rag_context_is_relevant [OF list_graph_ok text_pb_ok json_sqlite_ok sample_stored_inv run] run
  show ?thesis by blast
qed

text \<open>
  The context events are put in order of falling score (the code's insertion sort keeps
  all of them): no event stands before one with a greater score, unless a score is NaN.
\<close>

theorem relevance_order:
  assumes "\<forall>r \<in> set rs. \<not> f32_nan (qrScore r)"
  shows "mset (by_relevance rs evs) = mset evs \<and>
    sorted_wrt (\<lambda>a b. \<not> f32_gt (score_at (event_scores rs) b) (score_at (event_scores rs) a)) (by_relevance rs evs)"
proof -
  have nan: "\<not> f32_nan (score_at (event_scores rs) e)" for e
  proof (cases "map_of (event_scores rs) (evId e)")
    case None
    then show ?thesis by (simp add: score_at_def f32_nan_def f32_mag_def)
  next
    case (Some sc)
    then have "(evId e, sc) \<in> set (rev (map (\<lambda>r. (qrID r, qrScore r)) rs))"
      unfolding event_scores_def map_of_gm_of by (rule map_of_SomeD)
    then have "sc \<in> qrScore ` set rs" by auto
    then show ?thesis using assms Some by (auto simp: score_at_def)
  qed
  let ?key = "\<lambda>e. f32_key (score_at (event_scores rs) e)"
  have "sorted_wrt (\<lambda>a b. ?key b \<le> ?key a) (by_relevance rs evs)"
    unfolding by_relevance_def by (rule sorted_sort_slice) (simp add: f32_gt_def nan)
  then have "sorted_wrt (\<lambda>a b. \<not> f32_gt (score_at (event_scores rs) b) (score_at (event_scores rs) a))
      (by_relevance rs evs)"
    by (rule sorted_wrt_mono_rel [rotated]) (simp add: f32_gt_def)
  then show ?thesis by (simp add: by_relevance_def)
qed

theorem relevance_order_example:
  "mset (by_relevance [\<lparr>qrID = ''e1'', qrScore = f32_one\<rparr>] [ann_question, sample_event]) =
    {#ann_question, sample_event#}"
  using relevance_order [of "[\<lparr>qrID = ''e1'', qrScore = f32_one\<rparr>]" "[ann_question, sample_event]"]
    f32_one_finite by simp

text \<open>
  The enhancement changes nothing in the request but the prompt, the messages and its own
  three marks: every other field has the value it had.
\<close>

theorem rag_keeps_other_fields:
  assumes "applyRAGEnhancement R E H S P ev (Some m) c p = (Some m', c', q)"
    and "k \<notin> {''prompt'', ''messages'', ''rag_event_count'', ''rag_applied'', ''rag_reason''}"
  shows "map_of m' k = map_of m k"
proof -
  have "map_of (rag_failed reason m) k = map_of m k" for reason
    using assms(2) by (simp add: rag_failed_def)
  moreover have "map_of (with_context P evs m) k = map_of m k" for evs
    using assms(2) by (simp add: with_context_def Let_def)
  ultimately show ?thesis using applyRAG_shapes [OF assms(1)] by auto
qed

theorem rag_keeps_other_fields_example:
  "\<exists>m c q. applyRAGEnhancement sample_rag calm_env list_graph json_sqlite text_pb ann_question
      (Some ann_request) (newEmbeddingCache 1000) sample_stored = (Some m, c, q) \<and>
    map_of m ''temperature'' = None"
proof -
  obtain c where run: "applyRAGEnhancement sample_rag calm_env list_graph json_sqlite text_pb ann_question
      (Some ann_request) (newEmbeddingCache 1000) sample_stored =
    (Some (with_context text_pb [sample_event] ann_request), c, tick (tick (tick (tick sample_stored))))"
    using sample_enhanced by blast
  from rag_keeps_other_fields [OF run, of "''temperature''"] run show ?thesis
    by (simp add: ann_request_def)
qed

text \<open>
  For a request whose data is no JSON object (a nil map) the enhancement is computed and
  lost: the caller's map is nil afterwards as before, whatever was found.
\<close>

lemma rag_lost_without_data:
  "fst (applyRAGEnhancement R E H S P ev None c p) = None"
  by (simp add: applyRAGEnhancement_def Let_def split: prod.split option.split)

end
