(* ===== verification/Subscriptions.thy ===== *)
theory Subscriptions
  imports Events SqliteModel "HOL-Library.Sublist"
begin

text \<open>
  The subscriber registry of the bus server (\<open>Subscribe\<close> and \<open>broadcastEvent\<close> of
  \<open>internal/bus/server_subscribe.go\<close>) and of the in-memory bus
  (\<open>internal/bus/memory/bus.go\<close>), as one state machine. A channel is a number; each running
  \<open>Subscribe\<close> call owns the channel it made. The goroutines interleave at the steps the two
  locks and the channel operations make atomic: a subscription, one pass of the
  \<open>select\<close> loop (an event sent, a failed send, a cancelled context) and a broadcast. The two
  registries differ only in which subscriptions they admit.
\<close>

section \<open>State and operations\<close>

record registry =
  subscribers :: "nat gomap"
  chanBuf :: "nat \<Rightarrow> event list"
  chanClosed :: "nat \<Rightarrow> bool"
  chanOwner :: "nat \<Rightarrow> string option"
  streamSent :: "nat \<Rightarrow> event list"
  nextChan :: nat

definition new_registry :: registry where
  "new_registry =
     \<lparr>subscribers = [], chanBuf = (\<lambda>_. []), chanClosed = (\<lambda>_. False), chanOwner = (\<lambda>_. None),
      streamSent = (\<lambda>_. []), nextChan = 0\<rparr>"

definition chan_capacity :: nat where
  "chan_capacity = 100"

text \<open>A new channel, registered under the client id (replacing a channel registered before).\<close>

definition open_stream :: "string \<Rightarrow> registry \<Rightarrow> registry" where
  "open_stream c s =
     s\<lparr>subscribers := gm_put c (nextChan s) (subscribers s),
       chanOwner := (chanOwner s)(nextChan s \<mapsto> c), nextChan := nextChan s + 1\<rparr>"

text \<open>The deferred cleanup: whatever is registered under the id is removed.\<close>

definition close_stream :: "nat \<Rightarrow> string \<Rightarrow> registry \<Rightarrow> registry" where
  "close_stream n c s =
     s\<lparr>subscribers := gm_del c (subscribers s), chanClosed := (chanClosed s)(n := True),
       chanOwner := (chanOwner s)(n := None)\<rparr>"

text \<open>The non-blocking sends to all registered channels; a send on a closed channel panics.\<close>

fun broadcast_loop :: "event \<Rightarrow> nat gomap \<Rightarrow> registry \<Rightarrow> registry option" where
  "broadcast_loop ev [] s = Some s"
| "broadcast_loop ev ((c, n) # cs) s =
     (if chanClosed s n then None
      else if length (chanBuf s n) < chan_capacity
      then broadcast_loop ev cs (s\<lparr>chanBuf := (chanBuf s)(n := chanBuf s n @ [ev])\<rparr>)
      else broadcast_loop ev cs s)"

definition broadcastEvent :: "event \<Rightarrow> registry \<Rightarrow> registry option" where
  "broadcastEvent ev s = broadcast_loop ev (subscribers s) s"

text \<open>\<open>MemoryBus.Publish\<close>: a nil event is refused, any other is broadcast.\<close>

definition memPublish :: "event option \<Rightarrow> registry \<Rightarrow> unit res \<times> registry" where
  "memPublish ev s =
     (case ev of
        None \<Rightarrow> (Fail (Errorf ''event cannot be nil''), s)
      | Some e \<Rightarrow> (case broadcastEvent e s of None \<Rightarrow> (Panics, s) | Some t \<Rightarrow> (Ok (), t)))"

text \<open>\<open>GetSubscriberCount\<close>.\<close>

definition subscriberCount :: "registry \<Rightarrow> nat" where
  "subscriberCount s = length (subscribers s)"

text \<open>Which subscriptions are admitted: all of them by the server, new ids by the memory bus.\<close>

definition serverAdmit :: "string \<Rightarrow> registry \<Rightarrow> err option" where
  "serverAdmit c s = None"

definition memAdmit :: "string \<Rightarrow> registry \<Rightarrow> err option" where
  "memAdmit c s =
     (if c = [] then Some (Errorf ''client_id cannot be empty'')
      else case map_of (subscribers s) c of
        Some n \<Rightarrow> Some (Errorf (''client '' @ c @ '' is already subscribed''))
      | None \<Rightarrow> None)"

datatype bus_action = Subscribe string | Deliver nat | SendError nat | Disconnect nat | Broadcast event

inductive bus_step ::
    "(string \<Rightarrow> registry \<Rightarrow> err option) \<Rightarrow> registry \<Rightarrow> bus_action \<Rightarrow> registry \<Rightarrow> bool" for admit where
  subscribed: "admit c s = None \<Longrightarrow> bus_step admit s (Subscribe c) (open_stream c s)"
| rejected: "admit c s = Some e \<Longrightarrow> bus_step admit s (Subscribe c) s"
| deliver: "chanOwner s n = Some c \<Longrightarrow> chanBuf s n = ev # evs \<Longrightarrow>
    bus_step admit s (Deliver n)
      (s\<lparr>chanBuf := (chanBuf s)(n := evs), streamSent := (streamSent s)(n := streamSent s n @ [ev])\<rparr>)"
| send_error: "chanOwner s n = Some c \<Longrightarrow> chanBuf s n = ev # evs \<Longrightarrow>
    bus_step admit s (SendError n) (close_stream n c (s\<lparr>chanBuf := (chanBuf s)(n := evs)\<rparr>))"
| disconnect: "chanOwner s n = Some c \<Longrightarrow> bus_step admit s (Disconnect n) (close_stream n c s)"
| broadcast: "broadcastEvent ev s = Some t \<Longrightarrow> bus_step admit s (Broadcast ev) t"

inductive_cases bus_stepE: "bus_step admit s a t"

inductive_simps bus_step_simps:
  "bus_step admit s (Subscribe c) t" "bus_step admit s (Deliver n) t" "bus_step admit s (SendError n) t"
  "bus_step admit s (Disconnect n) t" "bus_step admit s (Broadcast ev) t"

inductive bus_run ::
    "(string \<Rightarrow> registry \<Rightarrow> err option) \<Rightarrow> registry \<Rightarrow> bus_action list \<Rightarrow> registry \<Rightarrow> bool" for admit where
  done': "bus_run admit s [] s"
| more': "bus_step admit s a t \<Longrightarrow> bus_run admit t as u \<Longrightarrow> bus_run admit s (a # as) u"

inductive_cases bus_run_NilE: "bus_run admit s [] t"
inductive_cases bus_run_ConsE: "bus_run admit s (a # as) t"

fun broadcasts :: "bus_action list \<Rightarrow> event list" where
  "broadcasts [] = []"
| "broadcasts (Broadcast ev # as) = ev # broadcasts as"
| "broadcasts (_ # as) = broadcasts as"

section \<open>The invariant both registries keep\<close>

definition registry_inv :: "registry \<Rightarrow> bool" where
  "registry_inv s \<longleftrightarrow>
     gm_wf (subscribers s) \<and>
     (\<forall>c n. map_of (subscribers s) c = Some n \<longrightarrow> chanOwner s n = Some c) \<and>
     (\<forall>n c. chanOwner s n = Some c \<longrightarrow> n < nextChan s \<and> \<not> chanClosed s n) \<and>
     (\<forall>n. nextChan s \<le> n \<longrightarrow> chanBuf s n = [] \<and> streamSent s n = [] \<and> \<not> chanClosed s n) \<and>
     (\<forall>n. length (chanBuf s n) \<le> chan_capacity)"

lemma registry_inv_new: "registry_inv new_registry"
  by (simp add: registry_inv_def new_registry_def)

lemma registry_inv_open: "registry_inv s \<Longrightarrow> registry_inv (open_stream c s)"
  by (auto simp: registry_inv_def open_stream_def split: if_splits)

lemma registry_inv_close:
  assumes "registry_inv s" "chanOwner s n = Some c"
  shows "registry_inv (close_stream n c s)"
  using assms by (auto simp: registry_inv_def close_stream_def split: if_splits)

lemma registry_inv_buf:
  "registry_inv s \<Longrightarrow> n < nextChan s \<Longrightarrow> length b \<le> chan_capacity \<Longrightarrow>
    registry_inv (s\<lparr>chanBuf := (chanBuf s)(n := b)\<rparr>)"
  by (auto simp: registry_inv_def)

text \<open>A broadcast appends the event to every registered channel that has room.\<close>

definition after_broadcast :: "event \<Rightarrow> nat set \<Rightarrow> registry \<Rightarrow> registry" where
  "after_broadcast ev ns s =
     s\<lparr>chanBuf := (\<lambda>n. if n \<in> ns \<and> length (chanBuf s n) < chan_capacity
                         then chanBuf s n @ [ev] else chanBuf s n)\<rparr>"

lemma broadcast_loop_effect:
  "distinct (map snd cs) \<Longrightarrow> \<forall>p \<in> set cs. \<not> chanClosed s (snd p) \<Longrightarrow>
    broadcast_loop ev cs s = Some (after_broadcast ev (snd ` set cs) s)"
proof (induction ev cs s rule: broadcast_loop.induct)
  case (1 ev s)
  then show ?case by (simp add: after_broadcast_def)
next
  case (2 ev c n cs s)
  show ?case
  proof (cases "length (chanBuf s n) < chan_capacity")
    case True
    let ?s = "s\<lparr>chanBuf := (chanBuf s)(n := chanBuf s n @ [ev])\<rparr>"
    have "broadcast_loop ev cs ?s = Some (after_broadcast ev (snd ` set cs) ?s)"
      using 2 True by simp
    moreover have "after_broadcast ev (snd ` set cs) ?s = after_broadcast ev (snd ` set ((c, n) # cs)) s"
      using "2.prems"(1) True by (auto simp: after_broadcast_def fun_eq_iff intro!: registry.equality)
    ultimately show ?thesis using "2.prems" True by simp
  next
    case False
    moreover have "after_broadcast ev (snd ` set cs) s = after_broadcast ev (snd ` set ((c, n) # cs)) s"
      using False by (auto simp: after_broadcast_def fun_eq_iff intro!: registry.equality)
    ultimately show ?thesis using 2 by simp
  qed
qed

definition registered :: "registry \<Rightarrow> nat set" where
  "registered s = snd ` set (subscribers s)"

lemma registry_inv_channels:
  assumes "registry_inv s"
  shows "distinct (map snd (subscribers s))" "\<forall>p \<in> set (subscribers s). \<not> chanClosed s (snd p)"
proof -
  have keys: "distinct (map fst (subscribers s))" using assms by (simp add: registry_inv_def gm_wf_distinct)
  have own: "chanOwner s n = Some c" if "(c, n) \<in> set (subscribers s)" for c n
    using assms that keys by (simp add: registry_inv_def)
  then show "\<forall>p \<in> set (subscribers s). \<not> chanClosed s (snd p)"
    using assms by (fastforce simp: registry_inv_def)
  have "inj_on snd (set (subscribers s))"
  proof (rule inj_onI)
    fix x y assume xy: "x \<in> set (subscribers s)" "y \<in> set (subscribers s)" "snd x = snd y"
    obtain c d n where "x = (c, n)" "y = (d, n)" using xy(3) by (metis prod.collapse)
    then show "x = y" using own [of c n] own [of d n] xy(1,2) by simp
  qed
  then show "distinct (map snd (subscribers s))"
    using keys by (simp add: distinct_map)
qed

lemma broadcastEvent_effect:
  "registry_inv s \<Longrightarrow> broadcastEvent ev s = Some (after_broadcast ev (registered s) s)"
  using broadcast_loop_effect [OF registry_inv_channels] by (simp add: broadcastEvent_def registered_def)

lemma registry_inv_after_broadcast:
  assumes "registry_inv s"
  shows "registry_inv (after_broadcast ev (registered s) s)"
proof -
  have "n < nextChan s" if mem: "n \<in> registered s" for n
  proof -
    obtain x where x: "x \<in> set (subscribers s)" "n = snd x" using mem unfolding registered_def by blast
    then have "map_of (subscribers s) (fst x) = Some n"
      using assms by (simp add: registry_inv_def gm_wf_distinct)
    then have "chanOwner s n = Some (fst x)" using assms by (simp add: registry_inv_def)
    then show ?thesis using assms by (simp add: registry_inv_def)
  qed
  then have "\<forall>n. nextChan s \<le> n \<longrightarrow> n \<notin> registered s" by (meson leD)
  then show ?thesis using assms by (auto simp: registry_inv_def after_broadcast_def)
qed

lemma registry_inv_step:
  assumes "registry_inv s" "bus_step admit s a t"
  shows "registry_inv t"
  using assms(2)
proof (cases rule: bus_step.cases)
  case (deliver n c ev evs)
  then have n: "n < nextChan s" and len: "length evs \<le> chan_capacity"
    using assms(1) unfolding registry_inv_def by (metis, metis Suc_leD length_Cons)
  have "registry_inv (s\<lparr>chanBuf := (chanBuf s)(n := evs)\<rparr>)"
    by (rule registry_inv_buf [OF assms(1) n len])
  then show ?thesis using n by (auto simp: deliver registry_inv_def)
next
  case (send_error n c ev evs)
  then have n: "n < nextChan s" and len: "length evs \<le> chan_capacity"
    using assms(1) unfolding registry_inv_def by (metis, metis Suc_leD length_Cons)
  have "registry_inv (s\<lparr>chanBuf := (chanBuf s)(n := evs)\<rparr>)"
    by (rule registry_inv_buf [OF assms(1) n len])
  then show ?thesis unfolding send_error by (rule registry_inv_close) (simp add: send_error)
next
  case (broadcast ev)
  then have "t = after_broadcast ev (registered s) s"
    using broadcastEvent_effect [OF assms(1)] by simp
  then show ?thesis using registry_inv_after_broadcast [OF assms(1)] by simp
qed (use assms(1) registry_inv_open registry_inv_close in simp_all)

lemma registry_inv_run: "bus_run admit s as t \<Longrightarrow> registry_inv s \<Longrightarrow> registry_inv t"
  by (induction rule: bus_run.induct) (auto intro: registry_inv_step)

section \<open>What every stream receives\<close>

text \<open>
  The events sent on a stream followed by those waiting in its channel are some of the events
  broadcast, in their order and none twice.
\<close>

definition received :: "registry \<Rightarrow> nat \<Rightarrow> event list" where
  "received s n = streamSent s n @ chanBuf s n"

lemmas [bus_simps] = received_def open_stream_def new_registry_def

lemma received_after_broadcast:
  "received (after_broadcast ev ns s) n =
    received s n @ (if n \<in> ns \<and> length (chanBuf s n) < chan_capacity then [ev] else [])"
  by (simp add: received_def after_broadcast_def)

lemma received_step:
  assumes "registry_inv s" "bus_step admit s a t"
  shows "received t n = received s n \<or>
    (\<exists>ev. a = SendError n \<and> received s n = streamSent s n @ ev # chanBuf t n \<and> streamSent t n = streamSent s n) \<or>
    (\<exists>ev. a = Broadcast ev \<and> received t n = received s n @ [ev])"
  using assms(2)
proof (cases rule: bus_step.cases)
  case (broadcast ev)
  then have "t = after_broadcast ev (registered s) s"
    using broadcastEvent_effect [OF assms(1)] by simp
  then show ?thesis by (simp add: broadcast received_after_broadcast)
qed (auto simp: received_def open_stream_def close_stream_def)

lemma received_subseq_run:
  assumes "bus_run admit s as t" "registry_inv s" "subseq (received s n) before"
  shows "subseq (received t n) (before @ broadcasts as)"
  using assms
proof (induction arbitrary: before rule: bus_run.induct)
  case (more' s a t as u)
  have inv: "registry_inv t" by (rule registry_inv_step [OF more'.prems(1) more'.hyps(1)])
  have "subseq (received t n) (before @ broadcasts [a])"
    using received_step [OF more'.prems(1) more'.hyps(1), of n]
  proof (elim disjE exE conjE)
    assume "received t n = received s n"
    then show ?thesis using more'.prems(2) by (simp add: list_emb_prefix)
  next
    fix ev assume *: "received s n = streamSent s n @ ev # chanBuf t n" "streamSent t n = streamSent s n"
    then have "subseq (received t n) (received s n)"
      by (simp add: received_def subseq_append' list_emb_Cons)
    then have "subseq (received t n) before" using more'.prems(2) subseq_order.trans by blast
    then show ?thesis by (rule list_emb_prefix)
  next
    fix ev assume "a = Broadcast ev" "received t n = received s n @ [ev]"
    then show ?thesis using more'.prems(2) by (simp add: list_emb_append_mono)
  qed
  then have "subseq (received u n) ((before @ broadcasts [a]) @ broadcasts as)"
    by (rule more'.IH [OF inv])
  moreover have "broadcasts (a # as) = broadcasts [a] @ broadcasts as" by (cases a) simp_all
  ultimately show ?case by simp
qed simp

section \<open>The two registries\<close>

text \<open>
  \<open>bus_registry\<close> collects what holds whatever subscriptions are admitted.
  \<open>exclusive_registry\<close> adds the law of the memory bus, that an id in use is not admitted a
  second time; then every running stream is the registered one.
\<close>

locale bus_registry =
  fixes admit :: "string \<Rightarrow> registry \<Rightarrow> err option"
begin

lemma run_inv: "bus_run admit new_registry as s \<Longrightarrow> registry_inv s"
  using registry_inv_run registry_inv_new by blast

lemma never_panics: "bus_run admit new_registry as s \<Longrightarrow> broadcastEvent ev s \<noteq> None"
  using broadcastEvent_effect [OF run_inv] by simp

lemma never_overfull: "bus_run admit new_registry as s \<Longrightarrow> length (chanBuf s n) \<le> chan_capacity"
  using run_inv by (simp add: registry_inv_def)

lemma in_order: "bus_run admit new_registry as s \<Longrightarrow> subseq (received s n) (broadcasts as)"
  using received_subseq_run [of admit new_registry as s n "[]"] registry_inv_new
  by (simp add: received_def new_registry_def)

end

definition live_registered :: "registry \<Rightarrow> bool" where
  "live_registered s \<longleftrightarrow> (\<forall>n c. chanOwner s n = Some c \<longrightarrow> map_of (subscribers s) c = Some n)"

lemma live_close:
  assumes "live_registered s" "chanOwner s n = Some c"
  shows "live_registered (close_stream n c s)"
  unfolding live_registered_def
proof (intro allI impI)
  fix m d assume m: "chanOwner (close_stream n c s) m = Some d"
  then have "m \<noteq> n" "chanOwner s m = Some d" by (auto simp: close_stream_def split: if_splits)
  moreover then have "map_of (subscribers s) d = Some m" using assms(1) by (simp add: live_registered_def)
  moreover have "map_of (subscribers s) c = Some n" using assms by (simp add: live_registered_def)
  ultimately show "map_of (subscribers (close_stream n c s)) d = Some m"
    by (auto simp: close_stream_def)
qed

text \<open>Channel numbers are never used again: a stream that has ended stays ended.\<close>

lemma owner_step:
  assumes "bus_step admit s a t" "registry_inv s" "n < nextChan s"
  shows "nextChan s \<le> nextChan t \<and> (chanOwner t n = Some c \<longrightarrow> chanOwner s n = Some c)"
  using assms(1)
proof (cases rule: bus_step.cases)
  case (broadcast ev)
  then show ?thesis using broadcastEvent_effect [OF assms(2)] by (auto simp: after_broadcast_def)
qed (use assms(3) in \<open>auto simp: open_stream_def close_stream_def\<close>)

lemma owner_run:
  "bus_run admit s as t \<Longrightarrow> registry_inv s \<Longrightarrow> n < nextChan s \<Longrightarrow> chanOwner t n = Some c \<Longrightarrow>
    chanOwner s n = Some c"
proof (induction rule: bus_run.induct)
  case (more' s a t as u)
  then show ?case
    using owner_step [OF more'.hyps(1) more'.prems(1,2)] registry_inv_step [OF more'.prems(1) more'.hyps(1)]
    by (meson order_less_le_trans)
qed simp

locale exclusive_registry = bus_registry +
  assumes admits_new: "admit c s = None \<Longrightarrow> map_of (subscribers s) c = None"
begin

lemma live_step:
  assumes "bus_step admit s a t" "registry_inv s" "live_registered s"
  shows "live_registered t"
  using assms(1)
proof (cases rule: bus_step.cases)
  case (subscribed c)
  then show ?thesis
    using assms(3) admits_new [of c s]
    by (auto simp: live_registered_def open_stream_def)
next
  case (disconnect n c)
  then show ?thesis using live_close assms(3) by simp
next
  case (send_error n c ev evs)
  have "live_registered (s\<lparr>chanBuf := (chanBuf s)(n := evs)\<rparr>)"
    using assms(3) by (simp add: live_registered_def)
  then show ?thesis using live_close send_error by simp
next
  case (broadcast ev)
  then show ?thesis
    using assms(3) broadcastEvent_effect [OF assms(2)] by (auto simp: live_registered_def after_broadcast_def)
qed (use assms(3) in \<open>simp_all add: live_registered_def\<close>)

lemma live_run: "bus_run admit s as t \<Longrightarrow> registry_inv s \<Longrightarrow> live_registered s \<Longrightarrow> live_registered t"
  by (induction rule: bus_run.induct) (auto intro: live_step registry_inv_step)

lemma reachable_live: "bus_run admit new_registry as s \<Longrightarrow> live_registered s"
  by (erule live_run [OF _ registry_inv_new]) (simp add: live_registered_def new_registry_def)

text \<open>A broadcast reaches every running stream that has room.\<close>

lemma reaches_live:
  assumes "registry_inv s" "live_registered s" "chanOwner s n = Some c" "length (chanBuf s n) < chan_capacity"
    and "broadcastEvent ev s = Some t"
  shows "received t n = received s n @ [ev]"
proof -
  have "map_of (subscribers s) c = Some n" using assms(2,3) by (simp add: live_registered_def)
  then have "n \<in> registered s" unfolding registered_def by (force dest: map_of_SomeD)
  then show ?thesis
    using assms(4,5) broadcastEvent_effect [OF assms(1), of ev] by (auto simp: received_after_broadcast)
qed

text \<open>A stream that runs to the end of a run without overflow gets every event of the run.\<close>

lemma gets_all:
  assumes "bus_run admit s as t" "registry_inv s" "live_registered s" "chanOwner t n = Some c" "n < nextChan s"
    and "length (chanBuf s n) + length (broadcasts as) \<le> chan_capacity"
  shows "received t n = received s n @ broadcasts as"
  using assms
proof (induction rule: bus_run.induct)
  case (more' s a t as u)
  note step = more'.hyps(1) and inv = more'.prems(1) and live = more'.prems(2)
  have inv': "registry_inv t" by (rule registry_inv_step [OF inv step])
  have live': "live_registered t" by (rule live_step [OF step inv live])
  have n': "n < nextChan t" using owner_step [OF step inv more'.prems(4), of c] more'.prems(4) by simp
  have own': "chanOwner t n = Some c" by (rule owner_run [OF more'.hyps(2) inv' n' more'.prems(3)])
  have own: "chanOwner s n = Some c" using owner_step [OF step inv more'.prems(4), of c] own' by blast
  have "received t n = received s n @ broadcasts [a] \<and>
      length (chanBuf t n) \<le> length (chanBuf s n) + length (broadcasts [a])"
    using step
  proof (cases rule: bus_step.cases)
    case (broadcast ev)
    have room: "length (chanBuf s n) < chan_capacity" using more'.prems(5) broadcast by simp
    have "received t n = received s n @ [ev]" by (rule reaches_live [OF inv live own room broadcast(2)])
    moreover have "length (chanBuf t n) \<le> Suc (length (chanBuf s n))"
      using broadcastEvent_effect [OF inv, of ev] broadcast by (auto simp: after_broadcast_def)
    ultimately show ?thesis by (simp add: broadcast)
  next
    case (send_error m d ev evs)
    then have "m \<noteq> n" using own' by (auto simp: close_stream_def)
    then show ?thesis by (simp add: send_error received_def close_stream_def)
  qed (auto simp: received_def open_stream_def close_stream_def)
  moreover have "broadcasts (a # as) = broadcasts [a] @ broadcasts as" by (cases a) simp_all
  ultimately show ?case
    using more'.IH [OF inv' live' more'.prems(3) n'] more'.prems(5) by simp
qed simp

end

interpretation srv: bus_registry serverAdmit .

interpretation mem: exclusive_registry memAdmit
  by unfold_locales (auto simp: memAdmit_def split: if_splits option.splits)

section \<open>Properties\<close>

text \<open>
  C23: however subscriptions, deliveries, failed sends, disconnects and broadcasts of the bus
  server interleave, no broadcast ever sends on a closed channel (which would bring the
  server down), no channel holds more than its 100 events, and every stream receives events
  in the order they were broadcast and none twice.
\<close>

theorem server_streams_safe:
  assumes "bus_run serverAdmit new_registry as s"
  shows "broadcastEvent ev s \<noteq> None \<and> length (chanBuf s n) \<le> 100 \<and> subseq (received s n) (broadcasts as)"
  using srv.never_panics [OF assms] srv.never_overfull [OF assms] srv.in_order [OF assms]
  by (simp add: chan_capacity_def)

definition note_event :: event where
  "note_event = empty_event\<lparr>evId := ''n1''\<rparr>"

text \<open>A run with one client that is sent one event, on either registry.\<close>

definition one_stream_end :: registry where
  "one_stream_end =
     (let s = open_stream ''a'' new_registry in
      s\<lparr>chanBuf := (chanBuf s)(0 := [], 0 := []), streamSent := (streamSent s)(0 := [note_event])\<rparr>)"

lemma one_stream_run:
  assumes "admit ''a'' new_registry = None"
  shows "bus_run admit new_registry [Subscribe ''a'', Broadcast note_event, Deliver 0] one_stream_end"
proof -
  let ?s1 = "open_stream ''a'' new_registry"
  let ?s2 = "?s1\<lparr>chanBuf := (chanBuf ?s1)(0 := [note_event])\<rparr>"
  have s1: "bus_step admit new_registry (Subscribe ''a'') ?s1" using assms by (simp add: bus_step.subscribed)
  have s2: "bus_step admit ?s1 (Broadcast note_event) ?s2"
    by (rule bus_step.broadcast)
       (simp add: broadcastEvent_def bus_simps chan_capacity_def)
  have s3: "bus_step admit ?s2 (Deliver 0) one_stream_end"
    by (simp add: bus_step_simps bus_simps one_stream_end_def)
  show ?thesis by (rule bus_run.more' [OF s1 bus_run.more' [OF s2 bus_run.more' [OF s3 bus_run.done']]])
qed

theorem server_streams_safe_witness:
  "\<exists>s. bus_run serverAdmit new_registry [Subscribe ''a'', Broadcast note_event, Deliver 0] s \<and>
     subscriberCount s = 1 \<and> received s 0 = [note_event] \<and>
     broadcastEvent note_event s \<noteq> None \<and> subseq (received s 0) [note_event]"
proof -
  have run: "bus_run serverAdmit new_registry [Subscribe ''a'', Broadcast note_event, Deliver 0] one_stream_end"
    by (rule one_stream_run) (simp add: serverAdmit_def)
  show ?thesis
    using run server_streams_safe [OF run, of note_event 0]
    by (intro exI [of _ one_stream_end])
       (simp add: bus_simps one_stream_end_def subscriberCount_def)
qed

text \<open>
  C26: on the memory bus a stream that is running at the end of a run gets every event that was
  published during the run, in order, as long as its channel cannot overflow.
\<close>

theorem memory_bus_delivers_all:
  assumes "bus_run memAdmit new_registry as s" "bus_run memAdmit s bs t"
    and "n < nextChan s" "chanOwner t n = Some c"
    and "length (chanBuf s n) + length (broadcasts bs) \<le> 100"
  shows "received t n = received s n @ broadcasts bs"
  using mem.gets_all [OF assms(2) mem.run_inv [OF assms(1)] mem.reachable_live [OF assms(1)] assms(4,3)] assms(5)
  by (simp add: chan_capacity_def)

lemma mem_stream_run:
  "bus_run memAdmit new_registry [Subscribe ''a'', Broadcast note_event, Deliver 0] one_stream_end"
  by (rule one_stream_run) (simp add: memAdmit_def new_registry_def)

theorem memory_bus_delivers_all_witness:
  "\<exists>t. bus_run memAdmit one_stream_end [Broadcast note_event] t \<and>
     received t 0 = [note_event] @ [note_event]"
proof -
  let ?t = "after_broadcast note_event (registered one_stream_end) one_stream_end"
  have "registry_inv one_stream_end" by (rule mem.run_inv [OF mem_stream_run])
  then have "bus_step memAdmit one_stream_end (Broadcast note_event) ?t"
    by (intro bus_step.broadcast broadcastEvent_effect)
  then have run: "bus_run memAdmit one_stream_end [Broadcast note_event] ?t"
    by (rule bus_run.more' [OF _ bus_run.done'])
  have "received ?t 0 = received one_stream_end 0 @ broadcasts [Broadcast note_event]"
    by (rule memory_bus_delivers_all [OF mem_stream_run run, of 0 "''a''"])
       (simp_all add: bus_simps one_stream_end_def after_broadcast_def)
  then show ?thesis
    using run by (intro exI [of _ ?t])
      (simp add: bus_simps one_stream_end_def)
qed

text \<open>
  C39: the bus server admits an id that is in use, and the memory bus does not. When the client
  then reconnects under its id and its old stream ends, the cleanup of the old stream
  removes the registration of the new one: the new stream runs on, but no event reaches it
  any more.
\<close>

theorem reconnect_loses_registration:
  assumes "bus_run serverAdmit new_registry as s" "chanOwner s n = Some c"
  shows "\<exists>t. bus_run serverAdmit s [Subscribe c, Disconnect n] t \<and>
    chanOwner t (nextChan s) = Some c \<and> map_of (subscribers t) c = None \<and>
    (\<forall>ev u. broadcastEvent ev t = Some u \<longrightarrow> received u (nextChan s) = received t (nextChan s))"
proof -
  have inv: "registry_inv s" by (rule srv.run_inv [OF assms(1)])
  then have n: "n < nextChan s" using assms(2) by (simp add: registry_inv_def)
  let ?s1 = "open_stream c s"
  let ?t = "close_stream n c ?s1"
  have s1: "bus_step serverAdmit s (Subscribe c) ?s1" by (rule bus_step.subscribed) (simp add: serverAdmit_def)
  have own: "chanOwner ?s1 n = Some c" using assms(2) n by (simp add: open_stream_def)
  have s2: "bus_step serverAdmit ?s1 (Disconnect n) ?t" by (rule bus_step.disconnect [OF own])
  have run: "bus_run serverAdmit s [Subscribe c, Disconnect n] ?t"
    using s1 s2 by (blast intro: bus_run.intros)
  have invt: "registry_inv ?t" by (rule registry_inv_run [OF run inv])
  have live: "chanOwner ?t (nextChan s) = Some c" using n by (simp add: open_stream_def close_stream_def)
  have gone: "map_of (subscribers ?t) c = None" by (simp add: close_stream_def)
  have "nextChan s \<notin> registered ?t"
  proof
    assume "nextChan s \<in> registered ?t"
    then obtain x where x: "x \<in> set (subscribers ?t)" "nextChan s = snd x" unfolding registered_def by blast
    then have "map_of (subscribers ?t) (fst x) = Some (nextChan s)"
      using invt by (simp add: registry_inv_def gm_wf_distinct)
    then have "chanOwner ?t (nextChan s) = Some (fst x)" using invt by (simp add: registry_inv_def)
    then show False using live gone x invt \<open>map_of (subscribers ?t) (fst x) = _\<close> by simp
  qed
  then show ?thesis
    using run live gone broadcastEvent_effect [OF invt] received_after_broadcast
    by (intro exI [of _ ?t]) auto
qed

theorem reconnect_loses_registration_witness:
  "\<exists>s t. bus_run serverAdmit new_registry [Subscribe ''a'', Broadcast note_event, Deliver 0] s \<and>
     bus_run serverAdmit s [Subscribe ''a'', Disconnect 0] t \<and>
     chanOwner t 1 = Some ''a'' \<and> map_of (subscribers t) ''a'' = None"
proof -
  have run: "bus_run serverAdmit new_registry [Subscribe ''a'', Broadcast note_event, Deliver 0] one_stream_end"
    by (rule one_stream_run) (simp add: serverAdmit_def)
  have "chanOwner one_stream_end 0 = Some ''a''" "nextChan one_stream_end = 1"
    by (simp_all add: bus_simps one_stream_end_def)
  then show ?thesis
    using run reconnect_loses_registration [OF run, of 0 "''a''"] by auto
qed

end
