(* ===== verification/Server.thy ===== *)
theory Server
  imports Policy Rag Subscriptions
begin

text \<open>
  The bus server (\<open>internal/bus/server.go\<close> and \<open>vectorizeEvent\<close> of
  \<open>internal/bus/vectorize.go\<close>): its state, \<open>Publish\<close>, \<open>Search\<close> and the background
  vectorization, and the machine in which the handlers and the background tasks of the server
  run concurrently.

  \<open>Publish\<close> is written in its two halves, \<open>accept_event\<close> up to the start of the background
  task and \<open>answer_event\<close> from the routing on: a task runs at any time after the first, so also
  between the two. Log lines are left out. The services the server calls (embedding, compute
  providers, \<open>uuid\<close>, the clock, the rate limiter) are parameters; each use takes the next
  number of the counter \<open>serverCalls\<close>, so their answers may change from call to call.
\<close>

section \<open>State\<close>

text \<open>\<open>CreateEmbedding\<close> of an embedding provider and \<open>Execute\<close> of a compute provider.\<close>

type_synonym embedder = "nat \<Rightarrow> string \<Rightarrow> err + f32 list"
type_synonym compute = "nat \<Rightarrow> gval gomap option \<Rightarrow> err + string"

record 'g world =
  wEnv :: env
  wGraph :: "'g hnsw"
  wSqlite :: sqlite
  wPb :: pb
  wRagVar :: string
  wLimiter :: "nat \<Rightarrow> bool"
  wNow :: "nat \<Rightarrow> int"
  wUuid :: "nat \<Rightarrow> string"

text \<open>
  The fields of \<open>Server\<close>. \<open>vectorizing\<close> holds the events of the background tasks that the wait
  group counts; the lock and the wait group themselves have no state of their own here.
\<close>

record 'g server =
  policyEngine :: engine
  serverProviders :: "compute gomap"
  serverStorage :: "'g provider"
  embeddingProvider :: "embedder option"
  serverStreams :: registry
  serverCache :: embeddingCache
  vectorizing :: "event list"
  serverCalls :: nat

definition NewServer :: "engine \<Rightarrow> compute gomap \<Rightarrow> 'g provider \<Rightarrow> 'g server" where
  "NewServer pe ps p =
     \<lparr>policyEngine = pe, serverProviders = ps, serverStorage = p, embeddingProvider = None,
      serverStreams = new_registry, serverCache = newEmbeddingCache 1000, vectorizing = [],
      serverCalls = 0\<rparr>"

definition SetEmbeddingProvider :: "embedder option \<Rightarrow> 'g server \<Rightarrow> 'g server" where
  "SetEmbeddingProvider emb s = s\<lparr>embeddingProvider := emb\<rparr>"

definition next_call :: "'g server \<Rightarrow> 'g server" where
  "next_call s = s\<lparr>serverCalls := serverCalls s + 1\<rparr>"

section \<open>Publish\<close>

text \<open>
  The event is stored, and a failure to store it is only logged (\<open>StoreEvent\<close> without an
  embedding never panics, \<open>StoreEvent_no_panic\<close>); a task is started for a fact event.
\<close>

definition accept_event :: "'g world \<Rightarrow> event \<Rightarrow> 'g server \<Rightarrow> 'g server" where
  "accept_event W ev s =
     (let s = s\<lparr>serverStorage := snd (StoreEvent (wEnv W) (wGraph W) (wPb W) ev [] (serverStorage s))\<rparr>
      in case embeddingProvider s of
           None \<Rightarrow> s
         | Some emb \<Rightarrow>
             if IsFactEvent (evType ev) then s\<lparr>vectorizing := vectorizing s @ [ev]\<rparr> else s)"

text \<open>The services \<open>applyRAGEnhancement\<close> uses, as they answer at call \<open>n\<close>.\<close>

definition rag_services :: "'g world \<Rightarrow> embedder \<Rightarrow> nat \<Rightarrow> rag_env" where
  "rag_services W emb n =
     \<lparr>RagEnabled = wRagVar W, LimiterWait = (\<lambda>_. wLimiter W n),
      CreateEmbedding = (\<lambda>_ t. case emb n t of Inl e \<Rightarrow> None | Inr v \<Rightarrow> Some v),
      CacheNow = (\<lambda>_. wNow W n)\<rparr>"

definition enhance ::
    "'g world \<Rightarrow> string \<Rightarrow> event \<Rightarrow> gval gomap option \<Rightarrow> 'g server \<Rightarrow> gval gomap option \<times> 'g server" where
  "enhance W providerName ev requestData s =
     (case embeddingProvider s of
        None \<Rightarrow> (requestData, s)
      | Some emb \<Rightarrow>
          if providerName = ''openai-gpt4''
          then (case applyRAGEnhancement (rag_services W emb (serverCalls s)) (wEnv W) (wGraph W)
                       (wSqlite W) (wPb W) ev requestData (serverCache s) (serverStorage s) of
                  (m, c, p) \<Rightarrow> (m, next_call (s\<lparr>serverCache := c, serverStorage := p\<rparr>)))
          else (requestData, s))"

text \<open>\<open>timestamppb.New\<close> of a time in nanoseconds.\<close>

definition TimestampOf :: "int \<Rightarrow> timestamp" where
  "TimestampOf ns = \<lparr>tsSeconds = ns div 1000000000, tsNanos = ns mod 1000000000\<rparr>"

definition response_data :: "string \<Rightarrow> string \<Rightarrow> string \<Rightarrow> gval gomap" where
  "response_data eid providerName result =
     gm_of [(''original_event_id'', GStr eid), (''provider'', GStr providerName), (''response'', GStr result)]"

definition response_event :: "'g world \<Rightarrow> nat \<Rightarrow> event \<Rightarrow> string \<Rightarrow> string \<Rightarrow> event" where
  "response_event W n ev providerName result =
     empty_event\<lparr>evId := wUuid W n, evType := ''pcas.response.v1'', evSource := ''pcas-server'',
       evSpecversion := ''1.0'', evTime := Some (TimestampOf (wNow W n)),
       evSubject := ''response-to-'' @ evId ev, evTraceId := evTraceId ev, evCorrelationId := evId ev,
       evData := AnyOfValue (wPb W) (GObj (response_data (evId ev) providerName result))\<rparr>"

text \<open>The response is stored, a failure is only logged, and broadcast.\<close>

definition send_response :: "'g world \<Rightarrow> event \<Rightarrow> 'g server \<Rightarrow> unit res \<times> 'g server" where
  "send_response W resp s =
     (let s = s\<lparr>serverStorage := snd (StoreEvent (wEnv W) (wGraph W) (wPb W) resp [] (serverStorage s))\<rparr>
      in case broadcastEvent resp (serverStreams s) of
           None \<Rightarrow> (Panics, s)
         | Some t \<Rightarrow> (Ok (), s\<lparr>serverStreams := t\<rparr>))"

definition answer_event :: "'g world \<Rightarrow> event \<Rightarrow> 'g server \<Rightarrow> unit res \<times> 'g server" where
  "answer_event W ev s =
     (let requestData = event_object (wPb W) ev;
          providerName = fst (SelectProvider (policyEngine s) ev)
      in if providerName = [] then (Ok (), s)
         else case map_of (serverProviders s) providerName of
           None \<Rightarrow> (Fail (Errorf (''provider not found: '' @ providerName)), s)
         | Some execute \<Rightarrow>
             (case enhance W providerName ev requestData s of
                (requestData, s) \<Rightarrow>
                  (case execute (serverCalls s) requestData of
                     Inl e \<Rightarrow> (Fail (Wrap ''provider execution failed'' e), next_call s)
                   | Inr result \<Rightarrow>
                       send_response W (response_event W (serverCalls s) ev providerName result) (next_call s))))"

definition Publish :: "'g world \<Rightarrow> event \<Rightarrow> 'g server \<Rightarrow> unit res \<times> 'g server" where
  "Publish W ev s = answer_event W ev (accept_event W ev s)"

section \<open>Background vectorization\<close>

text \<open>
  One background task. The metadata map the code fills is never used. A panic of the graph
  library is not recovered here and takes the process down. The code starts tasks only with an
  embedding provider set; calling a nil provider panics.
\<close>

definition vectorizeEvent :: "'g world \<Rightarrow> event \<Rightarrow> 'g server \<Rightarrow> unit res \<times> 'g server" where
  "vectorizeEvent W ev s =
     (let textContent = extractTextContent (wPb W) ev
      in if textContent = [] then (Ok (), s)
         else case embeddingProvider s of
           None \<Rightarrow> (Panics, s)
         | Some emb \<Rightarrow>
             (case emb (serverCalls s) textContent of
                Inl e \<Rightarrow> (Ok (), next_call s)
              | Inr vec \<Rightarrow>
                  (case AddEmbeddingToEvent (wEnv W) (wGraph W) (evId ev) vec (serverStorage s) of
                     (Panics, p) \<Rightarrow> (Panics, next_call (s\<lparr>serverStorage := p\<rparr>))
                   | (_, p) \<Rightarrow> (Ok (), next_call (s\<lparr>serverStorage := p\<rparr>)))))"

text \<open>\<open>WaitForVectorization\<close> returns when every task is done; here in the order they started.\<close>

fun run_tasks :: "'g world \<Rightarrow> event list \<Rightarrow> 'g server \<Rightarrow> unit res \<times> 'g server" where
  "run_tasks W [] s = (Ok (), s)"
| "run_tasks W (ev # evs) s =
     (case vectorizeEvent W ev s of (Ok u, s) \<Rightarrow> run_tasks W evs s | r \<Rightarrow> r)"

definition WaitForVectorization :: "'g world \<Rightarrow> 'g server \<Rightarrow> unit res \<times> 'g server" where
  "WaitForVectorization W s = run_tasks W (vectorizing s) (s\<lparr>vectorizing := []\<rparr>)"

section \<open>Search\<close>

record search_request =
  QueryText :: string
  TopK :: "32 word"
  SearchUserId :: string
  AttributeFilters :: "string gomap"

definition search_filter :: "search_request \<Rightarrow> query_filter option" where
  "search_filter req =
     (if SearchUserId req = [] \<and> AttributeFilters req = [] then None
      else Some \<lparr>flUserID = (if SearchUserId req \<noteq> [] then Some (SearchUserId req) else None),
             flSessionID = None, flEventTypes = [], flTimeFrom = None, flTimeTo = None,
             flAttributes = AttributeFilters req\<rparr>)"

definition search_topK :: "search_request \<Rightarrow> int" where
  "search_topK req = (if sint (TopK req) \<le> 0 then 5 else sint (TopK req))"

text \<open>An event that cannot be read is left out, together with its score.\<close>

fun fetch_results ::
    "env \<Rightarrow> pb \<Rightarrow> query_result list \<Rightarrow> 'g provider \<Rightarrow> (event \<times> f32) list \<times> 'g provider" where
  "fetch_results E P [] p = ([], p)"
| "fetch_results E P (r # rs) p =
     (case GetEventByID E P (qrID r) p of
        (Ok ev, p) \<Rightarrow> (case fetch_results E P rs p of (xs, p) \<Rightarrow> ((ev, qrScore r) # xs, p))
      | (_, p) \<Rightarrow> fetch_results E P rs p)"

definition Search ::
    "'g world \<Rightarrow> search_request \<Rightarrow> 'g server \<Rightarrow> (event list \<times> f32 list) res \<times> 'g server" where
  "Search W req s =
     (if QueryText req = [] then (Fail (Errorf ''query_text cannot be empty''), s)
      else case embeddingProvider s of
        None \<Rightarrow> (Fail (Errorf (''vector search is not available on the server. Please ensure the PCAS '' @
          ''server was started with the OPENAI_API_KEY environment variable set'')), s)
      | Some emb \<Rightarrow>
          (case emb (serverCalls s) (QueryText req) of
             Inl e \<Rightarrow> (Fail (Wrap ''failed to create query embedding'' e), next_call s)
           | Inr queryEmbedding \<Rightarrow>
               (case QuerySimilar (wEnv W) (wGraph W) (wSqlite W) queryEmbedding (search_topK req)
                       (search_filter req) (serverStorage s) of
                  (Ok rs, p) \<Rightarrow>
                    (case fetch_results (wEnv W) (wPb W) rs p of
                       (xs, p) \<Rightarrow> (Ok (map fst xs, map snd xs), next_call (s\<lparr>serverStorage := p\<rparr>)))
                | (Fail e, p) \<Rightarrow>
                    (Fail (Wrap ''failed to query similar events'' e), next_call (s\<lparr>serverStorage := p\<rparr>))
                | (Panics, p) \<Rightarrow> (Panics, next_call (s\<lparr>serverStorage := p\<rparr>)))))"

end
