(* ===== verification/Machine.thy ===== *)
theory Machine
  imports Main
begin

text \<open>
  Runs of labelled transition systems: the sequence of actions is kept, so that theorems can
  speak of what happened in a run. \<open>machine\<close> is the contract of a step relation that keeps an
  invariant; each concurrent component of the bus interprets it.
\<close>

inductive runs :: "('s \<Rightarrow> 'a \<Rightarrow> 's \<Rightarrow> bool) \<Rightarrow> 's \<Rightarrow> 'a list \<Rightarrow> 's \<Rightarrow> bool" for step where
  stop: "runs step s [] s"
| go: "step s a t \<Longrightarrow> runs step t as u \<Longrightarrow> runs step s (a # as) u"

inductive_cases runs_NilE: "runs step s [] t"
inductive_cases runs_ConsE: "runs step s (a # as) t"

lemma runs_append: "runs step s as t \<Longrightarrow> runs step t bs u \<Longrightarrow> runs step s (as @ bs) u"
  by (induction rule: runs.induct) (auto intro: runs.intros)

lemma runs_snoc: "runs step s as t \<Longrightarrow> step t a u \<Longrightarrow> runs step s (as @ [a]) u"
  by (rule runs_append) (auto intro: runs.intros)

lemma runs_one: "step s a t \<Longrightarrow> runs step s [a] t"
  by (auto intro: runs.intros)

text \<open>Induction at the end of a run, for invariants that speak of the actions so far.\<close>

lemma runs_rev_induct [consumes 1, case_names stop snoc]:
  assumes "runs step s as t" "Q [] s"
    and "\<And>as t a u. runs step s as t \<Longrightarrow> Q as t \<Longrightarrow> step t a u \<Longrightarrow> Q (as @ [a]) u"
  shows "Q as t"
proof -
  have "Q (bs @ as) t" if "runs step v as t" "runs step s bs v" "Q bs v" for bs v
    using that
  proof (induction arbitrary: bs rule: runs.induct)
    case (go v a w as u)
    have "Q ((bs @ [a]) @ as) u"
      by (rule go.IH [OF runs_snoc [OF go.prems(1) go.hyps(1)] assms(3) [OF go.prems go.hyps(1)]])
    then show ?case by simp
  qed simp
  from this [OF assms(1) runs.stop assms(2)] show ?thesis by simp
qed

locale machine =
  fixes step :: "'s \<Rightarrow> 'a \<Rightarrow> 's \<Rightarrow> bool"
    and inv :: "'s \<Rightarrow> bool"
  assumes step_inv: "inv s \<Longrightarrow> step s a t \<Longrightarrow> inv t"
begin

lemma run_inv: "runs step s as t \<Longrightarrow> inv s \<Longrightarrow> inv t"
  by (induction rule: runs.induct) (auto intro: step_inv)

text \<open>What each step keeps under the invariant, each run keeps.\<close>

lemma run_keeps:
  assumes "runs step s as t" "inv s" "Q s"
    and "\<And>s a t. inv s \<Longrightarrow> Q s \<Longrightarrow> step s a t \<Longrightarrow> Q t"
  shows "Q t"
  using assms(1-3) by (induction rule: runs.induct) (auto intro: step_inv assms(4))

end

end
