(* ===== verification/ServerRuns.thy ===== *)
theory ServerRuns
  imports Server Machine
begin

text \<open>
  The bus server as a concurrent program: the calls of the handlers, the background tasks and
  the streams take turns in any order, and \<open>Publish\<close> in two steps. The theory shows what every
  operation keeps, and interprets the machine contract on the steps.
\<close>

section \<open>The machine\<close>

text \<open>
  A state is the server and the events whose \<open>Publish\<close> call is under way. A call that panics
  ends the process, so it is no step.
\<close>

datatype server_action =
    Accept event
  | Answer event "unit res"
  | Vectorize event
  | SearchCall search_request
  | Stream bus_action

type_synonym 'g server_state = "'g server \<times> event list"

inductive server_step :: "'g world \<Rightarrow> 'g server_state \<Rightarrow> server_action \<Rightarrow> 'g server_state \<Rightarrow> bool"
  for W where
  accepted: "event_wf ev \<Longrightarrow> server_step W (s, hs) (Accept ev) (accept_event W ev s, ev # hs)"
| answered: "ev \<in> set hs \<Longrightarrow> answer_event W ev s = (x, t) \<Longrightarrow> x \<noteq> Panics \<Longrightarrow>
    server_step W (s, hs) (Answer ev x) (t, remove1 ev hs)"
| vectorized: "vectorizing s = as @ ev # bs \<Longrightarrow>
    vectorizeEvent W ev (s\<lparr>vectorizing := as @ bs\<rparr>) = (x, t) \<Longrightarrow> x \<noteq> Panics \<Longrightarrow>
    server_step W (s, hs) (Vectorize ev) (t, hs)"
| searched: "filter_plain (search_filter req) \<Longrightarrow> Search W req s = (x, t) \<Longrightarrow> x \<noteq> Panics \<Longrightarrow>
    server_step W (s, hs) (SearchCall req) (t, hs)"
| streamed: "bus_step serverAdmit (serverStreams s) a t \<Longrightarrow> (\<forall>ev. a \<noteq> Broadcast ev) \<Longrightarrow>
    server_step W (s, hs) (Stream a) (s\<lparr>serverStreams := t\<rparr>, hs)"

inductive_cases server_stepE: "server_step W s a t"

text \<open>
  What the server relies on in its surroundings: the contracts of the graph library, the
  protobuf runtime and the database, UTF-8 from \<open>uuid\<close> and a clock within protobuf's range.
\<close>

definition world_ok :: "'g world \<Rightarrow> bool" where
  "world_ok W \<longleftrightarrow>
     hnsw_ok (wGraph W) \<and> pb_json_ok (wPb W) \<and> sqlite_ok (wSqlite W) \<and>
     (\<forall>n. valid_utf8 (wUuid W n) \<and> ts_valid (TimestampOf (wNow W n))) \<and>
     (\<forall>v a. AnyOfValue (wPb W) v = Some a \<longrightarrow> valid_utf8 (TypeUrl a))"

definition server_inv :: "'g world \<Rightarrow> 'g server_state \<Rightarrow> bool" where
  "server_inv W c \<longleftrightarrow>
     storage_inv (wGraph W) (wPb W) (serverStorage (fst c)) \<and> registry_inv (serverStreams (fst c)) \<and>
     cache_inv (serverCache (fst c)) \<and> list_all event_wf (snd c) \<and>
     (\<forall>ev \<in> set (vectorizing (fst c)). IsFactEvent (evType ev))"

section \<open>What each operation does to the parts of the state\<close>

lemma next_call_simps [simp]:
  "policyEngine (next_call s) = policyEngine s" "serverProviders (next_call s) = serverProviders s"
  "serverStorage (next_call s) = serverStorage s" "embeddingProvider (next_call s) = embeddingProvider s"
  "serverStreams (next_call s) = serverStreams s" "serverCache (next_call s) = serverCache s"
  "vectorizing (next_call s) = vectorizing s"
  by (simp_all add: next_call_def)

lemma StoreEvent_no_panic: "fst (StoreEvent E H P ev [] p) \<noteq> Panics"
  by (auto simp: StoreEvent_def split: option.splits prod.splits)

lemma StoreEvent_no_vector [simp]:
  "Edges (snd (StoreEvent E H P ev [] p)) = Edges p"
  "hnswIndex (snd (StoreEvent E H P ev [] p)) = hnswIndex p"
  by (auto simp: StoreEvent_def split: option.splits prod.splits dest: insert_node_Some insert_node_None)

lemma accept_event_parts:
  "serverStorage (accept_event W ev s) =
     snd (StoreEvent (wEnv W) (wGraph W) (wPb W) ev [] (serverStorage s))"
  "serverStreams (accept_event W ev s) = serverStreams s" "serverCache (accept_event W ev s) = serverCache s"
  "vectorizing (accept_event W ev s) =
     vectorizing s @ (if embeddingProvider s \<noteq> None \<and> IsFactEvent (evType ev) then [ev] else [])"
  "embeddingProvider (accept_event W ev s) = embeddingProvider s"
  "policyEngine (accept_event W ev s) = policyEngine s"
  "serverProviders (accept_event W ev s) = serverProviders s"
  "serverCalls (accept_event W ev s) = serverCalls s"
  by (auto simp: accept_event_def Let_def split: option.split)

lemma rag_search_state: "rag_search E H S P ev emb m p = (m', q) \<Longrightarrow> same_store p q"
proof -
  assume run: "rag_search E H S P ev emb m p = (m', q)"
  obtain x p1 where s: "QuerySimilar E H S emb ragTopK (Some (user_filter ev)) p = (x, p1)" by fastforce
  have p1: "same_store p p1"
    by (rule QuerySimilar_state [OF _ s]) (simp add: filter_plain_def where_plain [OF user_filter_wf])
  have "q = p1 \<or> (\<exists>ids y. BatchGetEvents E P ids p1 = (y, q))"
    using run s by (auto simp: rag_search_def Let_def split: if_splits res.splits prod.splits)
  then show "same_store p q"
    using p1 read_states(2) same_store_trans by blast
qed

lemma query_embedding_cache:
  "cache_inv c \<Longrightarrow> query_embedding R n c t = (emb, c') \<Longrightarrow> cache_inv c'"
  using cache_inv_get [of c] cache_inv_set
  by (auto simp: query_embedding_def Let_def split: prod.splits option.splits if_splits)
    (metis cache_inv_get cache_inv_set snd_conv)+

lemma applyRAG_state:
  assumes "applyRAGEnhancement R E H S P ev m c p = (m', c', q)"
  shows "same_store p q" "cache_inv c \<Longrightarrow> cache_inv c'"
proof -
  obtain emb c1 where e: "query_embedding R (ticks p) c (generateQueryText ev m) = (emb, c1)" by fastforce
  have "(q = p \<or> (\<exists>v m1 m2. rag_search E H S P ev v m1 p = (m2, q))) \<and> (c' = c \<or> c' = c1)"
    using assms e
    by (auto simp: applyRAGEnhancement_def Let_def split: if_splits prod.splits option.splits)
      (metis prod.collapse)+
  then show "same_store p q" "cache_inv c \<Longrightarrow> cache_inv c'"
    using rag_search_state [of E H S P ev] query_embedding_cache [OF _ e] by auto
qed

lemma enhance_state:
  assumes "enhance W name ev m s = (m', t)"
  shows "same_store (serverStorage s) (serverStorage t) \<and> serverStreams t = serverStreams s \<and>
    vectorizing t = vectorizing s \<and> (cache_inv (serverCache s) \<longrightarrow> cache_inv (serverCache t))"
  using assms
  by (auto simp: enhance_def split: option.splits if_splits prod.splits dest: applyRAG_state)

section \<open>Every operation keeps the invariant\<close>

lemma world_okD:
  assumes "world_ok W"
  shows "hnsw_ok (wGraph W)" "pb_json_ok (wPb W)" "sqlite_ok (wSqlite W)"
    "valid_utf8 (wUuid W n)" "ts_valid (TimestampOf (wNow W n))"
    "AnyOfValue (wPb W) v = Some a \<Longrightarrow> valid_utf8 (TypeUrl a)"
  using assms unfolding world_ok_def by blast+

lemma utf8_ascii_append: "list_all (\<lambda>c. cb c < 128) s \<Longrightarrow> valid_utf8 (s @ t) = valid_utf8 t"
  by (induction s) simp_all

lemma response_event_wf:
  assumes "world_ok W" "event_wf ev"
  shows "event_wf (response_event W n ev name result)"
proof -
  have "valid_utf8 (''response-to-'' @ evId ev) = valid_utf8 (evId ev)"
    by (rule utf8_ascii_append) simp
  moreover have "valid_utf8 ''pcas.response.v1''" "valid_utf8 ''pcas-server''" "valid_utf8 ''1.0''"
    by (rule utf8_ascii, simp)+
  ultimately show ?thesis
    using assms world_okD [OF assms(1)]
    by (auto simp: response_event_def event_wf_def empty_event_def split: option.split)
qed

lemma store_keeps:
  assumes "world_ok W" "storage_inv (wGraph W) (wPb W) p" "event_wf ev"
  shows "storage_inv (wGraph W) (wPb W) (snd (StoreEvent (wEnv W) (wGraph W) (wPb W) ev [] p))"
proof (rule provider_step_inv [OF world_okD(1) [OF assms(1)] assms(2)])
  show "provider_step (wEnv W) (wGraph W) (wPb W) (wSqlite W) p
      (snd (StoreEvent (wEnv W) (wGraph W) (wPb W) ev [] p))"
    using StoreEvent_no_panic [of "wEnv W" "wGraph W" "wPb W" ev p] assms(3)
    by (intro provider_step.store [OF prod.collapse [symmetric]])
qed

lemma same_store_storage_inv: "same_store p q \<Longrightarrow> storage_inv H P q = storage_inv H P p"
  using same_store_inv [of p q H P] events_wf_cong [of q p P] by (simp add: storage_inv_def same_store_def)

lemma accept_keeps:
  assumes "world_ok W" "server_inv W (s, hs)" "event_wf ev"
  shows "server_inv W (accept_event W ev s, ev # hs)"
  using assms store_keeps [OF assms(1) _ assms(3)]
  by (auto simp: server_inv_def accept_event_parts)

text \<open>The four ways an answer can go; none of them panics.\<close>

lemma answer_event_cases:
  assumes inv: "registry_inv (serverStreams s)" and run: "answer_event W ev s = (x, t)"
  obtains (unrouted) "fst (SelectProvider (policyEngine s) ev) = []" "x = Ok ()" "t = s"
  | (unknown) name where "fst (SelectProvider (policyEngine s) ev) = name" "name \<noteq> []"
      "map_of (serverProviders s) name = None"
      "x = Fail (Errorf (''provider not found: '' @ name))" "t = s"
  | (failed) name execute m s1 e where "fst (SelectProvider (policyEngine s) ev) = name" "name \<noteq> []"
      "map_of (serverProviders s) name = Some execute"
      "enhance W name ev (event_object (wPb W) ev) s = (m, s1)" "execute (serverCalls s1) m = Inl e"
      "x = Fail (Wrap ''provider execution failed'' e)" "t = next_call s1"
  | (answered) name execute m s1 result resp where "fst (SelectProvider (policyEngine s) ev) = name"
      "name \<noteq> []" "map_of (serverProviders s) name = Some execute"
      "enhance W name ev (event_object (wPb W) ev) s = (m, s1)" "execute (serverCalls s1) m = Inr result"
      "resp = response_event W (serverCalls s1) ev name result" "x = Ok ()"
      "serverCache t = serverCache s1" "vectorizing t = vectorizing s"
      "serverStorage t = snd (StoreEvent (wEnv W) (wGraph W) (wPb W) resp [] (serverStorage s1))"
      "serverStreams t = after_broadcast resp (registered (serverStreams s)) (serverStreams s)"
proof -
  define name where name: "name = fst (SelectProvider (policyEngine s) ev)"
  consider (a) "name = []" | (b) "name \<noteq> []" "map_of (serverProviders s) name = None"
    | (c) execute where "name \<noteq> []" "map_of (serverProviders s) name = Some execute" by fastforce
  then show ?thesis
  proof cases
    case a
    then have "answer_event W ev s = (Ok (), s)" by (simp add: answer_event_def name [symmetric])
    then show ?thesis using run a name unrouted by simp
  next
    case b
    then have "answer_event W ev s = (Fail (Errorf (''provider not found: '' @ name)), s)"
      by (simp add: answer_event_def name [symmetric])
    then show ?thesis using run b by (intro unknown [OF name [symmetric]]) simp_all
  next
    case (c execute)
    obtain m s1 where e: "enhance W name ev (event_object (wPb W) ev) s = (m, s1)" by fastforce
    have st: "serverStreams s1 = serverStreams s" "vectorizing s1 = vectorizing s"
      using enhance_state [OF e] by simp_all
    show ?thesis
    proof (cases "execute (serverCalls s1) m")
      case (Inl err)
      show ?thesis
        by (rule failed [of name execute m s1 err])
          (use run c e Inl in \<open>simp_all add: answer_event_def name [symmetric]\<close>)
    next
      case (Inr result)
      show ?thesis
        by (rule answered [of name execute m s1 result])
          (use run c e Inr st broadcastEvent_effect [OF inv] in
            \<open>auto simp: answer_event_def name [symmetric] send_response_def Let_def\<close>)
    qed
  qed
qed

lemma answer_no_panic:
  "registry_inv (serverStreams s) \<Longrightarrow> answer_event W ev s = (x, t) \<Longrightarrow> x \<noteq> Panics"
  by (erule (1) answer_event_cases) simp_all

lemma next_call_inv [simp]: "server_inv W (next_call s, hs) = server_inv W (s, hs)"
  by (simp add: server_inv_def)

lemma enhance_keeps:
  "enhance W name ev m s = (m', t) \<Longrightarrow> server_inv W (s, hs) \<Longrightarrow> server_inv W (t, hs)"
  using enhance_state [of W name ev m s m' t] same_store_storage_inv
  by (auto simp: server_inv_def)

lemma answer_keeps:
  assumes "world_ok W" "server_inv W (s, hs)" "ev \<in> set hs" "answer_event W ev s = (x, t)"
  shows "server_inv W (t, remove1 ev hs)"
proof -
  have reg: "registry_inv (serverStreams s)" and wf: "event_wf ev"
    using assms(2,3) by (auto simp: server_inv_def list_all_iff)
  have "server_inv W (t, hs)"
    using reg assms(4)
  proof (cases rule: answer_event_cases)
    case (failed name execute m s1 e)
    then show ?thesis using enhance_keeps [OF failed(4) assms(2)] by simp
  next
    case (answered name execute m s1 result resp)
    have s1: "server_inv W (s1, hs)" by (rule enhance_keeps [OF answered(4) assms(2)])
    have "event_wf resp" unfolding answered by (rule response_event_wf [OF assms(1) wf])
    then have "storage_inv (wGraph W) (wPb W) (serverStorage t)"
      using store_keeps [OF assms(1)] s1 by (simp add: server_inv_def answered(10))
    then show ?thesis
      using s1 assms(2) registry_inv_after_broadcast [OF reg] answered
      by (simp add: server_inv_def)
  qed (use assms(2) in simp_all)
  then show ?thesis by (auto simp: server_inv_def list_all_iff dest: notin_set_remove1)
qed

text \<open>The ways a background task can go.\<close>

lemma vectorizeEvent_cases:
  assumes "vectorizeEvent W ev s = (x, t)"
  obtains (nothing) "extractTextContent (wPb W) ev = []" "x = Ok ()" "t = s"
  | (no_service) "embeddingProvider s = None" "x = Panics" "t = s"
  | (no_embedding) emb e where "embeddingProvider s = Some emb"
      "emb (serverCalls s) (extractTextContent (wPb W) ev) = Inl e" "x = Ok ()" "t = next_call s"
  | (embedded) emb vec y p where "extractTextContent (wPb W) ev \<noteq> []" "embeddingProvider s = Some emb"
      "emb (serverCalls s) (extractTextContent (wPb W) ev) = Inr vec"
      "AddEmbeddingToEvent (wEnv W) (wGraph W) (evId ev) vec (serverStorage s) = (y, p)"
      "x = (if y = Panics then Panics else Ok ())" "t = next_call (s\<lparr>serverStorage := p\<rparr>)"
proof -
  consider (a) "extractTextContent (wPb W) ev = []"
    | (b) "embeddingProvider s = None" "extractTextContent (wPb W) ev \<noteq> []"
    | (c) emb where "extractTextContent (wPb W) ev \<noteq> []" "embeddingProvider s = Some emb" by fastforce
  then show ?thesis
  proof cases
    case a
    show ?thesis by (rule nothing [OF a]) (use assms a in \<open>simp_all add: vectorizeEvent_def\<close>)
  next
    case b
    show ?thesis by (rule no_service [OF b(1)]) (use assms b in \<open>simp_all add: vectorizeEvent_def\<close>)
  next
    case (c emb)
    show ?thesis
    proof (cases "emb (serverCalls s) (extractTextContent (wPb W) ev)")
      case (Inl e)
      show ?thesis
        by (rule no_embedding [OF c(2) Inl]) (use assms c Inl in \<open>simp_all add: vectorizeEvent_def\<close>)
    next
      case (Inr vec)
      obtain y p where e: "AddEmbeddingToEvent (wEnv W) (wGraph W) (evId ev) vec (serverStorage s) = (y, p)"
        by fastforce
      show ?thesis
        by (rule embedded [OF c(1,2) Inr e]; use assms c Inr e in \<open>cases y; simp add: vectorizeEvent_def\<close>)
    qed
  qed
qed

lemma vectorize_keeps:
  assumes "world_ok W" "server_inv W (s, hs)" "vectorizeEvent W ev s = (x, t)" "x \<noteq> Panics"
  shows "server_inv W (t, hs)"
  using assms(3)
proof (cases rule: vectorizeEvent_cases)
  case (embedded emb vec y p)
  have "provider_step (wEnv W) (wGraph W) (wPb W) (wSqlite W) (serverStorage s) p"
    using embedded(4) by (rule provider_step.embed) (use embedded(5) assms(4) in auto)
  then have "storage_inv (wGraph W) (wPb W) p"
    using provider_step_inv [OF world_okD(1) [OF assms(1)]] assms(2)
    unfolding server_inv_def fst_conv by blast
  then show ?thesis using assms(2) embedded(6) by (simp add: server_inv_def)
qed (use assms in simp_all)

lemma fetch_results_state: "fetch_results E P rs p = (xs, q) \<Longrightarrow> same_store p q"
proof (induction rs arbitrary: p xs q)
  case (Cons r rs)
  obtain y p1 where g: "GetEventByID E P (qrID r) p = (y, p1)" by fastforce
  obtain zs p2 where f: "fetch_results E P rs p1 = (zs, p2)" by fastforce
  have "same_store p1 p2" by (rule Cons.IH [OF f])
  then have "same_store p p2" using read_states(1) [OF g] same_store_trans by blast
  then show ?case using Cons.prems g f by (cases y) auto
qed simp

text \<open>The ways a search can go.\<close>

lemma Search_cases:
  assumes "Search W req s = (x, t)"
  obtains (refused) e where "x = Fail e" "t = s"
  | (no_embedding) e where "x = Fail (Wrap ''failed to create query embedding'' e)" "t = next_call s"
  | (queried) emb vec y p where "embeddingProvider s = Some emb" "emb (serverCalls s) (QueryText req) = Inr vec"
      "QuerySimilar (wEnv W) (wGraph W) (wSqlite W) vec (search_topK req) (search_filter req)
         (serverStorage s) = (y, p)"
      "case y of Ok rs \<Rightarrow> (case fetch_results (wEnv W) (wPb W) rs p of (xs, q) \<Rightarrow>
           x = Ok (map fst xs, map snd xs) \<and> t = next_call (s\<lparr>serverStorage := q\<rparr>))
       | Fail e \<Rightarrow> x = Fail (Wrap ''failed to query similar events'' e) \<and> t = next_call (s\<lparr>serverStorage := p\<rparr>)
       | Panics \<Rightarrow> x = Panics \<and> t = next_call (s\<lparr>serverStorage := p\<rparr>)"
proof -
  consider (a) "QueryText req = []" | (b) "embeddingProvider s = None" "QueryText req \<noteq> []"
    | (c) emb where "QueryText req \<noteq> []" "embeddingProvider s = Some emb" by fastforce
  then show ?thesis
  proof cases
    case (c emb)
    show ?thesis
    proof (cases "emb (serverCalls s) (QueryText req)")
      case (Inr vec)
      obtain y p where q: "QuerySimilar (wEnv W) (wGraph W) (wSqlite W) vec (search_topK req)
          (search_filter req) (serverStorage s) = (y, p)" by fastforce
      show ?thesis
        by (rule queried [OF c(2) Inr q])
          (use assms c Inr q in \<open>auto simp: Search_def split: res.splits prod.splits\<close>)
    next
      case (Inl e)
      show ?thesis by (rule no_embedding [of e]) (use assms c Inl in \<open>simp_all add: Search_def\<close>)
    qed
  qed (use assms refused in \<open>auto simp: Search_def\<close>)
qed

lemma Search_state:
  assumes "Search W req s = (x, t)" "filter_plain (search_filter req)"
  shows "same_store (serverStorage s) (serverStorage t) \<and> serverStreams t = serverStreams s \<and>
    serverCache t = serverCache s \<and> vectorizing t = vectorizing s"
  using assms(1)
proof (cases rule: Search_cases)
  case (queried emb vec y p)
  have "same_store (serverStorage s) p" by (rule QuerySimilar_state [OF assms(2) queried(3)])
  then show ?thesis
    using queried(4)
    by (auto split: res.splits prod.splits dest!: fetch_results_state intro: same_store_trans)
qed simp_all

lemma server_step_inv:
  assumes ok: "world_ok W" and inv: "server_inv W c" and step: "server_step W c a d"
  shows "server_inv W d"
  using step
proof (cases rule: server_step.cases)
  case (accepted ev s hs)
  then show ?thesis using accept_keeps [OF ok] inv by simp
next
  case (answered ev hs s x t)
  then show ?thesis using answer_keeps [OF ok] inv by simp
next
  case (vectorized s as ev bs x t hs)
  have "server_inv W (s\<lparr>vectorizing := as @ bs\<rparr>, hs)"
    using inv vectorized by (auto simp: server_inv_def)
  then show ?thesis using vectorize_keeps [OF ok _ vectorized(5,6)] vectorized by simp
next
  case (searched req s x t hs)
  have "storage_inv (wGraph W) (wPb W) (serverStorage t) = storage_inv (wGraph W) (wPb W) (serverStorage s)"
    using Search_state [OF searched(5,4)] same_store_storage_inv by blast
  then show ?thesis
    using inv searched Search_state [OF searched(5,4)] by (auto simp: server_inv_def)
next
  case (streamed s b t hs)
  then show ?thesis using inv registry_inv_step by (auto simp: server_inv_def)
qed

interpretation bus: machine "server_step W" "\<lambda>c. world_ok W \<and> server_inv W c" for W :: "'g world"
  by unfold_locales (blast intro: server_step_inv)

lemma server_inv_new:
  assumes "storage_inv (wGraph W) (wPb W) p"
  shows "server_inv W (SetEmbeddingProvider emb (NewServer pe ps p), [])"
  using assms registry_inv_new cache_inv_new
  by (simp add: server_inv_def NewServer_def SetEmbeddingProvider_def)

section \<open>What the storage gains\<close>

lemma server_step_grows:
  assumes "server_step W c a d" "registry_inv (serverStreams (fst c))"
  shows "grows (serverStorage (fst c)) (serverStorage (fst d))"
  using assms(1)
proof (cases rule: server_step.cases)
  case (accepted ev s hs)
  then show ?thesis using StoreEvent_grows [OF prod.collapse [symmetric]] by (simp add: accept_event_parts)
next
  case (answered ev hs s x t)
  have reg: "registry_inv (serverStreams s)" using assms(2) answered by simp
  have "grows (serverStorage s) (serverStorage t)"
    using reg answered(5)
  proof (cases rule: answer_event_cases)
    case (failed name execute m s1 e)
    then show ?thesis using enhance_state [OF failed(4)] by (simp add: same_store_grows)
  next
    case (answered name execute m s1 result resp)
    have "grows (serverStorage s1) (serverStorage t)"
      unfolding answered(10) using StoreEvent_grows [OF prod.collapse [symmetric]] .
    then show ?thesis using enhance_state [OF answered(4)] same_store_grows grows_trans by blast
  qed simp_all
  then show ?thesis by (simp add: answered)
next
  case (vectorized s as ev bs x t hs)
  from vectorized(5) have "grows (serverStorage s) (serverStorage t)"
    by (cases rule: vectorizeEvent_cases) (auto dest: AddEmbeddingToEvent_grows)
  then show ?thesis by (simp add: vectorized)
next
  case (searched req s x t hs)
  then show ?thesis using Search_state [OF searched(5,4)] by (simp add: same_store_grows)
qed simp

lemma run_indexPath:
  assumes "world_ok W" "server_inv W c" "runs (server_step W) c acts d"
  shows "indexPath (serverStorage (fst d)) = indexPath (serverStorage (fst c))"
  using bus.run_keeps [OF assms(3), of "\<lambda>d. indexPath (serverStorage (fst d)) = indexPath (serverStorage (fst c))"]
    assms(1,2) server_step_grows by (fastforce simp: server_inv_def grows_def)

lemma StoreVector_edges: "StoreVector E H vec p = (x, q) \<Longrightarrow> Edges q = Edges p"
  by (erule StoreVector_cases) (auto dest: insert_node_None)

lemma CreateEdge_edges:
  "CreateEdge E src tgt lab p = (x, q) \<Longrightarrow> e \<in> set (Edges q) \<Longrightarrow> e \<in> set (Edges p) \<or> eTarget e = tgt"
  by (auto simp: CreateEdge_def Let_def split: prod.splits option.splits dest!: insert_edge_Some insert_edge_None)

lemma link_embedding_edges:
  "link_embedding E H k vec p = (x, q) \<Longrightarrow> e \<in> set (Edges q) \<Longrightarrow> e \<in> set (Edges p) \<or> eTarget e = k"
  by (auto simp: link_embedding_def split: prod.splits res.splits
      dest!: StoreVector_edges dest: CreateEdge_edges)

lemma AddEmbeddingToEvent_edges:
  "AddEmbeddingToEvent E H k vec p = (x, q) \<Longrightarrow> e \<in> set (Edges q) \<Longrightarrow> e \<in> set (Edges p) \<or> eTarget e = k"
  by (auto simp: AddEmbeddingToEvent_def split: if_splits dest: link_embedding_edges)

lemma server_step_tasks:
  assumes "server_step W c a d" "ev \<in> set (vectorizing (fst d))" "registry_inv (serverStreams (fst c))"
  shows "ev \<in> set (vectorizing (fst c)) \<or> a = Accept ev \<and> IsFactEvent (evType ev)"
  using assms(1)
proof (cases rule: server_step.cases)
  case (accepted e s hs)
  then show ?thesis using assms(2) by (auto simp: accept_event_parts split: if_splits)
next
  case (answered e hs s x t)
  have reg: "registry_inv (serverStreams s)" using assms(3) answered by simp
  have "vectorizing t = vectorizing s"
    using reg answered(5)
  proof (cases rule: answer_event_cases)
    case (failed name execute m s1 e)
    then show ?thesis using enhance_state [OF failed(4)] by simp
  qed simp_all
  then show ?thesis using assms(2) answered by simp
next
  case (vectorized s as e bs x t hs)
  from vectorized(5) have "vectorizing t = as @ bs"
    by (cases rule: vectorizeEvent_cases) simp_all
  then show ?thesis using assms(2) vectorized by auto
next
  case (searched req s x t hs)
  then show ?thesis using assms(2) Search_state [OF searched(5,4)] by simp
qed (use assms(2) in simp)

lemma server_step_edges:
  assumes "server_step W c a d" "e \<in> set (Edges (serverStorage (fst d)))" "registry_inv (serverStreams (fst c))"
  shows "e \<in> set (Edges (serverStorage (fst c))) \<or>
    (\<exists>ev \<in> set (vectorizing (fst c)). eTarget e = evId ev)"
  using assms(1)
proof (cases rule: server_step.cases)
  case (accepted ev s hs)
  then show ?thesis
    using assms(2) by (simp add: accept_event_parts)
next
  case (answered ev hs s x t)
  have reg: "registry_inv (serverStreams s)" using assms(3) answered by simp
  have "Edges (serverStorage t) = Edges (serverStorage s)"
    using reg answered(5)
  proof (cases rule: answer_event_cases)
    case (failed name execute m s1 e)
    then show ?thesis using enhance_state [OF failed(4)] by (simp add: same_store_def)
  next
    case (answered name execute m s1 result resp)
    then show ?thesis
      using enhance_state [OF answered(4)] by (simp add: same_store_def)
  qed simp_all
  then show ?thesis using assms(2) answered by simp
next
  case (vectorized s as ev bs x t hs)
  from vectorized(5) have "e \<in> set (Edges (serverStorage t)) \<Longrightarrow>
      e \<in> set (Edges (serverStorage s)) \<or> eTarget e = evId ev"
    by (cases rule: vectorizeEvent_cases) (auto dest: AddEmbeddingToEvent_edges)
  then show ?thesis using assms(2) vectorized by auto
next
  case (searched req s x t hs)
  then show ?thesis using assms(2) Search_state [OF searched(5,4)] by (simp add: same_store_def)
qed (use assms(2) in simp)

section \<open>Vectors linked to events\<close>

text \<open>The index holds \<open>v\<close> under a vector id that an edge links to the event \<open>k\<close>.\<close>

definition linked_vector :: "'g hnsw \<Rightarrow> 'g provider \<Rightarrow> string \<Rightarrow> f32 list \<Rightarrow> bool" where
  "linked_vector H p k v \<longleftrightarrow>
     (\<exists>e \<in> set (Edges p). eTarget e = k \<and> GNodes H (hnswIndex p) (eSource e) = Some v)"

text \<open>A linked vector stays linked as long as its row and its edge are there and the index agrees.\<close>

lemma linked_vector_kept:
  assumes "storage_inv H P p" "storage_inv H P q" "set (Nodes p) \<subseteq> set (Nodes q)" "set (Edges p) \<subseteq> set (Edges q)"
    and "linked_vector H p k v" "v \<noteq> []"
  shows "linked_vector H q k v"
proof -
  obtain e where e: "e \<in> set (Edges p)" "eTarget e = k" "GNodes H (hnswIndex p) (eSource e) = Some v"
    using assms(5) by (auto simp: linked_vector_def)
  have ag: "index_agrees H p" "index_agrees H q"
    using assms(1,2) by (simp_all add: storage_inv_def provider_inv_def)
  then obtain r where "r \<in> set (Nodes p)" "nId r = eSource e" "nType r = ''vector''" "row_vector r = Some v"
    using e(3) assms(6) by (auto simp: index_agrees_def)
  then have "GNodes H (hnswIndex q) (eSource e) = Some v"
    using ag(2) assms(3,6) by (auto simp: index_agrees_def)
  then show ?thesis using e assms(4) by (auto simp: linked_vector_def)
qed

lemma linked_vector_grows:
  "storage_inv H P p \<Longrightarrow> storage_inv H P q \<Longrightarrow> grows p q \<Longrightarrow> linked_vector H p k v \<Longrightarrow> v \<noteq> [] \<Longrightarrow>
    linked_vector H q k v"
  by (erule (1) linked_vector_kept) (auto simp: grows_def)

lemma AddEmbeddingToEvent_links:
  assumes "hnsw_ok H" "AddEmbeddingToEvent E H k vec p = (Ok u, q)"
  shows "linked_vector H q k vec"
proof -
  have link: "link_embedding E H k vec (tick p) = (Ok u, q)"
    using assms(2) by (auto simp: AddEmbeddingToEvent_def split: if_splits)
  obtain y p1 where sv: "StoreVector E H vec (tick p) = (y, p1)" by fastforce
  then obtain vid where y: "y = Ok vid" using link by (cases y) (auto simp: link_embedding_def)
  obtain g where g: "GAdd H (hnswIndex (tick p)) vid vec = Some g" "hnswIndex p1 = g"
    using sv [unfolded y] by (rule StoreVector_Ok) blast
  have "CreateEdge E vid k ''embedding_of'' p1 = (Ok u, q)"
    using link sv y by (auto simp: link_embedding_def split: res.splits prod.splits)
  then obtain e where "eSource e = vid" "eTarget e = k" "Edges q = Edges p1 @ [e]" "hnswIndex q = g"
    by (rule CreateEdge_Ok) (use g in blast)
  then show ?thesis using hnsw_add [OF assms(1) g(1)] by (auto simp: linked_vector_def)
qed

end
