(* ===== verification/ServerProperties.thy ===== *)
theory ServerProperties
  imports ServerRuns RagProperties
begin

text \<open>
  The properties of the bus server: its invariant under any interleaving of calls, what
  \<open>Publish\<close> answers and whom it reaches, that a failing storage does not disturb it, which
  events get vectors and that the vectors stay, and what a search returns.
\<close>

section \<open>A sample server\<close>

definition sample_world :: "graph world" where
  "sample_world =
     \<lparr>wEnv = calm_env, wGraph = list_graph, wSqlite = json_sqlite, wPb = text_pb, wRagVar = ''true'',
      wLimiter = (\<lambda>n. True), wNow = (\<lambda>n. 0), wUuid = (\<lambda>n. ''r'' @ dec_nat n)\<rparr>"

definition sample_engine :: engine where
  "sample_engine = NewEngine
     \<lparr>polVersion = ''v1'', polProviders = [],
      polRules = [\<lparr>ruleName = ''q'', ruleIf = Condition ''question'' [],
        ruleThen = \<lparr>actProvider = ''mock'', actPromptTemplate = []\<rparr>\<rparr>]\<rparr>"

definition sample_server :: "graph server" where
  "sample_server = SetEmbeddingProvider (Some (\<lambda>n t. Inr [f32_one]))
     (NewServer sample_engine [(''mock'', \<lambda>n m. Inr ''hi'')] sample_stored)"

lemma sample_world_parts [simp]:
  "wEnv sample_world = calm_env" "wGraph sample_world = list_graph" "wSqlite sample_world = json_sqlite"
  "wPb sample_world = text_pb" "wRagVar sample_world = ''true''" "wNow sample_world n = 0"
  "wUuid sample_world n = ''r'' @ dec_nat n"
  by (simp_all add: sample_world_def)

lemma sample_world_ok: "world_ok sample_world"
proof -
  have "valid_utf8 (''r'' @ dec_nat n)" for n
    using digits_ascii [OF dec_nat_digits] by (intro utf8_ascii) simp
  moreover have "ts_valid (TimestampOf 0)" by (simp add: ts_valid_def TimestampOf_def)
  moreover have "valid_utf8 (TypeUrl a)" if "AnyOfValue text_pb v = Some a" for v a
  proof -
    have "valid_utf8 value_url" by (rule utf8_ascii) (simp add: value_url_def)
    then show ?thesis using that by (auto simp: text_pb_def split: if_splits)
  qed
  ultimately show ?thesis
    using list_graph_ok text_pb_ok json_sqlite_ok by (simp add: world_ok_def)
qed

lemma sample_server_parts [simp]:
  "policyEngine sample_server = sample_engine"
  "serverProviders sample_server = [(''mock'', \<lambda>n m. Inr ''hi'')]"
  "serverStorage sample_server = sample_stored"
  "embeddingProvider sample_server = Some (\<lambda>n t. Inr [f32_one])"
  "serverStreams sample_server = new_registry" "vectorizing sample_server = []" "serverCalls sample_server = 0"
  by (simp_all add: sample_server_def NewServer_def SetEmbeddingProvider_def)

lemma sample_server_inv: "server_inv sample_world (sample_server, [])"
  unfolding sample_server_def
  by (rule server_inv_new) (use sample_stored_inv in simp)

definition sample_question :: event where
  "sample_question = empty_event\<lparr>evId := ''q1'', evType := ''question'', evTraceId := ''t1''\<rparr>"

lemma sample_question_wf: "event_wf sample_question"
  by code_simp

section \<open>The invariant\<close>

text \<open>
  C1: however the calls, the background tasks and the streams of the server interleave, its
  storage and its embedding cache stay consistent, no channel overflows and no broadcast hits a
  closed channel, and so no \<open>Publish\<close> call panics.
\<close>

theorem server_stays_consistent:
  assumes "world_ok W" "storage_inv (wGraph W) (wPb W) p"
    and "runs (server_step W) (SetEmbeddingProvider emb (NewServer pe ps p), []) as (s, hs)"
  shows "storage_inv (wGraph W) (wPb W) (serverStorage s) \<and> cache_inv (serverCache s) \<and>
    length (chanBuf (serverStreams s) n) \<le> 100 \<and> broadcastEvent resp (serverStreams s) \<noteq> None \<and>
    fst (Publish W ev s) \<noteq> Panics"
proof -
  have inv: "server_inv W (s, hs)"
    using bus.run_inv [OF assms(3)] assms(1) server_inv_new [OF assms(2)] by blast
  then have reg: "registry_inv (serverStreams s)" by (simp add: server_inv_def)
  then have "registry_inv (serverStreams (accept_event W ev s))" by (simp add: accept_event_parts)
  then have "fst (Publish W ev s) \<noteq> Panics"
    unfolding Publish_def by (rule answer_no_panic [OF _ prod.collapse [symmetric]])
  then show ?thesis
    using inv broadcastEvent_effect [OF reg] by (simp add: server_inv_def registry_inv_def chan_capacity_def)
qed

lemma sample_accept_run:
  "runs (server_step sample_world) (sample_server, []) [Accept sample_question]
     (accept_event sample_world sample_question sample_server, [sample_question])"
  by (rule runs_one, rule server_step.accepted, rule sample_question_wf)

theorem server_stays_consistent_witness:
  "storage_inv list_graph text_pb (serverStorage (accept_event sample_world sample_question sample_server)) \<and>
   fst (Publish sample_world sample_question
     (accept_event sample_world sample_question sample_server)) \<noteq> Panics"
  using server_stays_consistent [OF sample_world_ok _ sample_accept_run [unfolded sample_server_def],
      of 0 empty_event sample_question]
    sample_stored_inv
  by (simp add: sample_server_def)

section \<open>Publish\<close>

text \<open>
  C5: what \<open>Publish\<close> answers and whom it reaches. Without a rule it succeeds and sends
  nothing; with a rule for an unknown provider, or when the provider fails, it fails and sends
  nothing; otherwise it succeeds and puts one response event into every registered channel
  that has room and into no other, and the response names the event it answers and carries its
  trace id.
\<close>

theorem publish_outcome:
  assumes "registry_inv (serverStreams s)" "Publish W ev s = (x, t)"
    and "fst (SelectProvider (policyEngine s) ev) = name"
  shows "if name = [] then x = Ok () \<and> received (serverStreams t) n = received (serverStreams s) n
    else case map_of (serverProviders s) name of
      None \<Rightarrow> x = Fail (Errorf (''provider not found: '' @ name)) \<and>
        received (serverStreams t) n = received (serverStreams s) n
    | Some execute \<Rightarrow>
        (case enhance W name ev (event_object (wPb W) ev) (accept_event W ev s) of (m, s1) \<Rightarrow>
          (case execute (serverCalls s1) m of
             Inl e \<Rightarrow> x = Fail (Wrap ''provider execution failed'' e) \<and>
               received (serverStreams t) n = received (serverStreams s) n
           | Inr result \<Rightarrow> x = Ok () \<and>
               (\<exists>resp. evCorrelationId resp = evId ev \<and> evTraceId resp = evTraceId ev \<and>
                 evType resp = ''pcas.response.v1'' \<and>
                 evData resp = AnyOfValue (wPb W) (GObj (response_data (evId ev) name result)) \<and>
                 received (serverStreams t) n = received (serverStreams s) n @
                   (if n \<in> registered (serverStreams s) \<and> length (chanBuf (serverStreams s) n) < 100
                    then [resp] else []))))"
proof -
  have reg: "registry_inv (serverStreams (accept_event W ev s))"
    using assms(1) by (simp add: accept_event_parts)
  note parts = accept_event_parts [of W ev s]
  from reg assms(2) [unfolded Publish_def] show ?thesis
  proof (cases rule: answer_event_cases)
    case (failed name' execute m s1 e)
    then show ?thesis using assms(3) enhance_state [OF failed(4)] by (auto simp: parts)
  next
    case (answered name' execute m s1 result resp)
    have "name' = name" using answered(1) assms(3) by (simp add: parts)
    moreover have "received (serverStreams t) n = received (serverStreams s) n @
        (if n \<in> registered (serverStreams s) \<and> length (chanBuf (serverStreams s) n) < 100 then [resp] else [])"
      by (simp add: answered(11) received_after_broadcast parts chan_capacity_def)
    moreover have "evCorrelationId resp = evId ev" "evTraceId resp = evTraceId ev"
      "evType resp = ''pcas.response.v1''"
      "evData resp = AnyOfValue (wPb W) (GObj (response_data (evId ev) name' result))"
      by (simp_all add: answered(6) response_event_def)
    ultimately show ?thesis using answered(2-5,7) by (auto simp: parts)
  qed (use assms(3) in \<open>auto simp: parts\<close>)
qed

text \<open>A client is subscribed; the question is routed to the mock provider.\<close>

definition listening_server :: "graph server" where
  "listening_server = sample_server\<lparr>serverStreams := open_stream ''c'' new_registry\<rparr>"

lemma sample_route: "fst (SelectProvider sample_engine sample_question) = ''mock''"
  by code_simp

theorem publish_outcome_witness:
  "\<exists>x t resp. Publish sample_world sample_question listening_server = (x, t) \<and> x = Ok () \<and>
     evCorrelationId resp = ''q1'' \<and> evTraceId resp = ''t1'' \<and> received (serverStreams t) 0 = [resp]"
proof -
  let ?s = "listening_server"
  have reg: "registry_inv (serverStreams ?s)"
    using registry_inv_open [OF registry_inv_new] by (simp add: listening_server_def)
  have streams: "received (serverStreams ?s) 0 = []" "0 \<in> registered (serverStreams ?s)"
    "length (chanBuf (serverStreams ?s) 0) < 100"
    by (simp_all add: listening_server_def bus_simps registered_def)
  obtain x t where run: "Publish sample_world sample_question ?s = (x, t)" by fastforce
  have route: "fst (SelectProvider (policyEngine ?s) sample_question) = ''mock''"
    using sample_route by (simp add: listening_server_def)
  have exec: "map_of (serverProviders ?s) ''mock'' = Some (\<lambda>n m. Inr ''hi'')"
    by (simp add: listening_server_def)
  from publish_outcome [OF reg run route, of 0] show ?thesis
    using run streams exec
    by (auto simp: sample_question_def split: prod.splits)
qed

text \<open>
  C17: a failing, full or inconsistent storage does not disturb \<open>Publish\<close>: for a provider that
  gets no context, the answer, what the streams receive and the tasks started are the same
  whatever the storage holds and whichever statements fail.
\<close>

theorem publish_ignores_storage:
  assumes "fst (SelectProvider (policyEngine s) ev) \<noteq> ''openai-gpt4''"
    and "Publish W ev s = (x, t)"
    and "Publish (W\<lparr>wEnv := E\<rparr>) ev (s\<lparr>serverStorage := p\<rparr>) = (x', t')"
  shows "x' = x \<and> serverStreams t' = serverStreams t \<and> vectorizing t' = vectorizing t \<and>
    serverCache t' = serverCache t"
proof -
  let ?s = "accept_event W ev s" and ?s' = "accept_event (W\<lparr>wEnv := E\<rparr>) ev (s\<lparr>serverStorage := p\<rparr>)"
  have same: "?s' = ?s\<lparr>serverStorage := serverStorage ?s'\<rparr>"
    by (simp add: accept_event_def Let_def split: option.split)
  define q where "q = serverStorage ?s'"
  define name where "name = fst (SelectProvider (policyEngine s) ev)"
  have resp: "response_event (W\<lparr>wEnv := E\<rparr>) k ev name r = response_event W k ev name r" for k r
    by (simp add: response_event_def)
  have name: "fst (SelectProvider (policyEngine ?s) ev) = name" by (simp add: accept_event_parts name_def)
  have enh: "enhance V name ev m v = (m, v)" for V m and v :: "'a server"
    using assms(1) by (simp add: enhance_def name_def split: option.split)
  have a: "answer_event (W\<lparr>wEnv := E\<rparr>) ev (?s\<lparr>serverStorage := q\<rparr>) = (x', t')"
    using assms(3) same by (simp add: Publish_def q_def)
  have b: "answer_event W ev ?s = (x, t)" using assms(2) by (simp add: Publish_def)
  show ?thesis
    using a b
    by (auto simp: answer_event_def name enh send_response_def next_call_def Let_def resp
        split: if_splits option.splits sum.splits)
qed

theorem publish_ignores_storage_witness:
  "\<exists>t t'. Publish sample_world sample_question sample_server = (Ok (), t) \<and>
     Publish (sample_world\<lparr>wEnv := calm_env\<lparr>StmtFails := (\<lambda>n. True)\<rparr>\<rparr>) sample_question
       (sample_server\<lparr>serverStorage := sample_start\<rparr>) = (Ok (), t') \<and>
     serverStreams t' = serverStreams t"
proof -
  obtain x t where run: "Publish sample_world sample_question sample_server = (x, t)" by fastforce
  obtain x' t' where run': "Publish (sample_world\<lparr>wEnv := calm_env\<lparr>StmtFails := (\<lambda>n. True)\<rparr>\<rparr>)
      sample_question (sample_server\<lparr>serverStorage := sample_start\<rparr>) = (x', t')" by fastforce
  have "fst (SelectProvider (policyEngine sample_server) sample_question) \<noteq> ''openai-gpt4''"
    using sample_route by simp
  from publish_ignores_storage [OF this run run'] have same: "x' = x" "serverStreams t' = serverStreams t"
    by blast+
  have "x = Ok ()"
    using run sample_route
    by (auto simp: Publish_def answer_event_def accept_event_parts enhance_def send_response_def Let_def
        broadcastEvent_def new_registry_def split: prod.splits option.splits if_splits)
  then show ?thesis using run run' same by blast
qed

section \<open>Vectorization\<close>

text \<open>
  C11: the embedding of an accepted fact event becomes part of the index, linked to the event,
  and stays so whatever the server does afterwards: when the background task runs and the
  storage takes the vector, every later state of every run holds it.
\<close>

theorem facts_stay_searchable:
  assumes ok: "world_ok W" and inv: "server_inv W (s, hs)"
    and task: "vectorizing s = as @ ev # bs" "embeddingProvider s = Some emb"
      "emb (serverCalls s) (extractTextContent (wPb W) ev) = Inr vec"
      "extractTextContent (wPb W) ev \<noteq> []" "vec \<noteq> []"
    and added: "AddEmbeddingToEvent (wEnv W) (wGraph W) (evId ev) vec (serverStorage s) = (Ok u, p)"
  shows "\<exists>t. server_step W (s, hs) (Vectorize ev) (t, hs) \<and>
    (\<forall>acts c. runs (server_step W) (t, hs) acts c \<longrightarrow>
       linked_vector (wGraph W) (serverStorage (fst c)) (evId ev) vec)"
proof -
  let ?t = "next_call (s\<lparr>vectorizing := as @ bs, serverStorage := p\<rparr>)"
  have step: "server_step W (s, hs) (Vectorize ev) (?t, hs)"
    using task added
    by (intro server_step.vectorized [OF task(1), where x = "Ok ()"]) (simp_all add: vectorizeEvent_def)
  have inv': "server_inv W (?t, hs)" by (rule server_step_inv [OF ok inv step])
  have here: "linked_vector (wGraph W) (serverStorage (fst (?t, hs))) (evId ev) vec"
    using AddEmbeddingToEvent_links [OF world_okD(1) [OF ok] added] by simp
  have "linked_vector (wGraph W) (serverStorage (fst c)) (evId ev) vec"
    if run: "runs (server_step W) (?t, hs) acts c" for acts c
  proof (rule bus.run_keeps [OF run])
    fix c a d
    assume c: "world_ok W \<and> server_inv W c" "linked_vector (wGraph W) (serverStorage (fst c)) (evId ev) vec"
      and st: "server_step W c a d"
    have "server_inv W d" using server_step_inv c(1) st by blast
    moreover have "grows (serverStorage (fst c)) (serverStorage (fst d))"
      using server_step_grows [OF st] c(1) by (simp add: server_inv_def)
    ultimately show "linked_vector (wGraph W) (serverStorage (fst d)) (evId ev) vec"
      using linked_vector_grows [of _ "wPb W", OF _ _ _ c(2) task(5)] c(1) by (simp add: server_inv_def)
  qed (use ok inv' here in simp_all)
  then show ?thesis using step by blast
qed

definition sample_fact :: event where
  "sample_fact = empty_event\<lparr>evId := ''f1'', evType := ''user.note.v1'', evSubject := ''tea''\<rparr>"

definition fact_server :: "graph server" where
  "fact_server = accept_event sample_world sample_fact sample_server"

lemma sample_fact_wf: "event_wf sample_fact"
  by code_simp

lemma sample_fact_text: "extractTextContent text_pb sample_fact = ''tea''"
  by (simp add: extractTextContent_def sample_fact_def)

lemma fact_server_inv: "server_inv sample_world (fact_server, [sample_fact])"
  unfolding fact_server_def
  by (rule accept_keeps [OF sample_world_ok sample_server_inv sample_fact_wf])

lemma sample_fact_is_fact: "IsFactEvent (evType sample_fact)"
  by code_simp

lemma fact_server_parts:
  "vectorizing fact_server = [sample_fact]" "embeddingProvider fact_server = Some (\<lambda>n t. Inr [f32_one])"
  "serverStorage fact_server = snd (StoreEvent calm_env list_graph text_pb sample_fact [] sample_stored)"
  using sample_fact_is_fact by (simp_all add: fact_server_def accept_event_parts)

lemma sample_fact_added:
  "fst (AddEmbeddingToEvent calm_env list_graph ''f1'' [f32_one]
     (snd (StoreEvent calm_env list_graph text_pb sample_fact [] sample_stored))) = Ok ()"
  by code_simp

text \<open>The storage behind the task that embeds the fact.\<close>

definition fact_added :: "graph provider" where
  "fact_added = snd (AddEmbeddingToEvent calm_env list_graph ''f1'' [f32_one] (serverStorage fact_server))"

lemma fact_added: "AddEmbeddingToEvent (wEnv sample_world) (wGraph sample_world) (evId sample_fact) [f32_one]
    (serverStorage fact_server) = (Ok (), fact_added)"
  using sample_fact_added by (simp add: fact_added_def fact_server_parts prod_eq_iff sample_fact_def)

lemma fact_added_targets: "map eTarget (Edges fact_added) = [''e1'', ''f1'']"
  unfolding fact_added_def fact_server_parts by code_simp

theorem facts_stay_searchable_witness:
  "\<exists>t. server_step sample_world (fact_server, [sample_fact]) (Vectorize sample_fact) (t, [sample_fact]) \<and>
     linked_vector list_graph (serverStorage t) ''f1'' [f32_one]"
proof -
  from facts_stay_searchable [OF sample_world_ok fact_server_inv _ fact_server_parts(2) _ _ _ fact_added, of "[]" "[]"]
  obtain t where "server_step sample_world (fact_server, [sample_fact]) (Vectorize sample_fact) (t, [sample_fact])"
    "\<forall>acts c. runs (server_step sample_world) (t, [sample_fact]) acts c \<longrightarrow>
       linked_vector (wGraph sample_world) (serverStorage (fst c)) (evId sample_fact) [f32_one]"
    using fact_server_parts(1) sample_fact_text by auto
  moreover have "runs (server_step sample_world) (t, [sample_fact]) [] (t, [sample_fact])" by (rule runs.stop)
  ultimately have "linked_vector (wGraph sample_world) (serverStorage (fst (t, [sample_fact])))
      (evId sample_fact) [f32_one]" by blast
  then show ?thesis
    using \<open>server_step _ _ _ _\<close> by (auto simp: sample_fact_def)
qed


lemma fact_run:
  "runs (server_step sample_world) (sample_server, []) [Accept sample_fact, Vectorize sample_fact]
     (next_call (fact_server\<lparr>vectorizing := [], serverStorage := fact_added\<rparr>), [sample_fact])"
proof (rule runs.go [OF _ runs_one])
  show "server_step sample_world (sample_server, []) (Accept sample_fact) (fact_server, [sample_fact])"
    unfolding fact_server_def by (rule server_step.accepted [OF sample_fact_wf])
  show "server_step sample_world (fact_server, [sample_fact]) (Vectorize sample_fact)
      (next_call (fact_server\<lparr>vectorizing := [], serverStorage := fact_added\<rparr>), [sample_fact])"
    using fact_added sample_fact_text
    by (intro server_step.vectorized [where x = "Ok ()" and as = "[]" and bs = "[]"])
      (simp_all add: fact_server_parts vectorizeEvent_def)
qed


text \<open>
  C37: \<open>Publish\<close> goes on when the event cannot be stored, so a fact event whose id is taken is
  still embedded: its vector is linked to the other event stored under that id, which a search
  for the new text then finds.
\<close>

theorem duplicate_id_gets_vector:
  assumes ok: "world_ok W" and inv: "server_inv W (s, hs)"
    and old: "holds_event (wPb W) (serverStorage s) old" "event_wf old"
    and new: "event_wf ev" "evId ev = evId old" "IsFactEvent (evType ev)" "extractTextContent (wPb W) ev \<noteq> []"
    and emb: "embeddingProvider s = Some emb" "vectorizing s = []"
      "emb (serverCalls s) (extractTextContent (wPb W) ev) = Inr vec"
    and added: "AddEmbeddingToEvent (wEnv W) (wGraph W) (evId ev) vec
      (serverStorage (accept_event W ev s)) = (Ok u, p)"
    and up: "\<not> StmtFails (wEnv W) (ticks p)"
  shows "\<exists>t. runs (server_step W) (s, hs) [Accept ev, Vectorize ev] (t, ev # hs) \<and>
    linked_vector (wGraph W) (serverStorage t) (evId old) vec \<and>
    fst (GetEventByID (wEnv W) (wPb W) (evId old) (serverStorage t)) = Ok (stored_form (wPb W) old)"
proof -
  let ?s1 = "accept_event W ev s"
  let ?t = "next_call (?s1\<lparr>vectorizing := [], serverStorage := p\<rparr>)"
  have tasks: "vectorizing ?s1 = [] @ ev # []" using new(3) emb by (simp add: accept_event_parts)
  have s1: "server_step W (s, hs) (Accept ev) (?s1, ev # hs)" by (rule server_step.accepted [OF new(1)])
  have s2: "server_step W (?s1, ev # hs) (Vectorize ev) (?t, ev # hs)"
    using new(4) emb added
    by (intro server_step.vectorized [OF tasks, where x = "Ok ()"])
      (simp_all add: vectorizeEvent_def accept_event_parts)
  have run: "runs (server_step W) (s, hs) [Accept ev, Vectorize ev] (?t, ev # hs)"
    by (rule runs.go [where step = "server_step W", OF s1 runs_one [where step = "server_step W", OF s2]])
  have inv': "storage_inv (wGraph W) (wPb W) p"
    using bus.run_inv [OF run] ok inv by (simp add: server_inv_def)
  have "grows (serverStorage s) p"
    using grows_trans [OF StoreEvent_grows [OF prod.collapse [symmetric]] AddEmbeddingToEvent_grows [OF added
        [unfolded accept_event_parts]]] .
  then have "holds_event (wPb W) p old" using old(1) by (rule holds_event_grows)
  then have "fst (GetEventByID (wEnv W) (wPb W) (evId old) p) = Ok (stored_form (wPb W) old)"
    using sq.get_holds [of "wGraph W" "wPb W" p old "wEnv W"] old(2) up inv' world_okD [OF ok] by simp
  then show ?thesis
    using run AddEmbeddingToEvent_links [OF world_okD(1) [OF ok] added] new(2)
    by (intro exI [of _ ?t]) simp
qed

definition clashing_fact :: event where
  "clashing_fact = sample_fact\<lparr>evId := ''e1''\<rparr>"

definition clash_added :: "graph provider" where
  "clash_added = snd (AddEmbeddingToEvent calm_env list_graph ''e1'' [f32_one]
     (snd (StoreEvent calm_env list_graph text_pb clashing_fact [] sample_stored)))"

lemma clash_added_ok:
  "fst (AddEmbeddingToEvent calm_env list_graph ''e1'' [f32_one]
     (snd (StoreEvent calm_env list_graph text_pb clashing_fact [] sample_stored))) = Ok ()"
  by code_simp

theorem duplicate_id_gets_vector_witness:
  "\<exists>t :: graph server. linked_vector list_graph (serverStorage t) ''e1'' [f32_one] \<and>
     fst (GetEventByID calm_env text_pb ''e1'' (serverStorage t)) = Ok (stored_form text_pb sample_event)"
proof -
  have held: "holds_event (wPb sample_world) (serverStorage sample_server) sample_event"
    using StoreEvent_holds [OF sample_store] by simp
  have added: "AddEmbeddingToEvent (wEnv sample_world) (wGraph sample_world) (evId clashing_fact) [f32_one]
      (serverStorage (accept_event sample_world clashing_fact sample_server)) = (Ok (), clash_added)"
    using clash_added_ok
    by (simp add: clash_added_def clashing_fact_def accept_event_parts prod_eq_iff)
  have id: "evId clashing_fact = evId sample_event" by (simp add: clashing_fact_def sample_event_def)
  have fact: "IsFactEvent (evType clashing_fact)" "event_wf clashing_fact" by code_simp+
  have txt_ok: "extractTextContent (wPb sample_world) clashing_fact \<noteq> []"
    by (simp add: extractTextContent_def clashing_fact_def sample_fact_def)
  have up: "\<not> StmtFails (wEnv sample_world) (ticks clash_added)" by (simp add: calm_env_def)
  have "(\<lambda>n t. Inr [f32_one]) (serverCalls sample_server) (extractTextContent (wPb sample_world) clashing_fact) =
    Inr [f32_one]" by simp
  from duplicate_id_gets_vector [OF sample_world_ok sample_server_inv held sample_event_wf fact(2) id fact(1)
      txt_ok sample_server_parts(4,6) this added up]
  moreover have "evId sample_event = ''e1''" by (simp add: sample_event_def)
  ultimately show ?thesis unfolding sample_world_parts by (simp only:) blast
qed

section \<open>Search\<close>

lemma fetch_results_sound:
  assumes "pb_json_ok P" "distinct (map nId (Nodes p))"
    and "fetch_results E P rs p = (xs, q)" "x \<in> set xs"
    and "\<forall>r \<in> set rs. \<exists>n \<in> set (Nodes p). \<exists>stored. row_event P n stored \<and> nId n = qrID r \<and> nType n = ''event''"
  shows "\<exists>r \<in> set rs. snd x = qrScore r \<and>
    (\<exists>n \<in> set (Nodes p). \<exists>stored. row_event P n stored \<and> nId n = qrID r \<and> fst x = stored_form P stored)"
  using assms(2-5)
proof (induction rs arbitrary: p xs q)
  case (Cons r rs)
  obtain y p1 where g: "GetEventByID E P (qrID r) p = (y, p1)" by fastforce
  obtain zs p2 where f: "fetch_results E P rs p1 = (zs, p2)" by fastforce
  have same: "Nodes p1 = Nodes p" using read_states(1) [OF g] by (simp add: same_store_def)
  have rest: "x \<in> set zs \<Longrightarrow> ?case"
    using Cons.IH [OF _ f] Cons.prems(1,4) same by auto
  show ?case
  proof (cases "\<exists>ev. y = Ok ev \<and> x = (ev, qrScore r)")
    case True
    then obtain ev where y: "y = Ok ev" "x = (ev, qrScore r)" by blast
    obtain n stored where n: "n \<in> set (Nodes p)" "row_event P n stored" "nId n = qrID r" "nType n = ''event''"
      using Cons.prems(4) by auto
    have "holds_event P p stored"
      using n by (auto simp: holds_event_def row_event_def is_event_def)
    moreover have "\<not> StmtFails E (ticks p)" using g y by (auto simp: GetEventByID_def split: if_splits)
    ultimately have "fst (GetEventByID E P (evId stored) p) = Ok (stored_form P stored)"
      using n(2) by (intro GetEventByID_holds [OF assms(1) _ Cons.prems(1)]) (simp_all add: row_event_def)
    then have "ev = stored_form P stored" using g y n by (simp add: row_event_def)
    then show ?thesis using y n by auto
  next
    case False
    then have "x \<in> set zs" using Cons.prems(2,3) g f by (cases y) auto
    then show ?thesis by (rule rest)
  qed
qed simp

lemma fetch_results_length: "fetch_results E P rs p = (xs, q) \<Longrightarrow> length xs \<le> length rs"
  by (induction rs arbitrary: p xs q) (force split: prod.splits res.splits)+

text \<open>What a result of the query stands for once it is fetched.\<close>

lemma search_result_sound:
  assumes "world_ok W" "storage_inv (wGraph W) (wPb W) p" "Nodes p' = Nodes p"
    and "fetch_results (wEnv W) (wPb W) rs p' = (xs, q)" "x \<in> set xs"
    and R: "\<forall>r \<in> set rs. sound_result (wGraph W) vec p r \<and> (\<exists>n \<in> set (Nodes p). \<exists>ev.
      row_event (wPb W) n ev \<and> nId n = qrID r \<and> nType n = ''event'' \<and>
      (case search_filter req of None \<Rightarrow> True | Some fl \<Rightarrow> event_matches fl ev))"
  shows "\<exists>stored. fst x = stored_form (wPb W) stored \<and>
    sound_result (wGraph W) vec p \<lparr>qrID = evId stored, qrScore = snd x\<rparr> \<and>
    (SearchUserId req = [] \<or> evUserId stored = SearchUserId req)"
proof -
  have wf: "events_wf (wPb W) p" using assms(2) by (simp add: storage_inv_def)
  then have dist: "distinct (map nId (Nodes p'))" using assms(3) by (simp add: events_wf_def)
  obtain r n stored where r: "r \<in> set rs" "snd x = qrScore r" "n \<in> set (Nodes p)"
    "row_event (wPb W) n stored" "nId n = qrID r" "fst x = stored_form (wPb W) stored"
    using fetch_results_sound [OF world_okD(2) [OF assms(1)] dist assms(4,5)] R assms(3) by metis
  obtain n' ev where n': "n' \<in> set (Nodes p)" "row_event (wPb W) n' ev" "nId n' = qrID r"
    "case search_filter req of None \<Rightarrow> True | Some fl \<Rightarrow> event_matches fl ev" using R r(1) by metis
  have "evUserId ev = evUserId stored"
    using row_event_same_id [OF world_okD(2) [OF assms(1)] wf r(3) n'(1) _ r(4) n'(2)] r(5) n'(3) by simp
  moreover have "evId stored = qrID r" using r(4,5) by (simp add: row_event_def)
  moreover have "SearchUserId req = [] \<or> evUserId ev = SearchUserId req"
    using n'(4) by (auto simp: search_filter_def event_matches_def split: if_splits)
  ultimately show ?thesis using r R by (intro exI [of _ stored]) (cases r; simp)
qed

text \<open>
  C6: a search that succeeds gives as many scores as events and at most \<open>top_k\<close> of them (five
  when \<open>top_k\<close> is not positive); each is a stored event that is linked to a vector, with the
  score of that vector against the embedding of the query, and a search for a user gives only
  events of that user. It leaves storage and streams as they are.
\<close>

theorem search_answers:
  assumes "world_ok W" "server_inv W (s, hs)"
    and "case search_filter req of None \<Rightarrow> True | Some fl \<Rightarrow> filter_wf fl"
    and "Search W req s = (Ok (evs, scs), t)"
  shows "length evs = length scs \<and>
    int (length evs) \<le> (if sint (TopK req) \<le> 0 then 5 else sint (TopK req)) \<and>
    same_store (serverStorage s) (serverStorage t) \<and> serverStreams t = serverStreams s \<and>
    (\<exists>vec. \<forall>x \<in> set (zip evs scs). \<exists>stored. fst x = stored_form (wPb W) stored \<and>
       sound_result (wGraph W) vec (serverStorage s) \<lparr>qrID = evId stored, qrScore = snd x\<rparr> \<and>
       (SearchUserId req = [] \<or> evUserId stored = SearchUserId req))"
  using assms(4)
proof (cases rule: Search_cases)
  case (queried emb vec y p)
  obtain rs where y: "y = Ok rs" using queried(4) by (cases y) auto
  obtain xs q where f: "fetch_results (wEnv W) (wPb W) rs p = (xs, q)" by fastforce
  have t: "evs = map fst xs" "scs = map snd xs" using queried(4) y f by auto
  let ?p = "serverStorage s"
  have inv: "storage_inv (wGraph W) (wPb W) ?p" using assms(2) by (simp add: server_inv_def)
  note R = QuerySimilar_results [OF world_okD(1-3) [OF assms(1)] inv assms(3) queried(3) [unfolded y]]
  have plain: "filter_plain (search_filter req)"
    using assms(3) where_plain by (cases "search_filter req") (simp_all add: filter_plain_def)
  have same: "same_store ?p p" by (rule QuerySimilar_state [OF plain queried(3)])
  then have nodes: "Nodes p = Nodes ?p" by (simp add: same_store_def)
  have len: "length xs \<le> length rs" by (rule fetch_results_length [OF f])
  have one: "\<exists>stored. fst x = stored_form (wPb W) stored \<and>
      sound_result (wGraph W) vec ?p \<lparr>qrID = evId stored, qrScore = snd x\<rparr> \<and>
      (SearchUserId req = [] \<or> evUserId stored = SearchUserId req)"
    if x: "x \<in> set xs" for x
    using search_result_sound [OF assms(1) inv nodes f x] R by blast
  have "\<forall>x \<in> set (zip evs scs). \<exists>stored. fst x = stored_form (wPb W) stored \<and>
       sound_result (wGraph W) vec ?p \<lparr>qrID = evId stored, qrScore = snd x\<rparr> \<and>
       (SearchUserId req = [] \<or> evUserId stored = SearchUserId req)"
    using one by (simp only: t zip_map_fst_snd) blast
  moreover have "int (length evs) \<le> search_topK req" using len R by (simp add: t)
  moreover have "length evs = length scs" by (simp add: t)
  ultimately show ?thesis
    using Search_state [OF assms(4) plain] unfolding search_topK_def by blast
qed simp_all

definition ann_search :: search_request where
  "ann_search = \<lparr>QueryText = ''tea'', TopK = 0, SearchUserId = ''ann'', AttributeFilters = []\<rparr>"

lemma ann_search_filter: "search_filter ann_search = Some (user_filter ann_question)"
  by (simp add: ann_search_def search_filter_def user_filter_def ann_question_def)

lemma ann_search_runs:
  "\<exists>t. Search sample_world ann_search sample_server = (Ok ([stored_form text_pb sample_event], [f32_one]), t)"
proof -
  let ?p = "tick (tick (tick sample_stored))"
  have "fst (GetEventByID calm_env text_pb ''e1'' ?p) = Ok (stored_form text_pb sample_event)" by code_simp
  then have "\<exists>q. GetEventByID calm_env text_pb ''e1'' ?p = (Ok (stored_form text_pb sample_event), q)"
    by (metis prod.collapse)
  then obtain q where "fetch_results calm_env text_pb [\<lparr>qrID = ''e1'', qrScore = f32_one\<rparr>] ?p =
      ([(stored_form text_pb sample_event, f32_one)], q)" by auto
  moreover have "search_topK ann_search = ragTopK"
    by (simp add: ann_search_def search_topK_def ragTopK_def)
  moreover have "evUserId ann_question = ''ann''" by (simp add: ann_question_def)
  ultimately show ?thesis
    using sample_user_search ann_search_filter by (simp add: Search_def ann_search_def)
qed

theorem search_answers_witness:
  "\<exists>t :: graph server.
     Search sample_world ann_search sample_server = (Ok ([stored_form text_pb sample_event], [f32_one]), t) \<and>
     same_store sample_stored (serverStorage t)"
proof -
  obtain t where run: "Search sample_world ann_search sample_server =
      (Ok ([stored_form text_pb sample_event], [f32_one]), t)" using ann_search_runs by blast
  have "case search_filter ann_search of None \<Rightarrow> True | Some fl \<Rightarrow> filter_wf fl"
    by (simp add: ann_search_filter user_filter_wf)
  from search_answers [OF sample_world_ok sample_server_inv this run] run show ?thesis by auto
qed

end
