(* ===== verification/Providers.thy ===== *)
theory Providers
  imports Server "HOL-Library.Sublist"
begin

text \<open>
  The compute and embedding providers of \<open>internal/providers\<close>: the mock provider, the OpenAI
  providers and the Ollama provider with its retries. The HTTP services behind them are
  parameters: what a call answers depends on the number of the call and on the request.
\<close>

section \<open>Errors\<close>

text \<open>
  \<open>err.Error()\<close> of the errors the providers make; the texts of the database driver's errors
  never reach them and are left empty.
\<close>

fun err_text :: "err \<Rightarrow> string" where
  "err_text (Errorf s) = s"
| "err_text (Wrap s e) = s @ '': '' @ err_text e"
| "err_text _ = []"

datatype standard_error =
    ErrProviderUnavailable | ErrInvalidInput | ErrTimeout | ErrRateLimited | ErrUnauthorized | ErrInternalError

fun standard_text :: "standard_error \<Rightarrow> string" where
  "standard_text ErrProviderUnavailable = ''provider service is unavailable''"
| "standard_text ErrInvalidInput = ''invalid input provided to provider''"
| "standard_text ErrTimeout = ''provider operation timed out''"
| "standard_text ErrRateLimited = ''provider rate limit exceeded''"
| "standard_text ErrUnauthorized = ''provider authentication failed''"
| "standard_text ErrInternalError = ''provider internal error''"

definition WrapProviderError :: "standard_error \<Rightarrow> err option \<Rightarrow> err" where
  "WrapProviderError std e =
     (case e of None \<Rightarrow> Errorf (standard_text std) | Some e \<Rightarrow> Wrap (standard_text std) e)"

section \<open>The mock provider\<close>

definition mock_execute :: compute where
  "mock_execute n requestData = Inr ''Mock response from mock-provider''"

section \<open>The OpenAI providers\<close>

datatype chat_role = ChatMessageRoleSystem | ChatMessageRoleUser | ChatMessageRoleAssistant

record chat_message =
  msgRole :: chat_role
  msgContent :: string

datatype openai_model = GPT4o | LargeEmbedding3

text \<open>The temperature is the \<open>float32\<close> of \<open>0.7\<close>.\<close>

record chat_request =
  chatModel :: openai_model
  chatMessages :: "chat_message list"
  chatTemperature :: f32
  chatMaxTokens :: int

record embedding_request =
  embInput :: "string list"
  embModel :: openai_model

text \<open>A chat completion answers the contents of its choices, an embedding its vectors.\<close>

record openai_api =
  CreateChatCompletion :: "nat \<Rightarrow> chat_request \<Rightarrow> err + string list"
  CreateEmbeddings :: "nat \<Rightarrow> embedding_request \<Rightarrow> err + f32 list list"

definition string_at :: "string \<Rightarrow> (string \<times> string) list \<Rightarrow> string" where
  "string_at k m = (case map_of m k of Some s \<Rightarrow> s | None \<Rightarrow> [])"

definition openai_message :: "(string \<times> string) list \<Rightarrow> chat_message" where
  "openai_message msg =
     (let role = string_at ''role'' msg
      in \<lparr>msgRole =
            (if role = ''system'' then ChatMessageRoleSystem
             else if role = ''user'' then ChatMessageRoleUser
             else if role = ''assistant'' then ChatMessageRoleAssistant
             else ChatMessageRoleUser),
          msgContent = string_at ''content'' msg\<rparr>)"

text \<open>Reading from a nil map finds nothing.\<close>

definition request_field :: "gval gomap option \<Rightarrow> string \<Rightarrow> gval option" where
  "request_field requestData k = (case requestData of None \<Rightarrow> None | Some m \<Rightarrow> map_of m k)"

definition openai_messages :: "gval gomap option \<Rightarrow> err + chat_message list" where
  "openai_messages requestData =
     (case request_field requestData ''messages'' of
        Some v \<Rightarrow>
          (case v of
             GMsgs ms \<Rightarrow> Inr (map openai_message ms)
           | _ \<Rightarrow> Inl (Errorf (apos # ''messages'' @ apos # '' field has invalid format'')))
      | None \<Rightarrow>
          (case request_field requestData ''prompt'' of
             None \<Rightarrow> Inl (Errorf (''no '' @ apos # ''prompt'' @ apos # '' or '' @ apos # ''messages'' @
               apos # '' field found in request data''))
           | Some (GStr prompt) \<Rightarrow> Inr [\<lparr>msgRole = ChatMessageRoleUser, msgContent = prompt\<rparr>]
           | Some _ \<Rightarrow> Inl (Errorf (apos # ''prompt'' @ apos # '' field is not a string''))))"

definition openai_request :: "chat_message list \<Rightarrow> chat_request" where
  "openai_request ms =
     \<lparr>chatModel = GPT4o, chatMessages = ms, chatTemperature = 0x3F333333, chatMaxTokens = 2000\<rparr>"

definition openai_execute :: "openai_api \<Rightarrow> compute" where
  "openai_execute A n requestData =
     (case openai_messages requestData of
        Inl e \<Rightarrow> Inl e
      | Inr ms \<Rightarrow>
          (case CreateChatCompletion A n (openai_request ms) of
             Inl e \<Rightarrow> Inl (Wrap ''OpenAI API error'' e)
           | Inr [] \<Rightarrow> Inl (Errorf ''no response choices from OpenAI'')
           | Inr (content # _) \<Rightarrow> Inr content))"

definition openai_embed :: "openai_api \<Rightarrow> embedder" where
  "openai_embed A n text =
     (case CreateEmbeddings A n \<lparr>embInput = [text], embModel = LargeEmbedding3\<rparr> of
        Inl e \<Rightarrow> Inl (Wrap ''OpenAI embedding error'' e)
      | Inr [] \<Rightarrow> Inl (Errorf ''no embedding returned from OpenAI'')
      | Inr (vec # _) \<Rightarrow> Inr vec)"

section \<open>The Ollama provider\<close>

record generate_response =
  grResponse :: string
  grDone :: bool

text \<open>What one exchange with the service comes to.\<close>

datatype http_result = BadRequest err | NetworkError err | Reply (status: nat) (body: string)

text \<open>
  \<open>Post k i\<close> is the exchange of the \<open>i\<close>-th attempt of call \<open>k\<close>; \<open>DelayCancelled k i\<close> is the
  context's error when the context ends the delay before that attempt; \<open>DecodeReply\<close> is the
  decoder of \<open>encoding/json\<close> at the struct \<open>GenerateResponse\<close> (only the two fields the code reads).
\<close>

record ollama =
  BaseURL :: string
  Post :: "nat \<Rightarrow> nat \<Rightarrow> string \<Rightarrow> string \<Rightarrow> http_result"
  DelayCancelled :: "nat \<Rightarrow> nat \<Rightarrow> err option"
  DecodeReply :: "string \<Rightarrow> err + generate_response"

definition maxRetries :: nat where
  "maxRetries = 2"

definition invalid_input :: "string \<Rightarrow> err" where
  "invalid_input s = WrapProviderError ErrInvalidInput (Some (Errorf s))"

definition nonempty_string :: "string \<Rightarrow> gval gomap option \<Rightarrow> err + string" where
  "nonempty_string k requestData =
     (case request_field requestData k of
        None \<Rightarrow> Inl (invalid_input (''missing required field: '' @ k))
      | Some v \<Rightarrow>
          (case v of
             GStr s \<Rightarrow> if s = [] then Inl (invalid_input (k @ '' must be a non-empty string'')) else Inr s
           | _ \<Rightarrow> Inl (invalid_input (k @ '' must be a non-empty string''))))"

definition extractParameters :: "gval gomap option \<Rightarrow> err + string \<times> string" where
  "extractParameters requestData =
     (case nonempty_string ''model'' requestData of
        Inl e \<Rightarrow> Inl e
      | Inr model \<Rightarrow>
          if request_field requestData ''stream'' = Some (GBool True)
          then Inl (invalid_input ''streaming responses are not supported yet'')
          else (case nonempty_string ''prompt'' requestData of
                  Inl e \<Rightarrow> Inl e
                | Inr prompt \<Rightarrow> Inr (model, prompt)))"

text \<open>\<open>json.Marshal\<close> of \<open>GenerateRequest\<close>; it cannot fail on two strings and a bool.\<close>

definition generate_request :: "string \<Rightarrow> string \<Rightarrow> string" where
  "generate_request model prompt =
     ''{'' @ quote ''model'' @ '':'' @ quote model @ '','' @ quote ''prompt'' @ '':'' @ quote prompt @
     '','' @ quote ''stream'' @ '':false}''"

definition status_error :: "nat \<Rightarrow> string \<Rightarrow> err" where
  "status_error st b =
     (if st = 401 then
        WrapProviderError ErrUnauthorized (Some (Errorf (''status '' @ dec_nat st @ '': '' @ b)))
      else if st = 429 then
        WrapProviderError ErrRateLimited (Some (Errorf (''status '' @ dec_nat st @ '': '' @ b)))
      else if st = 500 \<or> st = 502 \<or> st = 503 then
        WrapProviderError ErrProviderUnavailable (Some (Errorf (''status '' @ dec_nat st @ '': '' @ b)))
      else
        WrapProviderError ErrInternalError (Some (Errorf (''unexpected status '' @ dec_nat st @ '': '' @ b))))"

definition doRequest :: "ollama \<Rightarrow> nat \<Rightarrow> nat \<Rightarrow> string \<Rightarrow> string \<Rightarrow> err + string" where
  "doRequest L k i model prompt =
     (case Post L k i (BaseURL L @ ''/api/generate'') (generate_request model prompt) of
        BadRequest e \<Rightarrow> Inl (WrapProviderError ErrInternalError (Some e))
      | NetworkError e \<Rightarrow> Inl (WrapProviderError ErrProviderUnavailable (Some e))
      | Reply st b \<Rightarrow>
          if st \<noteq> 200 then Inl (status_error st b)
          else (case DecodeReply L b of
                  Inl e \<Rightarrow> Inl (WrapProviderError ErrInternalError (Some (Wrap ''failed to decode response'' e)))
                | Inr r \<Rightarrow>
                    if \<not> grDone r
                    then Inl (WrapProviderError ErrInternalError (Some (Errorf ''incomplete response from Ollama'')))
                    else Inr (grResponse r)))"

fun bytesContains :: "string \<Rightarrow> string \<Rightarrow> bool" where
  "bytesContains [] sub \<longleftrightarrow> sub = []"
| "bytesContains (c # s) sub \<longleftrightarrow> prefix sub (c # s) \<or> bytesContains s sub"

definition isRetryableError :: "err \<Rightarrow> bool" where
  "isRetryableError e \<longleftrightarrow>
     standard_text ErrProviderUnavailable = err_text e \<or>
     bytesContains (err_text e) ''provider service is unavailable'' \<or>
     bytesContains (err_text e) ''connection refused'' \<or>
     bytesContains (err_text e) ''timeout''"

text \<open>
  The retry loop from attempt \<open>i\<close> on, \<open>left\<close> attempts remaining. The second component counts
  the attempts that are made, also one that fails before its HTTP request is built.
\<close>

fun retry_loop :: "ollama \<Rightarrow> nat \<Rightarrow> string \<Rightarrow> string \<Rightarrow> nat \<Rightarrow> nat \<Rightarrow> err \<Rightarrow> (err + string) \<times> nat" where
  "retry_loop L k model prompt i 0 lastErr = (Inl lastErr, 0)"
| "retry_loop L k model prompt i (Suc left) lastErr =
     (case if 0 < i then DelayCancelled L k i else None of
        Some ctxErr \<Rightarrow> (Inl (WrapProviderError ErrTimeout (Some ctxErr)), 0)
      | None \<Rightarrow>
          (case doRequest L k i model prompt of
             Inr response \<Rightarrow> (Inr response, 1)
           | Inl e \<Rightarrow>
               if \<not> isRetryableError e then (Inl e, 1)
               else (case retry_loop L k model prompt (i + 1) left e of (r, n) \<Rightarrow> (r, n + 1))))"

definition ollama_run :: "ollama \<Rightarrow> nat \<Rightarrow> gval gomap option \<Rightarrow> (err + string) \<times> nat" where
  "ollama_run L k requestData =
     (case extractParameters requestData of
        Inl e \<Rightarrow> (Inl e, 0)
      | Inr (model, prompt) \<Rightarrow> retry_loop L k model prompt 0 (maxRetries + 1) (Errorf []))"

definition ollama_execute :: "ollama \<Rightarrow> compute" where
  "ollama_execute L k requestData = fst (ollama_run L k requestData)"

end
