(* ===== verification/ProviderProperties.thy ===== *)
theory ProviderProperties
  imports Providers RagProperties
begin

text \<open>
  The properties of the providers: the retry policy of the Ollama provider and which answers it
  retries, what it accepts, and which messages the OpenAI provider makes of a request that
  went through the context enhancement.
\<close>

section \<open>Substrings\<close>

lemma bytesContains_sublist: "bytesContains s sub \<longleftrightarrow> sublist sub s"
  by (induction s sub rule: bytesContains.induct) (auto simp: sublist_Cons_right)

lemma bytesContains_skip:
  "list_all (\<lambda>c. c \<noteq> hd sub) ds \<Longrightarrow> sub \<noteq> [] \<Longrightarrow> bytesContains (ds @ s) sub = bytesContains s sub"
  by (induction ds) (auto simp: prefix_Cons neq_Nil_conv)

lemma bytesContains_number:
  assumes "sub \<noteq> []" "\<not> is_digit (hd sub)"
  shows "bytesContains (dec_nat n @ s) sub = bytesContains s sub"
proof -
  have "list_all (\<lambda>c. c \<noteq> hd sub) (dec_nat n)"
    using dec_nat_digits [of n] assms(2) by (auto simp: list_all_iff)
  then show ?thesis by (rule bytesContains_skip [OF _ assms(1)])
qed

section \<open>Retries\<close>

text \<open>
  Which answers with an error status the Ollama provider retries: those with status 500,
  502 or 503, and any other (also 401 and 429) whose body happens to contain one of three texts.
\<close>

theorem retried_replies:
  "isRetryableError (status_error st b) \<longleftrightarrow>
     st = 500 \<or> st = 502 \<or> st = 503 \<or> bytesContains b ''provider service is unavailable'' \<or>
     bytesContains b ''connection refused'' \<or> bytesContains b ''timeout''"
  by (simp add: isRetryableError_def status_error_def WrapProviderError_def bytesContains_number
      prefix_Cons is_digit_def)

text \<open>What the retry loop does from attempt \<open>i\<close> on, over any attempts and delays.\<close>

definition retry_spec :: "(nat \<Rightarrow> err + string) \<Rightarrow> (nat \<Rightarrow> err option) \<Rightarrow> nat \<Rightarrow> nat \<Rightarrow> err + string \<Rightarrow> nat \<Rightarrow> bool" where
  "retry_spec att cancelled i left r n \<longleftrightarrow>
     n \<le> left \<and>
     (\<forall>j. j + 1 < n \<longrightarrow> (\<exists>e. att (i + j) = Inl e \<and> isRetryableError e)) \<and>
     (\<forall>j < n. 0 < i + j \<longrightarrow> cancelled (i + j) = None) \<and>
     (0 < n \<and> r = att (i + n - 1) \<and> (\<forall>e. r = Inl e \<and> isRetryableError e \<longrightarrow> n = left) \<or>
      n < left \<and> 0 < i + n \<and>
      (\<exists>c. cancelled (i + n) = Some c \<and> r = Inl (WrapProviderError ErrTimeout (Some c))) \<and>
      (0 < n \<longrightarrow> (\<exists>e. att (i + n - 1) = Inl e \<and> isRetryableError e)))"

lemma retry_loop_spec:
  "0 < left \<Longrightarrow> retry_loop L k model prompt i left e = (r, n) \<Longrightarrow>
    retry_spec (\<lambda>j. doRequest L k j model prompt) (DelayCancelled L k) i left r n"
proof (induction left arbitrary: i e r n)
  case (Suc left)
  show ?case
  proof (cases "if 0 < i then DelayCancelled L k i else None")
    case (Some c)
    then show ?thesis using Suc.prems by (auto simp: retry_spec_def split: if_splits)
  next
    case None
    show ?thesis
    proof (cases "\<exists>e. doRequest L k i model prompt = Inl e \<and> isRetryableError e \<and> 0 < left")
      case True
      then obtain e1 where e1: "doRequest L k i model prompt = Inl e1" "isRetryableError e1" "0 < left" by blast
      obtain n1 where n1: "retry_loop L k model prompt (i + 1) left e1 = (r, n1)" "n = n1 + 1"
        using Suc.prems(2) None e1 by (auto split: prod.splits)
      have IH: "retry_spec (\<lambda>j. doRequest L k j model prompt) (DelayCancelled L k) (i + 1) left r n1"
        by (rule Suc.IH [OF e1(3) n1(1)])
      have a: "\<exists>e. doRequest L k (i + j) model prompt = Inl e \<and> isRetryableError e" if "j + 1 < n" for j
      proof (cases j)
        case (Suc j')
        then show ?thesis using IH that n1(2) by (auto simp: retry_spec_def)
      qed (use e1 in simp)
      have b: "DelayCancelled L k (i + j) = None" if "j < n" "0 < i + j" for j
      proof (cases j)
        case 0
        then show ?thesis using None that by (simp split: if_splits)
      next
        case (Suc j')
        then show ?thesis using IH that n1(2) by (auto simp: retry_spec_def)
      qed
      show ?thesis
      proof (cases "n1 = 0")
        case True
        then show ?thesis using IH e1 a b n1(2) by (auto simp: retry_spec_def)
      next
        case False
        then show ?thesis using IH a b n1(2) unfolding retry_spec_def by auto
      qed
    next
      case False
      then show ?thesis
        using Suc.prems(2) None
        by (cases left) (auto simp: retry_spec_def split: sum.splits if_splits)
    qed
  qed
qed simp

text \<open>
  C21: the retry policy: a call with valid parameters makes one to three attempts; every
  attempt but the last failed with a retryable error and the delay behind it was not cut
  short; the call returns what the last attempt gave, which is an answer, an error that is not
  retryable or the error of the third attempt, unless the context ended the delay before the
  next attempt.
\<close>

theorem ollama_retries:
  assumes "extractParameters m = Inr (model, prompt)" "ollama_run L k m = (r, n)"
  shows "1 \<le> n \<and> n \<le> 3 \<and>
    (\<forall>j. j + 1 < n \<longrightarrow> (\<exists>e. doRequest L k j model prompt = Inl e \<and> isRetryableError e)) \<and>
    (\<forall>j < n. 0 < j \<longrightarrow> DelayCancelled L k j = None) \<and>
    (r = doRequest L k (n - 1) model prompt \<and> (\<forall>e. r = Inl e \<and> isRetryableError e \<longrightarrow> n = 3) \<or>
     n < 3 \<and> (\<exists>c. DelayCancelled L k n = Some c \<and> r = Inl (WrapProviderError ErrTimeout (Some c))))"
proof -
  have "retry_loop L k model prompt 0 3 (Errorf []) = (r, n)"
    using assms by (simp add: ollama_run_def maxRetries_def)
  then have "retry_spec (\<lambda>j. doRequest L k j model prompt) (DelayCancelled L k) 0 3 r n"
    by (rule retry_loop_spec [rotated]) simp
  then show ?thesis by (auto simp: retry_spec_def)
qed

definition flaky_ollama :: ollama where
  "flaky_ollama =
     \<lparr>BaseURL = ''http://h'', Post = (\<lambda>k i u b. if i = 0 then Reply 503 ''busy'' else Reply 200 ''ok''),
      DelayCancelled = (\<lambda>k i. None), DecodeReply = (\<lambda>b. Inr \<lparr>grResponse = b, grDone = True\<rparr>)\<rparr>"

definition ollama_input :: "gval gomap option" where
  "ollama_input = Some (gm_of [(''model'', GStr ''m''), (''prompt'', GStr ''p'')])"

lemma flaky_run: "ollama_run flaky_ollama 0 ollama_input = (Inr ''ok'', 2)"
  by code_simp

lemma ollama_input_ok: "extractParameters ollama_input = Inr (''m'', ''p'')"
  by code_simp

theorem ollama_retries_witness:
  "ollama_run flaky_ollama 0 ollama_input = (Inr ''ok'', 2) \<and>
   (\<exists>e. doRequest flaky_ollama 0 0 ''m'' ''p'' = Inl e \<and> isRetryableError e)"
  using ollama_retries [OF ollama_input_ok flaky_run] flaky_run by simp

text \<open>
  The Ollama provider accepts exactly the requests with a non-empty string as \<open>model\<close> and
  as \<open>prompt\<close> whose \<open>stream\<close> is not \<open>true\<close>; for any other it fails without sending anything.
\<close>

lemma ollama_accepts:
  "(\<exists>model prompt. extractParameters m = Inr (model, prompt)) =
     ((\<exists>s. request_field m ''model'' = Some (GStr s) \<and> s \<noteq> []) \<and>
      (\<exists>s. request_field m ''prompt'' = Some (GStr s) \<and> s \<noteq> []) \<and>
      request_field m ''stream'' \<noteq> Some (GBool True)) \<and>
   (snd (ollama_run L k m) = 0) = (\<nexists>model prompt. extractParameters m = Inr (model, prompt))"
proof -
  have field: "nonempty_string f m = Inr s \<longleftrightarrow> request_field m f = Some (GStr s) \<and> s \<noteq> []" for f s
    by (auto simp: nonempty_string_def split: option.splits gval.splits)
  have "(\<exists>model prompt. extractParameters m = Inr (model, prompt)) =
     ((\<exists>s. nonempty_string ''model'' m = Inr s) \<and> (\<exists>s. nonempty_string ''prompt'' m = Inr s) \<and>
      request_field m ''stream'' \<noteq> Some (GBool True))"
    by (auto simp: extractParameters_def split: sum.splits)
  moreover have "(snd (ollama_run L k m) = 0) = (\<nexists>model prompt. extractParameters m = Inr (model, prompt))"
    by (cases "extractParameters m")
      (auto simp: ollama_run_def maxRetries_def eval_nat_numeral split: sum.splits prod.splits if_splits option.splits)
  ultimately show ?thesis by (simp add: field)
qed

section \<open>Requests with context\<close>

lemma openai_messages_cong:
  assumes "request_field m' ''messages'' = request_field m ''messages''"
    and "request_field m' ''prompt'' = request_field m ''prompt''"
  shows "openai_messages m' = openai_messages m"
  unfolding openai_messages_def assms ..

lemma openai_messages_failed: "openai_messages (Some (rag_failed reason m)) = openai_messages (Some m)"
  by (rule openai_messages_cong) (simp_all add: request_field_def rag_failed_def)

lemma openai_messages_context:
  "openai_messages (Some (with_context P evs m)) =
    Inr [\<lparr>msgRole = ChatMessageRoleSystem,
          msgContent = system_message (renderEventsMarkdown P evs maxContextTokens)\<rparr>,
         \<lparr>msgRole = ChatMessageRoleUser, msgContent = str_field ''prompt'' m\<rparr>]"
  by (simp add: openai_messages_def request_field_def with_context_def Let_def openai_message_def string_at_def)

text \<open>
  C29: what the OpenAI provider is asked after the context enhancement: the messages (or the
  error) of the request as it came, or, when a context was found, a system message with the
  context and the original prompt as the user's message. A request without a string prompt then
  asks with an empty user message, and its own messages are lost.
\<close>

theorem enhanced_messages:
  assumes "applyRAGEnhancement R E H S P ev (Some m) c p = (Some m', c', q)"
  shows "openai_messages (Some m') = openai_messages (Some m) \<or>
    (\<exists>evs. openai_messages (Some m') =
      Inr [\<lparr>msgRole = ChatMessageRoleSystem,
            msgContent = system_message (renderEventsMarkdown P evs maxContextTokens)\<rparr>,
           \<lparr>msgRole = ChatMessageRoleUser, msgContent = str_field ''prompt'' m\<rparr>])"
  using applyRAG_shapes [OF assms] openai_messages_failed openai_messages_context by metis

theorem enhanced_messages_witness:
  "\<exists>m c q. applyRAGEnhancement sample_rag calm_env list_graph json_sqlite text_pb ann_question
      (Some ann_request) (newEmbeddingCache 1000) sample_stored = (Some m, c, q) \<and>
    (openai_messages (Some m) = openai_messages (Some ann_request) \<or>
     (\<exists>sys. openai_messages (Some m) =
        Inr [\<lparr>msgRole = ChatMessageRoleSystem, msgContent = sys\<rparr>,
             \<lparr>msgRole = ChatMessageRoleUser, msgContent = ''hi''\<rparr>]))"
proof -
  obtain c where run: "applyRAGEnhancement sample_rag calm_env list_graph json_sqlite text_pb ann_question
      (Some ann_request) (newEmbeddingCache 1000) sample_stored =
    (Some (with_context text_pb [sample_event] ann_request), c, tick (tick (tick (tick sample_stored))))"
    using sample_enhanced by blast
  have "str_field ''prompt'' ann_request = ''hi''" by (simp add: str_field_def ann_request_def)
  then show ?thesis using enhanced_messages [OF run] run by auto
qed

end
