(* ===== verification/InteractStream.thy ===== *)
theory InteractStream
  imports Server Machine
begin

text \<open>
  \<open>InteractStream\<close> (\<open>internal/bus/server_interactstream.go\<close>): the handshake as a function of
  what the first \<open>Recv\<close> gives, and the three goroutines behind it (the receiver, the provider's
  \<open>ExecuteStream\<close> and the forwarding loop of the handler) as a state machine over the three
  buffered channels. Which of several ready channels a \<open>select\<close> takes is open, as in Go.
\<close>

section \<open>Messages\<close>

datatype code = InvalidArgument | NotFound | FailedPrecondition | Internal | Canceled

datatype grpc_status = Status code string

record stream_config =
  cfgEventType :: string
  cfgAttributes :: "string gomap"

text \<open>A data request whose message or content is nil carries \<open>None\<close>.\<close>

datatype interact_request =
  ConfigRequest stream_config | DataRequest "byte list option" | ClientEnd | OtherRequest

datatype interact_response = StreamReady string | StreamData "byte list" | ServerEnd | StreamError code string

datatype recv_result = Received interact_request | RecvEOF | RecvError string

section \<open>The handshake\<close>

text \<open>
  \<open>streaming\<close> tells which providers implement \<open>StreamingComputeProvider\<close>; \<open>ready\<close> is the
  error of sending the ready response, if any.
\<close>

definition handshake ::
    "'g server \<Rightarrow> (string \<Rightarrow> bool) \<Rightarrow> string option \<Rightarrow> recv_result \<Rightarrow> grpc_status + string \<times> stream_config" where
  "handshake s streaming ready first =
     (case first of
        RecvEOF \<Rightarrow> Inl (Status InvalidArgument ''stream closed before receiving config'')
      | RecvError e \<Rightarrow> Inl (Status Internal (''failed to receive initial request: '' @ e))
      | Received req \<Rightarrow>
          (case req of
             ConfigRequest cfg \<Rightarrow>
               if cfgEventType cfg = []
               then Inl (Status InvalidArgument ''event_type cannot be empty in StreamConfig'')
               else
                 (let name = fst (SelectProviderForStream (policyEngine s) (cfgEventType cfg))
                  in if name = []
                     then Inl (Status NotFound (''no provider configured for event type: '' @ cfgEventType cfg))
                     else if map_of (serverProviders s) name = None
                     then Inl (Status Internal (''provider not found: '' @ name))
                     else if \<not> streaming name
                     then Inl (Status FailedPrecondition (''selected provider '' @ apos # name @ apos #
                            '' does not support streaming''))
                     else (case ready of
                             Some e \<Rightarrow> Inl (Status Internal (''failed to send ready response: '' @ e))
                           | None \<Rightarrow> Inr (name, cfg)))
           | _ \<Rightarrow> Inl (Status InvalidArgument ''first request must be StreamConfig'')))"

section \<open>The goroutines\<close>

datatype provider_state = Executing | Returned | Closed

text \<open>
  \<open>recvHeld\<close> is a content the receiver has read and not yet passed on. \<open>result\<close> is what the
  handler returned: nil or a status. \<open>dataIn\<close>, \<open>taken\<close> and \<open>produced\<close> record the contents the
  receiver read, the provider took and the provider put out.
\<close>

record stream =
  recvDone :: bool
  recvHeld :: "byte list option"
  clientBuf :: "byte list list"
  provState :: provider_state
  serverBuf :: "byte list list"
  errBuf :: "string list"
  cancelled :: bool
  result :: "grpc_status option option"
  responses :: "interact_response list"
  dataIn :: "byte list list"
  taken :: "byte list list"
  produced :: "byte list list"

definition stream_capacity :: nat where
  "stream_capacity = 10"

definition start_stream :: "string \<Rightarrow> stream" where
  "start_stream streamID =
     \<lparr>recvDone = False, recvHeld = None, clientBuf = [], provState = Executing, serverBuf = [],
      errBuf = [], cancelled = False, result = None, responses = [StreamReady streamID],
      dataIn = [], taken = [], produced = []\<rparr>"

datatype stream_action =
    Receive recv_result | PassOn | GiveUp
  | Take | Produce "byte list" | Return "string option" | CloseServerStream
  | Forward "string option" | SendEnd "string option" | ReportError "string option" | Stop
  | Cancel

text \<open>The dynamic type of a request, as \<open>%T\<close> prints it; a request without a payload has none.\<close>

fun request_type :: "interact_request \<Rightarrow> string" where
  "request_type (ConfigRequest c) = ''*busv1.InteractRequest_Config''"
| "request_type (DataRequest d) = ''*busv1.InteractRequest_Data''"
| "request_type ClientEnd = ''*busv1.InteractRequest_ClientEnd''"
| "request_type OtherRequest = ''<nil>''"

text \<open>One request read by the receiver.\<close>

fun receive :: "recv_result \<Rightarrow> stream \<Rightarrow> stream" where
  "receive RecvEOF s = s\<lparr>recvDone := True\<rparr>"
| "receive (RecvError e) s =
     s\<lparr>recvDone := True, errBuf := errBuf s @ [''error receiving from client: '' @ e]\<rparr>"
| "receive (Received (DataRequest None)) s = s"
| "receive (Received (DataRequest (Some d))) s = s\<lparr>recvHeld := Some d, dataIn := dataIn s @ [d]\<rparr>"
| "receive (Received ClientEnd) s = s\<lparr>recvDone := True\<rparr>"
| "receive (Received r) s =
     s\<lparr>recvDone := True, errBuf := errBuf s @ [''unexpected request type after config: '' @ request_type r]\<rparr>"

definition send :: "interact_response \<Rightarrow> stream \<Rightarrow> stream" where
  "send r s = s\<lparr>responses := responses s @ [r]\<rparr>"

definition finish :: "grpc_status option \<Rightarrow> stream \<Rightarrow> stream" where
  "finish x s = s\<lparr>result := Some x\<rparr>"

text \<open>
  The steps of the receiver (\<open>Receive\<close>, \<open>PassOn\<close>, \<open>GiveUp\<close>), of the provider (\<open>Take\<close>,
  \<open>Produce\<close>, \<open>Return\<close>, \<open>CloseServerStream\<close>), of the handler's loop, whose \<open>Send\<close> may fail
  (\<open>Forward\<close>, \<open>SendEnd\<close>, \<open>ReportError\<close>, \<open>Stop\<close>), and the end of the context. The error
  channel has room for two errors; \<open>interact_relays\<close> shows that it is never full, so that no send waits.
\<close>

inductive stream_step :: "stream \<Rightarrow> stream_action \<Rightarrow> stream \<Rightarrow> bool" where
  receives: "\<not> recvDone s \<Longrightarrow> recvHeld s = None \<Longrightarrow> stream_step s (Receive r) (receive r s)"
| passes: "\<not> recvDone s \<Longrightarrow> recvHeld s = Some d \<Longrightarrow> length (clientBuf s) < stream_capacity \<Longrightarrow>
    stream_step s PassOn (s\<lparr>recvHeld := None, clientBuf := clientBuf s @ [d]\<rparr>)"
| gives_up: "\<not> recvDone s \<Longrightarrow> recvHeld s = Some d \<Longrightarrow> cancelled s \<Longrightarrow>
    stream_step s GiveUp (s\<lparr>recvDone := True\<rparr>)"
| takes: "provState s = Executing \<Longrightarrow> clientBuf s = d # ds \<Longrightarrow>
    stream_step s Take (s\<lparr>clientBuf := ds, taken := taken s @ [d]\<rparr>)"
| produces: "provState s = Executing \<Longrightarrow> length (serverBuf s) < stream_capacity \<Longrightarrow>
    stream_step s (Produce d) (s\<lparr>serverBuf := serverBuf s @ [d], produced := produced s @ [d]\<rparr>)"
| returns: "provState s = Executing \<Longrightarrow> stream_step s (Return None) (s\<lparr>provState := Returned\<rparr>)"
| fails: "provState s = Executing \<Longrightarrow>
    stream_step s (Return (Some e))
      (s\<lparr>provState := Returned, errBuf := errBuf s @ [''provider execution error: '' @ e]\<rparr>)"
| closes: "provState s = Returned \<Longrightarrow> stream_step s CloseServerStream (s\<lparr>provState := Closed\<rparr>)"
| forwards: "result s = None \<Longrightarrow> serverBuf s = d # ds \<Longrightarrow>
    stream_step s (Forward None) (send (StreamData d) (s\<lparr>serverBuf := ds\<rparr>))"
| forward_fails: "result s = None \<Longrightarrow> serverBuf s = d # ds \<Longrightarrow>
    stream_step s (Forward (Some e))
      (finish (Some (Status Internal (''failed to send data: '' @ e))) (s\<lparr>serverBuf := ds\<rparr>))"
| ends: "result s = None \<Longrightarrow> serverBuf s = [] \<Longrightarrow> provState s = Closed \<Longrightarrow>
    stream_step s (SendEnd None) (finish None (send ServerEnd s))"
| end_fails: "result s = None \<Longrightarrow> serverBuf s = [] \<Longrightarrow> provState s = Closed \<Longrightarrow>
    stream_step s (SendEnd (Some e)) (finish (Some (Status Internal (''failed to send server_end: '' @ e))) s)"
| reports: "result s = None \<Longrightarrow> errBuf s = e # es \<Longrightarrow>
    stream_step s (ReportError x)
      (finish (Some (Status Internal (''stream error: '' @ e)))
        (case x of
           None \<Rightarrow> send (StreamError Internal e) (s\<lparr>errBuf := es\<rparr>)
         | Some sendErr \<Rightarrow> s\<lparr>errBuf := es\<rparr>))"
| stops: "result s = None \<Longrightarrow> cancelled s \<Longrightarrow>
    stream_step s Stop (finish (Some (Status Canceled ''stream cancelled'')) s)"
| cancels: "stream_step s Cancel (s\<lparr>cancelled := True\<rparr>)"

inductive_cases stream_stepE: "stream_step s a t"

end
