(* ===== verification/InteractProperties.thy ===== *)
theory InteractProperties
  imports InteractStream "HOL-Library.Sublist"
begin

text \<open>
  The properties of the bidirectional stream: the invariant of its three goroutines, that
  contents are relayed in order and completely, that the handler ends once the provider has
  closed its side, and the race in which a provider's error is lost.
\<close>

section \<open>The invariant\<close>

definition held :: "stream \<Rightarrow> byte list list" where
  "held s = (case recvHeld s of None \<Rightarrow> [] | Some d \<Rightarrow> [d])"

definition responses_ok :: "string \<Rightarrow> stream \<Rightarrow> bool" where
  "responses_ok streamID s \<longleftrightarrow>
     (\<exists>ds tail. responses s = StreamReady streamID # map StreamData ds @ tail \<and> prefix ds (produced s) \<and>
        (case result s of
           None \<Rightarrow> tail = [] \<and> produced s = ds @ serverBuf s
         | Some None \<Rightarrow> tail = [ServerEnd] \<and> ds = produced s \<and> provState s = Closed
         | Some (Some st) \<Rightarrow> tail = [] \<or> (\<exists>m. tail = [StreamError Internal m])))"

definition stream_inv :: "string \<Rightarrow> stream \<Rightarrow> bool" where
  "stream_inv streamID s \<longleftrightarrow>
     taken s @ clientBuf s @ held s = dataIn s \<and> responses_ok streamID s \<and>
     length (clientBuf s) \<le> stream_capacity \<and> length (serverBuf s) \<le> stream_capacity \<and>
     length (errBuf s) \<le> (if recvDone s then 1 else 0) + (if provState s = Executing then 0 else 1)"

lemma responses_okI:
  assumes "responses s = StreamReady streamID # map StreamData ds @ tail" "prefix ds (produced s)"
    and "case result s of
           None \<Rightarrow> tail = [] \<and> produced s = ds @ serverBuf s
         | Some None \<Rightarrow> tail = [ServerEnd] \<and> ds = produced s \<and> provState s = Closed
         | Some (Some st) \<Rightarrow> tail = [] \<or> (\<exists>m. tail = [StreamError Internal m])"
  shows "responses_ok streamID s"
  using assms unfolding responses_ok_def by blast

lemma responses_ok_running:
  assumes "responses_ok streamID s" "result s = None"
  obtains ds where "responses s = StreamReady streamID # map StreamData ds" "produced s = ds @ serverBuf s"
  using assms by (auto simp: responses_ok_def)

text \<open>The steps of the receiver and of the provider send nothing to the client.\<close>

lemma responses_ok_cong:
  assumes "responses t = responses s" "produced t = produced s" "result t = result s" "serverBuf t = serverBuf s"
    and "provState s = Closed \<Longrightarrow> provState t = Closed" "responses_ok streamID s"
  shows "responses_ok streamID t"
proof -
  obtain ds tail where s: "responses s = StreamReady streamID # map StreamData ds @ tail" "prefix ds (produced s)"
    "case result s of
       None \<Rightarrow> tail = [] \<and> produced s = ds @ serverBuf s
     | Some None \<Rightarrow> tail = [ServerEnd] \<and> ds = produced s \<and> provState s = Closed
     | Some (Some st) \<Rightarrow> tail = [] \<or> (\<exists>m. tail = [StreamError Internal m])"
    using assms(6) unfolding responses_ok_def by blast
  show ?thesis
    by (rule responses_okI [of _ _ ds tail]; use assms(1-5) s in \<open>simp split: option.splits\<close>)
qed

lemma receive_parts [simp]:
  "responses (receive r s) = responses s \<and> produced (receive r s) = produced s \<and>
   result (receive r s) = result s \<and> serverBuf (receive r s) = serverBuf s \<and>
   provState (receive r s) = provState s \<and> clientBuf (receive r s) = clientBuf s \<and>
   taken (receive r s) = taken s"
  by (induction r s rule: receive.induct) simp_all

lemma responses_ok_produce:
  assumes "responses_ok streamID s" "provState s = Executing"
  shows "responses_ok streamID (s\<lparr>serverBuf := serverBuf s @ [d], produced := produced s @ [d]\<rparr>)"
proof -
  obtain ds tail where s: "responses s = StreamReady streamID # map StreamData ds @ tail" "prefix ds (produced s)"
    "case result s of
       None \<Rightarrow> tail = [] \<and> produced s = ds @ serverBuf s
     | Some None \<Rightarrow> tail = [ServerEnd] \<and> ds = produced s \<and> provState s = Closed
     | Some (Some st) \<Rightarrow> tail = [] \<or> (\<exists>m. tail = [StreamError Internal m])"
    using assms(1) unfolding responses_ok_def by blast
  show ?thesis
    by (rule responses_okI [of _ _ ds tail]; use assms(2) s in \<open>simp split: option.splits\<close>)
qed

lemma responses_ok_forward:
  assumes "responses_ok streamID s" "result s = None" "serverBuf s = d # ds"
  shows "responses_ok streamID (send (StreamData d) (s\<lparr>serverBuf := ds\<rparr>))"
  using assms(1,2)
proof (rule responses_ok_running)
  fix cs assume "responses s = StreamReady streamID # map StreamData cs" "produced s = cs @ serverBuf s"
  then show ?thesis
    using assms(2,3) by (intro responses_okI [of _ _ "cs @ [d]" "[]"]) (simp_all add: send_def)
qed

lemma responses_ok_finish:
  assumes "responses_ok streamID s" "result s = None"
    and "responses t = responses s @ tail" "produced t = produced s" "result t = Some x"
    and "case x of None \<Rightarrow> tail = [ServerEnd] \<and> serverBuf s = [] \<and> provState t = Closed
      | Some st \<Rightarrow> tail = [] \<or> (\<exists>m. tail = [StreamError Internal m])"
  shows "responses_ok streamID t"
  using assms(1,2)
proof (rule responses_ok_running)
  fix cs assume "responses s = StreamReady streamID # map StreamData cs" "produced s = cs @ serverBuf s"
  then show ?thesis
    using assms(3-6) by (intro responses_okI [of _ _ cs tail]) (auto split: option.splits)
qed

lemma stream_inv_start: "stream_inv streamID (start_stream streamID)"
  by (simp add: stream_inv_def start_stream_def held_def responses_ok_def stream_capacity_def)

lemma receive_relay:
  "\<not> recvDone s \<Longrightarrow> recvHeld s = None \<Longrightarrow>
    (taken s @ clientBuf s @ held s = dataIn s \<longrightarrow>
      taken s @ clientBuf s @ held (receive r s) = dataIn (receive r s)) \<and>
    length (errBuf (receive r s)) \<le> length (errBuf s) + (if recvDone (receive r s) then 1 else 0)"
  by (induction r s rule: receive.induct) (simp_all add: held_def)

lemma responses_ok_step:
  assumes "responses_ok streamID s" "stream_step s a t"
  shows "responses_ok streamID t"
  using assms(2)
proof (cases rule: stream_step.cases)
  case (produces d)
  show ?thesis unfolding produces by (rule responses_ok_produce [OF assms(1) produces(3)])
next
  case (forwards d ds)
  show ?thesis unfolding forwards by (rule responses_ok_forward [OF assms(1) forwards(3,4)])
next
  case (forward_fails d ds e)
  show ?thesis
    by (rule responses_ok_finish [OF assms(1) forward_fails(3), of t "[]" "Some _"])
      (simp_all add: forward_fails finish_def)
next
  case ends
  show ?thesis
    by (rule responses_ok_finish [OF assms(1) ends(3), of t "[ServerEnd]" None])
      (simp_all add: ends finish_def send_def)
next
  case (end_fails e)
  show ?thesis
    by (rule responses_ok_finish [OF assms(1) end_fails(3), of t "[]" "Some _"])
      (simp_all add: end_fails finish_def)
next
  case (reports e es x)
  show ?thesis
    by (rule responses_ok_finish [OF assms(1) reports(3), of t
          "case x of None \<Rightarrow> [StreamError Internal e] | Some _ \<Rightarrow> []" "Some _"])
      (simp_all add: reports finish_def send_def split: option.split)
next
  case stops
  show ?thesis
    by (rule responses_ok_finish [OF assms(1) stops(3), of t "[]" "Some _"]) (simp_all add: stops finish_def)
qed (rule responses_ok_cong [OF _ _ _ _ _ assms(1)]; simp)+

lemma stream_step_inv:
  assumes "stream_inv streamID s" "stream_step s a t"
  shows "stream_inv streamID t"
proof -
  have resp: "responses_ok streamID t"
    using responses_ok_step [OF _ assms(2)] assms(1) by (simp add: stream_inv_def)
  show ?thesis
    using assms(2)
  proof (cases rule: stream_step.cases)
    case (receives r)
    then show ?thesis
      using assms(1) resp receive_relay [OF receives(3,4), of r] by (simp add: stream_inv_def)
  next
    case (reports e es x)
    then show ?thesis
      using assms(1) resp
      by (cases "recvDone s"; cases "provState s = Executing"; cases x)
        (simp_all add: stream_inv_def held_def finish_def send_def)
  qed (use assms(1) resp in \<open>simp_all add: stream_inv_def held_def finish_def send_def\<close>)
qed

interpretation interact: machine stream_step "stream_inv streamID" for streamID
  by unfold_locales (rule stream_step_inv)

section \<open>Relaying\<close>

text \<open>
  C18: in any interleaving of the goroutines the provider takes a prefix of the contents the
  client sent and the client gets a prefix of the contents the provider produced, each in
  order, none twice and none left out; if the handler returns success, the client has got all
  of them, between the ready message and the end message, and the provider is done. No buffer
  grows beyond its capacity, and the error channel never holds more than two errors, so that
  reporting one never blocks.
\<close>

theorem interact_relays:
  assumes "runs stream_step (start_stream streamID) acts s"
  shows "prefix (taken s) (dataIn s) \<and>
    (\<exists>ds tail. responses s = StreamReady streamID # map StreamData ds @ tail \<and> prefix ds (produced s) \<and>
      (tail = [] \<or> tail = [ServerEnd] \<or> (\<exists>m. tail = [StreamError Internal m]))) \<and>
    (result s = Some None \<longrightarrow>
      responses s = StreamReady streamID # map StreamData (produced s) @ [ServerEnd] \<and> provState s = Closed) \<and>
    length (clientBuf s) \<le> 10 \<and> length (serverBuf s) \<le> 10 \<and> length (errBuf s) \<le> 2"
proof -
  have inv: "stream_inv streamID s" by (rule interact.run_inv [OF assms stream_inv_start])
  obtain ds tail where s: "responses s = StreamReady streamID # map StreamData ds @ tail" "prefix ds (produced s)"
    "case result s of
       None \<Rightarrow> tail = [] \<and> produced s = ds @ serverBuf s
     | Some None \<Rightarrow> tail = [ServerEnd] \<and> ds = produced s \<and> provState s = Closed
     | Some (Some st) \<Rightarrow> tail = [] \<or> (\<exists>m. tail = [StreamError Internal m])"
    using inv unfolding stream_inv_def responses_ok_def by blast
  have tail: "tail = [] \<or> tail = [ServerEnd] \<or> (\<exists>m. tail = [StreamError Internal m])"
    using s(3) by (auto split: option.splits)
  have "prefix (taken s) (dataIn s)" using inv unfolding stream_inv_def by (metis prefixI)
  moreover have "length (errBuf s) \<le> 2" using inv by (simp add: stream_inv_def split: if_splits)
  moreover have "result s = Some None \<longrightarrow>
      responses s = StreamReady streamID # map StreamData (produced s) @ [ServerEnd] \<and> provState s = Closed"
    using s by auto
  ultimately show ?thesis
    using inv s(1,2) tail unfolding stream_inv_def stream_capacity_def by blast
qed

text \<open>A run in which the provider echoes one content and ends.\<close>

lemma echo_run:
  "\<exists>s. runs stream_step (start_stream ''id'')
      [Receive (Received (DataRequest (Some [7]))), PassOn, Take, Produce [7], Forward None,
       Return None, CloseServerStream, SendEnd None] s \<and>
    result s = Some None \<and> produced s = [[7]]"
proof -
  let ?s0 = "start_stream ''id''"
  let ?s1 = "receive (Received (DataRequest (Some [7]))) ?s0"
  let ?s2 = "?s1\<lparr>recvHeld := None, clientBuf := [[7]]\<rparr>"
  let ?s3 = "?s2\<lparr>clientBuf := [], taken := [[7]]\<rparr>"
  let ?s4 = "?s3\<lparr>serverBuf := [[7]], produced := [[7]]\<rparr>"
  let ?s5 = "send (StreamData [7]) (?s4\<lparr>serverBuf := []\<rparr>)"
  let ?s6 = "?s5\<lparr>provState := Returned\<rparr>"
  let ?s7 = "?s6\<lparr>provState := Closed\<rparr>"
  let ?s8 = "finish None (send ServerEnd ?s7)"
  note defs = start_stream_def send_def finish_def stream_capacity_def
  have "stream_step ?s0 (Receive (Received (DataRequest (Some [7])))) ?s1"
    by (rule stream_step.receives) (simp_all add: defs)
  moreover have "stream_step ?s1 PassOn ?s2" using stream_step.passes [of ?s1 "[7]"] by (simp add: defs)
  moreover have "stream_step ?s2 Take ?s3" using stream_step.takes [of ?s2 "[7]" "[]"] by (simp add: defs)
  moreover have "stream_step ?s3 (Produce [7]) ?s4" using stream_step.produces [of ?s3 "[7]"] by (simp add: defs)
  moreover have "stream_step ?s4 (Forward None) ?s5"
    by (rule stream_step.forwards) (simp_all add: defs)
  moreover have "stream_step ?s5 (Return None) ?s6" by (rule stream_step.returns) (simp add: defs)
  moreover have "stream_step ?s6 CloseServerStream ?s7" by (rule stream_step.closes) simp
  moreover have "stream_step ?s7 (SendEnd None) ?s8" by (rule stream_step.ends) (simp_all add: defs)
  ultimately have "runs stream_step ?s0 [Receive (Received (DataRequest (Some [7]))), PassOn, Take,
      Produce [7], Forward None, Return None, CloseServerStream, SendEnd None] ?s8"
    by (intro runs.intros) (assumption | rule runs.stop)+
  then show ?thesis by (intro exI [of _ ?s8]) (simp add: defs)
qed

theorem interact_relays_witness:
  "\<exists>s :: stream. result s = Some None \<and> responses s = [StreamReady ''id'', StreamData [7], ServerEnd]"
proof -
  obtain s acts where s: "runs stream_step (start_stream ''id'') acts s" "result s = Some None" "produced s = [[7]]"
    using echo_run by blast
  from interact_relays [OF s(1)] s(2,3) show ?thesis by (intro exI [of _ s]) simp
qed

section \<open>Ending\<close>

fun handler_action :: "stream_action \<Rightarrow> bool" where
  "handler_action (Forward x) = True"
| "handler_action (SendEnd x) = True"
| "handler_action (ReportError x) = True"
| "handler_action Stop = True"
| "handler_action _ = False"

definition steps_left :: "stream \<Rightarrow> nat" where
  "steps_left s = (if result s = None then length (serverBuf s) + 1 else 0)"

lemma steps_left_step:
  assumes "stream_step s a t" "provState s = Closed"
  shows "provState t = Closed \<and> steps_left t + (if handler_action a then 1 else 0) \<le> steps_left s"
  using assms(1)
proof (cases rule: stream_step.cases)
  case (reports e es x)
  then show ?thesis
    using assms(2) by (cases x) (simp_all add: steps_left_def finish_def send_def)
qed (use assms(2) in \<open>simp_all add: steps_left_def finish_def send_def\<close>)

text \<open>
  C20: once the provider has closed its side the handler ends: as long as it has not returned one
  of its steps is possible, and it makes at most one step more than there are contents waiting,
  whatever the client and the receiver do.
\<close>

theorem interact_ends:
  assumes "runs stream_step s acts t" "provState s = Closed"
  shows "(result t = None \<longrightarrow> (\<exists>a u. handler_action a \<and> stream_step t a u)) \<and>
    length (filter handler_action acts) \<le> length (serverBuf s) + 1"
proof -
  have "provState t = Closed \<and> steps_left t + length (filter handler_action acts) \<le> steps_left s"
    using assms
  proof (induction rule: runs.induct)
    case (go s a t as u)
    then show ?case using steps_left_step [OF go.hyps(1) go.prems] by (simp split: if_splits)
  qed simp
  moreover have "\<exists>a u. handler_action a \<and> stream_step t a u" if "result t = None" "provState t = Closed"
  proof (cases "serverBuf t")
    case Nil
    then show ?thesis using stream_step.ends [OF that(1) _ that(2)] by (intro exI [of _ "SendEnd None"]) auto
  next
    case (Cons d ds)
    then show ?thesis using stream_step.forwards [OF that(1) Cons] by (intro exI [of _ "Forward None"]) auto
  qed
  ultimately show ?thesis by (auto simp: steps_left_def split: if_splits)
qed

theorem interact_ends_witness:
  "\<exists>a u. handler_action a \<and> stream_step (start_stream ''id''\<lparr>provState := Closed\<rparr>) a u"
  using interact_ends [OF runs.stop, of "start_stream ''id''\<lparr>provState := Closed\<rparr>"]
  by (simp add: start_stream_def)

text \<open>
  C38: a provider's error can be lost: it is put into the error channel before the provider's
  channel is closed, but the handler's \<open>select\<close> may take the closed channel first; the client
  then gets a regular end of the stream and the call succeeds.
\<close>

theorem provider_error_can_be_lost:
  "\<exists>s. runs stream_step (start_stream streamID) [Return (Some e), CloseServerStream, SendEnd None] s \<and>
    result s = Some None \<and> responses s = [StreamReady streamID, ServerEnd] \<and> errBuf s \<noteq> []"
proof -
  let ?s0 = "start_stream streamID"
  let ?s1 = "?s0\<lparr>provState := Returned, errBuf := [''provider execution error: '' @ e]\<rparr>"
  let ?s2 = "?s1\<lparr>provState := Closed\<rparr>"
  let ?s3 = "finish None (send ServerEnd ?s2)"
  have "stream_step ?s0 (Return (Some e)) ?s1"
    using stream_step.fails [of ?s0 e] by (simp add: start_stream_def)
  moreover have "stream_step ?s1 CloseServerStream ?s2" by (rule stream_step.closes) simp
  moreover have "stream_step ?s2 (SendEnd None) ?s3"
    by (rule stream_step.ends) (simp_all add: start_stream_def)
  ultimately have "runs stream_step ?s0 [Return (Some e), CloseServerStream, SendEnd None] ?s3"
    by (intro runs.intros) (assumption | rule runs.stop)+
  then show ?thesis by (intro exI [of _ ?s3]) (simp add: start_stream_def send_def finish_def)
qed

section \<open>The handshake\<close>

text \<open>
  A stream gets ready exactly when the first message is a configuration with an event type
  that the first matching rule routes to a known provider that can stream, and the ready message
  can be sent; in every other case the call fails before any goroutine is started.
\<close>

theorem handshake_ready:
  "handshake s streaming ready first = Inr (name, cfg) \<longleftrightarrow>
     first = Received (ConfigRequest cfg) \<and> cfgEventType cfg \<noteq> [] \<and>
     name = fst (SelectProviderForStream (policyEngine s) (cfgEventType cfg)) \<and> name \<noteq> [] \<and>
     map_of (serverProviders s) name \<noteq> None \<and> streaming name \<and> ready = None"
  by (auto simp: handshake_def Let_def split: recv_result.split interact_request.split option.split)

end
