(* ===== verification/Serve.thy ===== *)
theory Serve
  imports Providers ServerRuns
begin

text \<open>
  The server process (\<open>runServer\<close> of \<open>cmd/pcas/cmd/serve.go\<close>): the providers built from the
  policy, the start of the server and the shutdown behind a signal. Files, the YAML parser, the
  directory and the listener are parameters.
\<close>

section \<open>Start\<close>

fun init_providers ::
    "(string \<Rightarrow> openai_api) \<Rightarrow> string \<Rightarrow> provider_config list \<Rightarrow> compute gomap \<Rightarrow> compute gomap" where
  "init_providers newClient apiKey [] m = m"
| "init_providers newClient apiKey (c # cs) m =
     init_providers newClient apiKey cs
       (if pcType c = ''mock'' then gm_put (pcName c) mock_execute m
        else if pcType c = ''openai''
        then (if apiKey = [] then m else gm_put (pcName c) (openai_execute (newClient apiKey)) m)
        else m)"

text \<open>The errors of \<open>LoadPolicy\<close> as error values.\<close>

fun policy_err :: "policy_error \<Rightarrow> err" where
  "policy_err (FailedToReadPolicyFile e) = Wrap ''failed to read policy file'' (Errorf e)"
| "policy_err (FailedToParsePolicyFile e) = Wrap ''failed to parse policy file'' (Errorf e)"

text \<open>
  What surrounds the process: the files, the error of creating the data directory, of opening
  the database and of listening on an address, and the client library.
\<close>

record host =
  readFile :: "string \<Rightarrow> string + string"
  yamlUnmarshal :: "string \<Rightarrow> string + policy"
  mkdirErr :: "err option"
  openErr :: "err option"
  listenErr :: "string \<Rightarrow> err option"
  openaiKey :: string
  openaiClient :: "string \<Rightarrow> openai_api"

definition listenAddr :: "string \<Rightarrow> string \<Rightarrow> string" where
  "listenAddr serverHost serverPort = serverHost @ '':'' @ serverPort"

definition start_server ::
    "'g world \<Rightarrow> host \<Rightarrow> string \<Rightarrow> string \<Rightarrow> string \<Rightarrow> disk \<Rightarrow> 'g server res \<times> disk" where
  "start_server W h serverHost serverPort dbPath d =
     (case LoadPolicy (readFile h) (yamlUnmarshal h) ''policy.yaml'' of
        Inl e \<Rightarrow> (Fail (Wrap ''failed to load policy'' (policy_err e)), d)
      | Inr pol \<Rightarrow>
          (case mkdirErr h of
             Some e \<Rightarrow> (Fail (Wrap ''failed to create data directory'' e), d)
           | None \<Rightarrow>
               (case NewProvider (wEnv W) (wGraph W) (openErr h) dbPath d of
                  (Fail e, d) \<Rightarrow> (Fail (Wrap ''failed to initialize SQLite storage'' e), d)
                | (Panics, d) \<Rightarrow> (Panics, d)
                | (Ok p, d) \<Rightarrow>
                    (case listenErr h (listenAddr serverHost serverPort) of
                       Some e \<Rightarrow> (Fail (Wrap (''failed to listen on '' @ listenAddr serverHost serverPort) e), d)
                     | None \<Rightarrow>
                         (let s = NewServer (NewEngine pol)
                                (init_providers (openaiClient h) (openaiKey h) (polProviders pol) []) p
                          in (Ok (if openaiKey h \<noteq> []
                                  then SetEmbeddingProvider (Some (openai_embed (openaiClient h (openaiKey h)))) s
                                  else s), d))))))"

section \<open>Shutdown\<close>

text \<open>
  \<open>GracefulStop\<close> returns when no call is left: no handler is at work and no subscription stream
  is open.
\<close>

definition stopped :: "'g server_state \<Rightarrow> bool" where
  "stopped c \<longleftrightarrow> snd c = [] \<and> (\<forall>n. chanOwner (serverStreams (fst c)) n = None)"

text \<open>Behind it: the background tasks end, and the storage is closed, which saves the index.\<close>

definition shutdown :: "'g world \<Rightarrow> 'g server \<Rightarrow> unit res \<times> disk" where
  "shutdown W s =
     (case WaitForVectorization W s of
        (Ok u, s) \<Rightarrow> Close (wEnv W) (wGraph W) (serverStorage s)
      | (x, s) \<Rightarrow> (x, disk_of (serverStorage s)))"

section \<open>The providers of a policy\<close>

text \<open>The provider a configuration stands for.\<close>

definition configured :: "(string \<Rightarrow> openai_api) \<Rightarrow> string \<Rightarrow> provider_config \<Rightarrow> compute option" where
  "configured newClient apiKey c =
     (if pcType c = ''mock'' then Some mock_execute
      else if pcType c = ''openai'' \<and> apiKey \<noteq> [] then Some (openai_execute (newClient apiKey))
      else None)"

lemma map_of_init_providers:
  "map_of (init_providers nc key cs m) name =
     (case find (\<lambda>c. pcName c = name \<and> configured nc key c \<noteq> None) (rev cs) of
        Some c \<Rightarrow> configured nc key c
      | None \<Rightarrow> map_of m name)"
proof (induction cs arbitrary: m)
  case (Cons c cs)
  have find_append: "find P (xs @ [y]) = (case find P xs of Some x \<Rightarrow> Some x | None \<Rightarrow> if P y then Some y else None)"
    for P and xs :: "provider_config list" and y by (induction xs) auto
  show ?case
    using Cons.IH by (auto simp: find_append configured_def split: option.split)
qed simp

section \<open>What shutdown keeps\<close>

lemma run_tasks_keeps:
  "run_tasks W evs s = (x, t) \<Longrightarrow> x \<noteq> Panics \<Longrightarrow> world_ok W \<Longrightarrow> server_inv W (s, hs) \<Longrightarrow>
    server_inv W (t, hs) \<and> grows (serverStorage s) (serverStorage t)"
proof (induction evs arbitrary: s)
  case (Cons ev evs)
  obtain y s1 where v: "vectorizeEvent W ev s = (y, s1)" by fastforce
  have "y = Ok () \<or> y = Panics" using v by (cases rule: vectorizeEvent_cases) auto
  then have y: "y = Ok ()" using Cons.prems(1,2) v by auto
  have g: "grows (serverStorage s) (serverStorage s1)"
    using v by (cases rule: vectorizeEvent_cases) (auto dest: AddEmbeddingToEvent_grows)
  have "server_inv W (s1, hs)" using vectorize_keeps [OF Cons.prems(3,4) v] y by simp
  then show ?case
    using Cons.IH [of s1] Cons.prems v y g grows_trans by auto
qed simp

text \<open>The owner of a channel changes only by a step of its own stream.\<close>

lemma server_step_owner:
  assumes "server_step W c a d" "registry_inv (serverStreams (fst c))"
    and "chanOwner (serverStreams (fst c)) n = Some k" "a \<noteq> Stream (Disconnect n)" "a \<noteq> Stream (SendError n)"
  shows "chanOwner (serverStreams (fst d)) n = Some k"
  using assms(1)
proof (cases rule: server_step.cases)
  case (answered ev hs s x t)
  have reg: "registry_inv (serverStreams s)" using assms(2) answered by simp
  have "chanOwner (serverStreams t) = chanOwner (serverStreams s)"
    using reg answered(5)
  proof (cases rule: answer_event_cases)
    case (failed name execute m s1 e)
    then show ?thesis using enhance_state [OF failed(4)] by simp
  qed (simp_all add: after_broadcast_def)
  then show ?thesis using assms(3) answered by simp
next
  case (vectorized s as ev bs x t hs)
  from vectorized(5) have "serverStreams t = serverStreams s"
    by (cases rule: vectorizeEvent_cases) simp_all
  then show ?thesis using assms(3) vectorized by simp
next
  case (searched req s x t hs)
  then show ?thesis using assms(3) Search_state [OF searched(5,4)] by simp
next
  case (streamed s b t hs)
  have own: "chanOwner (serverStreams s) n = Some k" using assms(3) streamed by simp
  then have n: "n < nextChan (serverStreams s)"
    using assms(2) streamed by (auto simp: registry_inv_def)
  from streamed(4) have "chanOwner t n = Some k"
    using own n assms(4,5) streamed by (cases rule: bus_step.cases) (auto simp: open_stream_def close_stream_def)
  then show ?thesis by (simp add: streamed)
qed (use assms(3) in \<open>simp_all add: accept_event_parts\<close>)

end
