(* ===== verification/ServeProperties.thy ===== *)
theory ServeProperties
  imports Serve ServerProperties
begin

text \<open>
  The properties of the server process: which providers a policy gives, that an orderly shutdown
  and a restart keep what searches rest on, and what the shutdown waits for.
\<close>

text \<open>
  A provider name of the policy stands for the last configuration of that name that can be
  built: a mock provider always, an OpenAI provider when the key is set, and no other type
  (Ollama configurations are ignored).
\<close>

theorem configured_providers:
  "map_of (init_providers nc key cs []) name =
     (case find (\<lambda>c. pcName c = name \<and>
          (pcType c = ''mock'' \<or> pcType c = ''openai'' \<and> key \<noteq> [])) (rev cs) of
        None \<Rightarrow> None
      | Some c \<Rightarrow> Some (if pcType c = ''mock'' then mock_execute else openai_execute (nc key)))"
proof -
  let ?P = "\<lambda>c. pcName c = name \<and> (pcType c = ''mock'' \<or> pcType c = ''openai'' \<and> key \<noteq> [])"
  have P: "(\<lambda>c. pcName c = name \<and> configured nc key c \<noteq> None) = ?P"
    by (auto simp: configured_def fun_eq_iff)
  show ?thesis
  proof (cases "find ?P (rev cs)")
    case (Some c)
    then have "?P c" by (auto simp: find_Some_iff)
    then show ?thesis unfolding map_of_init_providers P Some by (auto simp: configured_def)
  qed (simp only: map_of_init_providers P option.case map_of.simps)
qed

text \<open>
  C9: an orderly shutdown loses nothing: whatever the server has done, when the background tasks
  end and the index is saved, a server started on the files again has every row, and every
  vector that was linked to an event is linked to it in the index it loads.
\<close>

theorem shutdown_keeps_vectors:
  assumes ok: "world_ok W" and p: "storage_inv (wGraph W) (wPb W) p"
    and run: "runs (server_step W) (SetEmbeddingProvider emb (NewServer pe ps p), []) acts (s, hs)"
    and down: "WaitForVectorization W s = (Ok u, t)" "shutdown W s = (x, d)"
    and saved: "\<not> no_index_file (indexPath p)" "index_path_of dbPath = indexPath p"
      "\<not> SaveFails (wEnv W) (ticks (serverStorage t))"
    and up: "NewProvider E (wGraph W) None dbPath d = (Ok q, d')"
  shows "storage_inv (wGraph W) (wPb W) q \<and> set (Nodes (serverStorage s)) \<subseteq> set (Nodes q) \<and>
    (\<forall>k v. linked_vector (wGraph W) (serverStorage s) k v \<and> v \<noteq> [] \<longrightarrow> linked_vector (wGraph W) q k v)"
proof -
  have start: "server_inv W (SetEmbeddingProvider emb (NewServer pe ps p), [])" by (rule server_inv_new [OF p])
  have inv: "server_inv W (s, hs)" using bus.run_inv [OF run] ok start by simp
  have path: "indexPath (serverStorage s) = indexPath p"
    using run_indexPath [OF ok start run] by (simp add: NewServer_def SetEmbeddingProvider_def)
  have inv0: "server_inv W (s\<lparr>vectorizing := []\<rparr>, hs)" using inv by (simp add: server_inv_def)
  have t: "server_inv W (t, hs) \<and> grows (serverStorage s) (serverStorage t)"
    using run_tasks_keeps [OF down(1) [unfolded WaitForVectorization_def] _ ok inv0] by simp
  have d: "d = snd (Close (wEnv W) (wGraph W) (serverStorage t))"
    using down(2) by (simp add: shutdown_def down(1))
  have tp: "indexPath (serverStorage t) = indexPath p" using t path by (simp add: grows_def)
  have q: "Nodes q = Nodes (serverStorage t) \<and> Edges q = Edges (serverStorage t) \<and>
      storage_inv (wGraph W) (wPb W) q"
    using reopened_index [OF world_okD(1) [OF ok] _ _ _ disjI1 up, of "wPb W" "serverStorage t" "wEnv W"]
      t d saved tp by (simp add: server_inv_def)
  have grow: "set (Nodes (serverStorage s)) \<subseteq> set (Nodes q)" using t q by (auto simp: grows_def)
  have "linked_vector (wGraph W) q k v"
    if "linked_vector (wGraph W) (serverStorage s) k v" "v \<noteq> []" for k v
  proof -
    have "linked_vector (wGraph W) (serverStorage t) k v"
      using linked_vector_grows [of _ "wPb W", OF _ _ _ that] inv t by (simp add: server_inv_def)
    then show ?thesis
      using linked_vector_kept [of "wGraph W" "wPb W" "serverStorage t" q k v] q t that(2)
      by (simp add: server_inv_def)
  qed
  then show ?thesis using q grow by blast
qed

text \<open>Where nothing fails, a closed provider can be reopened.\<close>

lemma calm_reopens:
  assumes "\<not> no_index_file (indexPath p)" "index_path_of path = indexPath p"
  shows "\<exists>q d. NewProvider calm_env list_graph None path (snd (Close calm_env list_graph p)) = (Ok q, d)"
proof -
  obtain g where "GLoad list_graph (Some (GExport list_graph (hnswIndex p))) = Some g"
    using hnsw_load [OF list_graph_ok, of "hnswIndex p"] by blast
  then show ?thesis
    using assms
    by (simp add: NewProvider_def initSchema_def initHNSWIndex_def Close_def save_index_def disk_of_def
        calm_env_def Let_def)
qed

definition fact_done :: "graph server" where
  "fact_done = next_call (fact_server\<lparr>vectorizing := [], serverStorage := fact_added\<rparr>)"

lemma fact_done_storage: "serverStorage fact_done = fact_added"
  by (simp add: fact_done_def)

lemma fact_done_waits: "WaitForVectorization sample_world fact_done = (Ok (), fact_done)"
  by (simp add: WaitForVectorization_def fact_done_def next_call_def)

lemma fact_done_linked: "linked_vector list_graph fact_added ''f1'' [f32_one]"
  using AddEmbeddingToEvent_links [OF list_graph_ok] fact_added by (simp add: sample_fact_def)

lemma fact_added_path: "indexPath fact_added = indexPath sample_stored"
proof -
  have "grows sample_stored (serverStorage fact_server)"
    unfolding fact_server_parts by (rule StoreEvent_grows [OF prod.collapse [symmetric]])
  then have "grows sample_stored fact_added"
    using AddEmbeddingToEvent_grows [OF fact_added] by (rule grows_trans)
  then show ?thesis by (simp add: grows_def)
qed

theorem shutdown_keeps_vectors_witness:
  "\<exists>q d. NewProvider calm_env list_graph None ''a.db'' (snd (shutdown sample_world fact_done)) = (Ok q, d) \<and>
     linked_vector list_graph q ''f1'' [f32_one]"
proof -
  have down: "shutdown sample_world fact_done = Close calm_env list_graph fact_added"
    by (simp add: shutdown_def fact_done_waits fact_done_storage)
  have saved: "\<not> no_index_file (indexPath sample_stored)" "index_path_of ''a.db'' = indexPath sample_stored"
    by code_simp+
  obtain q d where q: "NewProvider calm_env list_graph None ''a.db''
      (snd (Close calm_env list_graph fact_added)) = (Ok q, d)"
    using calm_reopens [of fact_added "''a.db''"] fact_added_path saved by auto
  have run: "runs (server_step sample_world) (SetEmbeddingProvider (Some (\<lambda>n t. Inr [f32_one]))
      (NewServer sample_engine [(''mock'', \<lambda>n m. Inr ''hi'')] sample_stored), [])
      [Accept sample_fact, Vectorize sample_fact] (fact_done, [sample_fact])"
    using fact_run unfolding sample_server_def fact_done_def .
  have nofail: "\<not> SaveFails (wEnv sample_world) (ticks (serverStorage fact_done))" by (simp add: calm_env_def)
  have inv: "storage_inv (wGraph sample_world) (wPb sample_world) sample_stored" using sample_stored_inv by simp
  have sd: "shutdown sample_world fact_done =
      (fst (Close calm_env list_graph fact_added), snd (Close calm_env list_graph fact_added))"
    by (simp add: down)
  have q': "NewProvider calm_env (wGraph sample_world) None ''a.db''
      (snd (Close calm_env list_graph fact_added)) = (Ok q, d)" using q by simp
  from shutdown_keeps_vectors [OF sample_world_ok inv run fact_done_waits sd saved nofail q'] show ?thesis
    using q fact_done_linked by (auto simp: down fact_done_storage)
qed

text \<open>
  The shutdown waits for the subscribers: as long as a client keeps its subscription open,
  whatever else the server does, \<open>GracefulStop\<close> does not return, and the index is not saved.
\<close>

theorem shutdown_waits_for_subscribers:
  assumes "world_ok W" "server_inv W c" "chanOwner (serverStreams (fst c)) n = Some k"
    and "runs (server_step W) c acts d"
    and "Stream (Disconnect n) \<notin> set acts" "Stream (SendError n) \<notin> set acts"
  shows "\<not> stopped d"
proof -
  have "chanOwner (serverStreams (fst d)) n = Some k"
    using assms(4,2,3,5,6)
  proof (induction rule: runs.induct)
    case (go s a t as u)
    have reg: "registry_inv (serverStreams (fst s))" using go.prems(1) by (simp add: server_inv_def)
    have "chanOwner (serverStreams (fst t)) n = Some k"
      by (rule server_step_owner [OF go.hyps(1) reg go.prems(2)]) (use go.prems(3,4) in auto)
    then show ?case
      using go.IH server_step_inv [OF assms(1) go.prems(1) go.hyps(1)] go.prems(3,4) by simp
  qed simp
  then show ?thesis by (auto simp: stopped_def)
qed

theorem shutdown_waits_for_subscribers_example:
  "\<not> stopped (accept_event sample_world sample_question listening_server, [sample_question])"
proof -
  have inv: "server_inv sample_world (listening_server, [])"
    using sample_server_inv registry_inv_open [OF registry_inv_new]
    by (simp add: server_inv_def listening_server_def)
  have own: "chanOwner (serverStreams (fst (listening_server, []))) 0 = Some ''c''"
    by (simp add: listening_server_def bus_simps)
  have "server_step sample_world (listening_server, []) (Accept sample_question)
      (accept_event sample_world sample_question listening_server, [sample_question])"
    by (rule server_step.accepted [OF sample_question_wf])
  from shutdown_waits_for_subscribers [OF sample_world_ok inv own runs_one
      [where step = "server_step sample_world", OF this]]
  show ?thesis by simp
qed

end
