(* ===== verification/Memory.thy ===== *)
theory Memory
  imports ServerProperties
begin

text \<open>
  The bus server as its users see it: a memory of events, with vectors associated to some of
  them. The theory states this specification, an abstract state machine that can only remember a
  new event or associate one more vector, and shows that every run of the server is a run of it.
\<close>

section \<open>The specification\<close>

record memory =
  memEvents :: "string \<Rightarrow> event option"
  memLinks :: "(string \<times> f32 list) set"

datatype memory_op = Remember event | Associate string "f32 list"

text \<open>
  An event can be remembered under a new id only, in the form the storage keeps; a vector can
  be associated to a remembered event only. Nothing is ever changed or forgotten.
\<close>

inductive memory_step :: "pb \<Rightarrow> memory \<Rightarrow> memory_op option \<Rightarrow> memory \<Rightarrow> bool" for P where
  idle: "memory_step P m None m"
| remembers: "memEvents m (evId ev) = None \<Longrightarrow>
    memory_step P m (Some (Remember ev)) (m\<lparr>memEvents := (memEvents m)(evId ev \<mapsto> stored_form P ev)\<rparr>)"
| associates: "memEvents m k \<noteq> None \<Longrightarrow>
    memory_step P m (Some (Associate k v)) (m\<lparr>memLinks := insert (k, v) (memLinks m)\<rparr>)"

text \<open>
  What each action of the server may do to the memory: an accepted event is remembered, or not
  (its id is taken, or the database fails); an answer may add the response, which names the
  event it answers and belongs to no user; a background task may associate a vector to its fact
  event. Searches and subscriptions do nothing.
\<close>

fun may_do :: "server_action \<Rightarrow> memory_op option \<Rightarrow> bool" where
  "may_do (Accept ev) oper \<longleftrightarrow> oper = None \<or> oper = Some (Remember ev)"
| "may_do (Answer ev x) oper \<longleftrightarrow> oper = None \<or>
     (\<exists>resp. oper = Some (Remember resp) \<and> x = Ok () \<and> evType resp = ''pcas.response.v1'' \<and>
        evCorrelationId resp = evId ev \<and> evUserId resp = [])"
| "may_do (Vectorize ev) oper \<longleftrightarrow> oper = None \<or>
     (\<exists>v. oper = Some (Associate (evId ev) v) \<and> v \<noteq> [] \<and> IsFactEvent (evType ev))"
| "may_do (SearchCall req) oper \<longleftrightarrow> oper = None"
| "may_do (Stream a) oper \<longleftrightarrow> oper = None"

text \<open>Memories are ordered by what they know; every step goes upwards.\<close>

instantiation memory_ext :: (type) preorder
begin

definition less_eq_memory_ext :: "'a memory_scheme \<Rightarrow> 'a memory_scheme \<Rightarrow> bool" where
  "m \<le> m' \<longleftrightarrow> memEvents m \<subseteq>\<^sub>m memEvents m' \<and> memLinks m \<subseteq> memLinks m'"

definition less_memory_ext :: "'a memory_scheme \<Rightarrow> 'a memory_scheme \<Rightarrow> bool" where
  "(m :: 'a memory_scheme) < m' \<longleftrightarrow> m \<le> m' \<and> \<not> m' \<le> m"

instance
  by standard (auto simp: less_eq_memory_ext_def less_memory_ext_def intro: map_le_trans)

end

lemma memory_step_mono: "memory_step P m oper m' \<Longrightarrow> m \<le> m'"
  by (cases rule: memory_step.cases) (auto simp: less_eq_memory_ext_def map_le_def)

lemma memory_run_mono: "runs (memory_step P) m opers m' \<Longrightarrow> m \<le> m'"
  by (induction rule: runs.induct) (auto dest: memory_step_mono intro: order_trans)

section \<open>The abstraction\<close>

definition recall :: "pb \<Rightarrow> 'g provider \<Rightarrow> string \<Rightarrow> event option" where
  "recall P p k = map_option (row_result P) (find (is_event k) (Nodes p))"

definition memory_of :: "'g hnsw \<Rightarrow> pb \<Rightarrow> 'g provider \<Rightarrow> memory" where
  "memory_of H P p =
     \<lparr>memEvents = recall P p, memLinks = {(k, v). v \<noteq> [] \<and> linked_vector H p k v}\<rparr>"

lemma memory_of_same: "same_store p q \<Longrightarrow> memory_of H P q = memory_of H P p"
  by (simp add: memory_of_def same_store_def recall_def linked_vector_def fun_eq_iff)

lemma find_event_append:
  "(\<And>r. r \<in> set ns \<Longrightarrow> nType r \<noteq> ''event'') \<Longrightarrow> find (is_event k) (xs @ ns) = find (is_event k) xs"
  by (induction xs) (auto simp: find_None_iff is_event_def)

lemma find_fresh: "k \<notin> nId ` set ns \<Longrightarrow> find (is_event k) ns = None"
  by (auto simp: find_None_iff is_event_def)

lemma find_append: "find Q (xs @ ys) = (case find Q xs of None \<Rightarrow> find Q ys | Some x \<Rightarrow> Some x)"
  by (induction xs) auto

subsection \<open>Reading\<close>

lemma GetEventByID_recall:
  assumes "pb_json_ok P" "events_wf P p" "\<not> StmtFails E (ticks p)"
  shows "fst (GetEventByID E P k p) =
    (case recall P p k of Some ev \<Rightarrow> Ok ev | None \<Rightarrow> Fail (Errorf (''event not found: '' @ k)))"
proof (cases "find (is_event k) (Nodes p)")
  case (Some r)
  then have r: "r \<in> set (Nodes p)" "is_event k r" by (auto simp: find_Some_iff)
  then obtain ev where "row_event P r ev" using assms(2) by (auto simp: events_wf_def is_event_def)
  then show ?thesis
    using Some assms(1,3) encode_event_decodes(2) [OF assms(1)]
    by (simp add: GetEventByID_def recall_def row_result_def row_event_def)
qed (use assms(3) in \<open>simp add: GetEventByID_def recall_def\<close>)

subsection \<open>Storing an event\<close>

lemma StoreEvent_memory:
  assumes "pb_json_ok P" "event_wf ev" "StoreEvent E H P ev [] p = (x, q)"
  shows "x \<noteq> Ok () \<and> memory_of H P q = memory_of H P p \<or>
    x = Ok () \<and> recall P p (evId ev) = None \<and>
    memory_of H P q = (memory_of H P p)\<lparr>memEvents := (recall P p)(evId ev \<mapsto> stored_form P ev)\<rparr>"
proof -
  obtain s where s: "encode_event P ev = Some s" and s': "s = json_txt (GObj (event_map P ev))"
    using encode_event_decodes(1) [OF assms(1,2)] by simp
  obtain e p1 where i: "insert_node E (evId ev) ''event'' (CText s) p = (e, p1)" by fastforce
  show ?thesis
  proof (cases e)
    case (Some e')
    then have "x \<noteq> Ok ()" "q = tick p" using assms(3) i s insert_node_Some by (auto simp: StoreEvent_def)
    then show ?thesis by (simp add: memory_of_same)
  next
    case None
    then have x: "x = Ok ()" "q = p1" using assms(3) i s by (auto simp: StoreEvent_def)
    let ?r = "\<lparr>nId = evId ev, nType = ''event'', nContent = CText s, nCreated = CurrentTimestamp E (ticks p)\<rparr>"
    have q: "evId ev \<notin> nId ` set (Nodes p)" "Edges q = Edges p" "hnswIndex q = hnswIndex p" "Nodes q = Nodes p @ [?r]"
      using insert_node_None [OF i [unfolded None]] x(2) by simp_all
    have res: "row_result P ?r = stored_form P ev"
      by (rule row_event_result [OF assms(1)]) (simp add: row_event_def assms(2) s')
    have "recall P q = (recall P p)(evId ev \<mapsto> stored_form P ev)"
      using find_fresh [OF q(1)] res
      by (auto simp: recall_def q(4) find_append fun_eq_iff is_event_def split: option.split)
    then show ?thesis
      using x find_fresh [OF q(1)] q(2,3) by (simp add: memory_of_def linked_vector_def recall_def)
  qed
qed

subsection \<open>Associating a vector\<close>

lemma fresh_source:
  assumes "edges_ok p" "vid \<notin> nId ` set (Nodes p)" "e \<in> set (Edges p)"
  shows "eSource e \<noteq> vid"
proof -
  obtain r where "r \<in> set (Nodes p)" "nId r = eSource e"
    using assms(1,3) by (auto simp: edges_ok_def has_node_def)
  then show ?thesis using assms(2) by (metis imageI)
qed

text \<open>A new vector is linked to nothing before its edge is there.\<close>

lemma StoreVector_links:
  assumes "hnsw_ok H" "edges_ok p" "StoreVector E H vec p = (Ok vid, q)"
  shows "linked_vector H q k v = linked_vector H p k v"
    and "GNodes H (hnswIndex q) vid = Some vec" "Edges q = Edges p"
    and "e \<in> set (Edges p) \<Longrightarrow> GNodes H (hnswIndex q) (eSource e) = GNodes H (hnswIndex p) (eSource e)"
proof -
  obtain r g where g: "vid \<notin> nId ` set (Nodes p)" "GAdd H (hnswIndex p) vid vec = Some g"
    "Edges q = Edges p" "hnswIndex q = g"
    using assms(3) by (rule StoreVector_Ok) blast
  have nodes: "GNodes H (hnswIndex q) = (GNodes H (hnswIndex p))(vid \<mapsto> vec)"
    using hnsw_add [OF assms(1) g(2)] g(4) by simp
  show same: "e \<in> set (Edges p) \<Longrightarrow> GNodes H (hnswIndex q) (eSource e) = GNodes H (hnswIndex p) (eSource e)" for e
    using fresh_source [OF assms(2) g(1)] by (simp add: nodes)
  then show "linked_vector H q k v = linked_vector H p k v" by (auto simp: linked_vector_def g(3))
  show "GNodes H (hnswIndex q) vid = Some vec" "Edges q = Edges p" using nodes g(3) by simp_all
qed

lemma AddEmbeddingToEvent_vectors:
  assumes "hnsw_ok H" "edges_ok p" "AddEmbeddingToEvent E H k vec p = (x, q)" "x \<noteq> Panics"
  shows "x = Ok () \<and> list_ex (is_event k) (Nodes p) \<and>
      (\<forall>k' v. linked_vector H q k' v \<longleftrightarrow> linked_vector H p k' v \<or> k' = k \<and> v = vec) \<or>
    (\<forall>k' v. linked_vector H q k' v \<longleftrightarrow> linked_vector H p k' v)"
proof (cases "StmtFails E (ticks p) \<or> \<not> list_ex (is_event k) (Nodes p)")
  case True
  then have "q = tick p" using assms(3) by (auto simp: AddEmbeddingToEvent_def split: if_splits)
  then show ?thesis by (simp add: linked_vector_def)
next
  case False
  then have link: "link_embedding E H k vec (tick p) = (x, q)"
    using assms(3) by (simp add: AddEmbeddingToEvent_def)
  have e: "edges_ok (tick p)" using assms(2) by (simp add: edges_ok_def has_node_def)
  obtain y p1 where sv: "StoreVector E H vec (tick p) = (y, p1)" by fastforce
  show ?thesis
  proof (cases y)
    case (Ok vid)
    note sv = StoreVector_links [OF assms(1) e sv [unfolded Ok]]
    obtain z p2 where ce: "CreateEdge E vid k ''embedding_of'' p1 = (z, p2)" by fastforce
    show ?thesis
    proof (cases z)
      case z: (Ok u)
      obtain e' where e': "eSource e' = vid" "eTarget e' = k" "Edges p2 = Edges p1 @ [e']" "hnswIndex p2 = hnswIndex p1"
        using ce [unfolded z] by (rule CreateEdge_Ok) blast
      have "x = Ok ()" "q = p2" using link \<open>StoreVector E H vec (tick p) = (y, p1)\<close> Ok ce z
        by (simp_all add: link_embedding_def)
      moreover have "linked_vector H p2 k' v \<longleftrightarrow> linked_vector H p1 k' v \<or> k' = k \<and> v = vec" for k' v
        using e' sv(2) by (auto simp: linked_vector_def)
      ultimately show ?thesis using False sv(1) by (simp add: linked_vector_def)
    next
      case (Fail e')
      then have "q = tick (tick p1)"
        using link \<open>StoreVector E H vec (tick p) = (y, p1)\<close> Ok ce CreateEdge_Fail by (fastforce simp: link_embedding_def)
      then show ?thesis using sv(1) by (simp add: linked_vector_def)
    next
      case Panics
      then show ?thesis using CreateEdge_no_panic [of E vid k "''embedding_of''" p1] ce by simp
    qed
  next
    case (Fail e')
    then have "q = tick (tick (tick p))"
      using link sv StoreVector_Fail by (fastforce simp: link_embedding_def)
    then show ?thesis by (simp add: linked_vector_def)
  next
    case Panics
    then show ?thesis using link sv assms(4) by (simp add: link_embedding_def)
  qed
qed

lemma AddEmbeddingToEvent_recall:
  assumes "AddEmbeddingToEvent E H k vec p = (x, q)" "distinct (map nId (Nodes q))"
  shows "recall P q = recall P p"
proof -
  obtain ns where ns: "Nodes q = Nodes p @ ns"
    using AddEmbeddingToEvent_grows [OF assms(1)] by (auto simp: grows_def)
  have "nType r \<noteq> ''event''" if "r \<in> set ns" for r
    using AddEmbeddingToEvent_event_rows [OF assms(1), of r] that assms(2) ns by auto
  then show ?thesis by (auto simp: recall_def ns find_event_append)
qed

section \<open>The simulation\<close>

abbreviation server_memory :: "'g world \<Rightarrow> 'g server_state \<Rightarrow> memory" where
  "server_memory W c \<equiv> memory_of (wGraph W) (wPb W) (serverStorage (fst c))"

lemma storing_step:
  assumes "world_ok W" "event_wf ev" "q = snd (StoreEvent (wEnv W) (wGraph W) (wPb W) ev [] p)"
  shows "\<exists>oper. memory_step (wPb W) (memory_of (wGraph W) (wPb W) p) oper (memory_of (wGraph W) (wPb W) q) \<and>
    (oper = None \<or> oper = Some (Remember ev))"
proof -
  obtain x where x: "StoreEvent (wEnv W) (wGraph W) (wPb W) ev [] p = (x, q)"
    using assms(3) by (metis prod.collapse)
  show ?thesis
    using StoreEvent_memory [OF world_okD(2) [OF assms(1)] assms(2) x]
      memory_step.idle [of "wPb W" "memory_of (wGraph W) (wPb W) p"]
      memory_step.remembers [of "memory_of (wGraph W) (wPb W) p" ev "wPb W"]
    by (auto simp: memory_of_def)
qed

lemma vectorize_step:
  assumes "world_ok W" "server_inv W (s, hs)" "server_inv W (t, hs)" "ev \<in> set (vectorizing s)"
    and "vectorizeEvent W ev (s\<lparr>vectorizing := l\<rparr>) = (x, t)" "x \<noteq> Panics"
  shows "\<exists>oper. memory_step (wPb W) (server_memory W (s, hs)) oper (server_memory W (t, hs)) \<and> may_do (Vectorize ev) oper"
  using assms(5)
proof (cases rule: vectorizeEvent_cases)
  case (embedded emb vec y p)
  let ?H = "wGraph W" and ?P = "wPb W" and ?p = "serverStorage s"
  have add: "AddEmbeddingToEvent (wEnv W) ?H (evId ev) vec ?p = (y, p)" "y \<noteq> Panics" and t: "serverStorage t = p"
    using embedded assms(6) by auto
  have edges: "edges_ok ?p" and dist: "distinct (map nId (Nodes p))" and fact: "IsFactEvent (evType ev)"
    using assms(2-4) t by (auto simp: server_inv_def storage_inv_def provider_inv_def rows_ok_def)
  have rec: "recall ?P p = recall ?P ?p" by (rule AddEmbeddingToEvent_recall [OF add(1) dist])
  from AddEmbeddingToEvent_vectors [OF world_okD(1) [OF assms(1)] edges add]
  show ?thesis
  proof (elim disjE conjE)
    assume ex: "list_ex (is_event (evId ev)) (Nodes ?p)"
      and l: "\<forall>k' v. linked_vector ?H p k' v \<longleftrightarrow> linked_vector ?H ?p k' v \<or> k' = evId ev \<and> v = vec"
    have known: "recall ?P ?p (evId ev) \<noteq> None"
      using ex by (auto simp: recall_def find_None_iff list_ex_iff)
    show ?thesis
    proof (cases "vec = []")
      case True
      then have "memory_of ?H ?P p = memory_of ?H ?P ?p" using rec l by (auto simp: memory_of_def)
      then show ?thesis using t memory_step.idle by (intro exI [of _ None]) simp
    next
      case False
      then have "memory_of ?H ?P p = (memory_of ?H ?P ?p)\<lparr>memLinks := insert (evId ev, vec) (memLinks (memory_of ?H ?P ?p))\<rparr>"
        using rec l by (auto simp: memory_of_def)
      then show ?thesis
        using t fact False known memory_step.associates [of "memory_of ?H ?P ?p" "evId ev" ?P vec]
        by (intro exI [of _ "Some (Associate (evId ev) vec)"]) (simp add: memory_of_def)
    qed
  next
    assume "\<forall>k' v. linked_vector ?H p k' v \<longleftrightarrow> linked_vector ?H ?p k' v"
    then have "memory_of ?H ?P p = memory_of ?H ?P ?p" using rec by (simp add: memory_of_def)
    then show ?thesis using t memory_step.idle by (intro exI [of _ None]) simp
  qed
qed (use assms(6) memory_step.idle in \<open>auto intro!: exI [of _ None]\<close>)

lemma server_step_memory:
  assumes ok: "world_ok W" and inv: "server_inv W c" and step: "server_step W c a d"
  shows "\<exists>oper. memory_step (wPb W) (server_memory W c) oper (server_memory W d) \<and> may_do a oper"
  using step
proof (cases rule: server_step.cases)
  case (accepted ev s hs)
  then show ?thesis
    using storing_step [OF ok accepted(4) accept_event_parts(1)] by auto
next
  case (answered ev hs s x t)
  have reg: "registry_inv (serverStreams s)" and wf: "event_wf ev"
    using inv answered by (auto simp: server_inv_def list_all_iff)
  show ?thesis
    using reg answered(5)
  proof (cases rule: answer_event_cases)
    case (failed name execute m s1 e)
    then have "server_memory W d = server_memory W c"
      using enhance_state [OF failed(4)] memory_of_same [of "serverStorage s" "serverStorage s1"] answered by simp
    then show ?thesis using answered(2) memory_step.idle by (intro exI [of _ None]) simp
  next
    case (answered name execute m s1 result resp)
    have "event_wf resp" unfolding answered(6) by (rule response_event_wf [OF ok wf])
    moreover have "memory_of (wGraph W) (wPb W) (serverStorage s1) = memory_of (wGraph W) (wPb W) (serverStorage s)"
      using enhance_state [OF answered(4)] memory_of_same by blast
    ultimately show ?thesis
      using storing_step [OF ok _ answered(10)] answered(6,7) \<open>c = (s, hs)\<close> \<open>d = (t, remove1 ev hs)\<close> \<open>a = Answer ev x\<close>
      by (auto simp: response_event_def empty_event_def)
  qed (use answered memory_step.idle in \<open>auto intro!: exI [of _ None]\<close>)
next
  case (vectorized s as ev bs x t hs)
  have "server_inv W (t, hs)" using server_step_inv [OF ok inv step] vectorized by simp
  then show ?thesis
    using vectorize_step [OF ok, of s hs t ev "as @ bs" x] inv vectorized by auto
next
  case (searched req s x t hs)
  then show ?thesis
    using Search_state [OF searched(5,4)] memory_of_same [of "serverStorage s" "serverStorage t"] memory_step.idle
    by (intro exI [of _ None]) simp
next
  case (streamed s b t hs)
  then show ?thesis using memory_step.idle by (intro exI [of _ None]) simp
qed

lemma run_memory:
  assumes "runs (server_step W) c acts d" "world_ok W" "server_inv W c"
  shows "\<exists>opers. list_all2 may_do acts opers \<and> runs (memory_step (wPb W)) (server_memory W c) opers (server_memory W d)"
  using assms
proof (induction rule: runs.induct)
  case (go c a d acts e)
  obtain oper where oper: "memory_step (wPb W) (server_memory W c) oper (server_memory W d)" "may_do a oper"
    using server_step_memory [OF go.prems go.hyps(1)] by blast
  have "server_inv W d" using server_step_inv [OF go.prems go.hyps(1)] .
  then obtain opers where "list_all2 may_do acts opers"
    "runs (memory_step (wPb W)) (server_memory W d) opers (server_memory W e)"
    using go.IH go.prems(1) by blast
  then show ?case
    using oper by (intro exI [of _ "oper # opers"]) (auto intro: runs.go)
qed (auto intro: runs.stop)

text \<open>
  C2: the server is a memory: however its calls, tasks and streams interleave, and whatever
  fails, each action does to the memory at most what \<open>may_do\<close> allows, so that nothing is ever
  changed or forgotten, only published events and responses are remembered, and only fact events
  get vectors; and reading by id answers from that memory.
\<close>

theorem server_refines_memory:
  assumes "world_ok W" "storage_inv (wGraph W) (wPb W) p"
    and "runs (server_step W) (SetEmbeddingProvider emb (NewServer pe ps p), []) acts (s, hs)"
  shows "(\<exists>opers. list_all2 may_do acts opers \<and>
      runs (memory_step (wPb W)) (memory_of (wGraph W) (wPb W) p) opers
        (memory_of (wGraph W) (wPb W) (serverStorage s))) \<and>
    (\<not> StmtFails (wEnv W) (ticks (serverStorage s)) \<longrightarrow>
      fst (GetEventByID (wEnv W) (wPb W) k (serverStorage s)) =
        (case memEvents (memory_of (wGraph W) (wPb W) (serverStorage s)) k of
           Some ev \<Rightarrow> Ok ev | None \<Rightarrow> Fail (Errorf (''event not found: '' @ k))))"
proof -
  have start: "server_inv W (SetEmbeddingProvider emb (NewServer pe ps p), [])" by (rule server_inv_new [OF assms(2)])
  have "server_inv W (s, hs)" using bus.run_inv [OF assms(3)] assms(1) start by blast
  then have "events_wf (wPb W) (serverStorage s)" by (simp add: server_inv_def storage_inv_def)
  then show ?thesis
    using run_memory [OF assms(3,1) start] GetEventByID_recall [OF world_okD(2) [OF assms(1)], of "serverStorage s" "wEnv W" k]
    by (simp add: memory_of_def SetEmbeddingProvider_def NewServer_def)
qed

theorem server_refines_memory_witness:
  "\<exists>opers. list_all2 may_do [Accept sample_question] opers \<and>
     runs (memory_step text_pb) (memory_of list_graph text_pb sample_stored) opers
       (memory_of list_graph text_pb (serverStorage (accept_event sample_world sample_question sample_server)))"
  using server_refines_memory [OF sample_world_ok _ sample_accept_run [unfolded sample_server_def]]
    sample_stored_inv by (simp add: sample_server_def)

section \<open>The memory survives a restart\<close>

text \<open>What the database holds determines the memory: the index adds nothing to it.\<close>

lemma memory_of_tables:
  assumes "storage_inv H P p" "storage_inv H P q" "Nodes q = Nodes p" "Edges q = Edges p"
  shows "memory_of H P q = memory_of H P p"
proof -
  have "linked_vector H q k v \<longleftrightarrow> linked_vector H p k v" if "v \<noteq> []" for k v
    using linked_vector_kept [OF assms(1,2) _ _ _ that] linked_vector_kept [OF assms(2,1) _ _ _ that] assms(3,4)
    by auto
  then show ?thesis using assms(3) by (auto simp: memory_of_def recall_def)
qed

lemma restart_keeps_memory:
  assumes "hnsw_ok H" "storage_inv H P p" "\<not> no_index_file (indexPath p)" "index_path_of path = indexPath p"
    and "(\<not> SaveFails E (ticks p) \<and> d = snd (Close E H p)) \<or> (GLoad H (indexFile p) = None \<and> d = disk_of p)"
    and "NewProvider E' H None path d = (Ok q, d')"
  shows "memory_of H P q = memory_of H P p"
  using reopened_index [OF assms] memory_of_tables [OF assms(2)] by blast

end
