(* ===== verification/Process.thy ===== *)
theory Process
  imports ServeProperties Memory
begin

text \<open>
  The two goroutines at the end of \<open>runServer\<close> (\<open>cmd/pcas/cmd/serve.go\<close>) around the running
  server: the main goroutine, which serves and then waits for \<open>shutdownComplete\<close>, and the one that
  waits for a signal, stops the server, waits for the background tasks and closes the storage.
\<close>

section \<open>The machine\<close>

text \<open>
  How far the shutdown goroutine is: it waits for a signal, in \<open>GracefulStop\<close>, in
  \<open>WaitForVectorization\<close>, before \<open>Close\<close>, or it has closed \<open>shutdownComplete\<close>; \<open>Complete\<close> carries
  the files that \<open>Close\<close> has left.
\<close>

datatype shutdown_phase = AwaitSignal | Stopping | Waiting | Closing | Complete disk

record 'g process =
  procServer :: "'g server_state"
  procPhase :: shutdown_phase
  serveResult :: "err option option"
  procExit :: "unit res option"

datatype process_action =
    Handle server_action
  | Signal
  | StopReturns
  | TasksDone
  | StorageClosed
  | ServeReturns "err option"
  | Exits

text \<open>
  What the server may still do: until \<open>GracefulStop\<close> has returned everything, behind it only the
  background tasks are left.
\<close>

fun may_handle :: "shutdown_phase \<Rightarrow> server_action \<Rightarrow> bool" where
  "may_handle AwaitSignal a = True"
| "may_handle Stopping a = True"
| "may_handle Waiting a = (case a of Vectorize ev \<Rightarrow> True | _ \<Rightarrow> False)"
| "may_handle _ a = False"

definition on_signal :: "shutdown_phase \<Rightarrow> shutdown_phase" where
  "on_signal ph = (case ph of AwaitSignal \<Rightarrow> Stopping | _ \<Rightarrow> ph)"

definition run_result :: "err option \<Rightarrow> unit res" where
  "run_result r = (case r of None \<Rightarrow> Ok () | Some e \<Rightarrow> Fail (Wrap ''failed to serve'' e))"

text \<open>
  As gRPC documents it, \<open>Serve\<close> returns nil only behind a \<open>GracefulStop\<close>; it may return an error at
  any time, also while or after the server is stopped.
  A second signal stays in \<open>sigChan\<close>, which nobody reads again. An error of \<open>Close\<close> is only logged.
\<close>

inductive process_step :: "'g world \<Rightarrow> 'g process \<Rightarrow> process_action \<Rightarrow> 'g process \<Rightarrow> bool" for W where
  handles: "procExit c = None \<Longrightarrow> may_handle (procPhase c) a \<Longrightarrow> server_step W (procServer c) a s \<Longrightarrow>
    process_step W c (Handle a) (c\<lparr>procServer := s\<rparr>)"
| signalled: "procExit c = None \<Longrightarrow>
    process_step W c Signal (c\<lparr>procPhase := on_signal (procPhase c)\<rparr>)"
| stop_returns: "procExit c = None \<Longrightarrow> procPhase c = Stopping \<Longrightarrow> stopped (procServer c) \<Longrightarrow>
    process_step W c StopReturns (c\<lparr>procPhase := Waiting\<rparr>)"
| tasks_done: "procExit c = None \<Longrightarrow> procPhase c = Waiting \<Longrightarrow> vectorizing (fst (procServer c)) = [] \<Longrightarrow>
    process_step W c TasksDone (c\<lparr>procPhase := Closing\<rparr>)"
| closed: "procExit c = None \<Longrightarrow> procPhase c = Closing \<Longrightarrow>
    Close (wEnv W) (wGraph W) (serverStorage (fst (procServer c))) = (x, d) \<Longrightarrow>
    process_step W c StorageClosed (c\<lparr>procPhase := Complete d\<rparr>)"
| serve_fails: "procExit c = None \<Longrightarrow> serveResult c = None \<Longrightarrow>
    process_step W c (ServeReturns (Some e)) (c\<lparr>serveResult := Some (Some e)\<rparr>)"
| serve_ends: "procExit c = None \<Longrightarrow> serveResult c = None \<Longrightarrow> procPhase c \<noteq> AwaitSignal \<Longrightarrow>
    process_step W c (ServeReturns None) (c\<lparr>serveResult := Some None\<rparr>)"
| exits: "procExit c = None \<Longrightarrow> serveResult c = Some r \<Longrightarrow> procPhase c = Complete d \<Longrightarrow>
    process_step W c Exits (c\<lparr>procExit := Some (run_result r)\<rparr>)"

definition run_server :: "'g server \<Rightarrow> 'g process" where
  "run_server s = \<lparr>procServer = (s, []), procPhase = AwaitSignal, serveResult = None, procExit = None\<rparr>"

section \<open>The invariant\<close>

text \<open>
  Behind each phase lies what the shutdown has waited for, and the process exits only behind the
  last one.
\<close>

definition drained :: "'g process \<Rightarrow> bool" where
  "drained c \<longleftrightarrow> stopped (procServer c) \<and> vectorizing (fst (procServer c)) = []"

fun phase_inv :: "'g world \<Rightarrow> 'g process \<Rightarrow> shutdown_phase \<Rightarrow> bool" where
  "phase_inv W c AwaitSignal \<longleftrightarrow> serveResult c \<noteq> Some None"
| "phase_inv W c Stopping \<longleftrightarrow> True"
| "phase_inv W c Waiting \<longleftrightarrow> stopped (procServer c)"
| "phase_inv W c Closing \<longleftrightarrow> drained c"
| "phase_inv W c (Complete d) \<longleftrightarrow> drained c \<and>
     d = snd (Close (wEnv W) (wGraph W) (serverStorage (fst (procServer c))))"

definition process_inv :: "'g world \<Rightarrow> 'g process \<Rightarrow> bool" where
  "process_inv W c \<longleftrightarrow> server_inv W (procServer c) \<and> phase_inv W c (procPhase c) \<and>
     (\<forall>x. procExit c = Some x \<longrightarrow> (\<exists>d r. procPhase c = Complete d \<and> serveResult c = Some r \<and> x = run_result r))"

lemma vectorize_stays_stopped:
  assumes "server_step W s (Vectorize ev) t" "stopped s"
  shows "stopped t"
  using assms(1)
proof (cases rule: server_step.cases)
  case (vectorized s as bs x t hs)
  from vectorized(4) have "serverStreams t = serverStreams s" by (cases rule: vectorizeEvent_cases) simp_all
  then show ?thesis using assms(2) vectorized by (simp add: stopped_def)
qed

lemma process_step_inv:
  assumes ok: "world_ok W" and inv: "process_inv W c" and step: "process_step W c a d"
  shows "process_inv W d"
  using step
proof (cases rule: process_step.cases)
  case (handles b s)
  have "server_inv W s" using server_step_inv [OF ok _ handles(5)] inv by (simp add: process_inv_def)
  moreover have "phase_inv W d (procPhase d)"
    using handles inv vectorize_stays_stopped [of W "procServer c" _ s]
    by (cases "procPhase c") (auto simp: process_inv_def split: server_action.splits)
  ultimately show ?thesis using handles inv by (simp add: process_inv_def)
next
  case signalled
  then show ?thesis
    using inv by (cases "procPhase c") (simp_all add: process_inv_def on_signal_def drained_def)
next
  case (serve_fails e)
  then show ?thesis using inv by (cases "procPhase c") (auto simp: process_inv_def drained_def)
next
  case serve_ends
  then show ?thesis using inv by (cases "procPhase c") (auto simp: process_inv_def drained_def)
next
  case (exits r e)
  then show ?thesis using inv by (auto simp: process_inv_def drained_def)
qed (use inv in \<open>auto simp: process_inv_def drained_def\<close>)

interpretation process: machine "process_step W" "\<lambda>c. world_ok W \<and> process_inv W c" for W :: "'g world"
  by unfold_locales (auto dest: process_step_inv)

lemma process_inv_start:
  assumes "storage_inv (wGraph W) (wPb W) p"
  shows "process_inv W (run_server (SetEmbeddingProvider emb (NewServer pe ps p)))"
  using server_inv_new [OF assms] by (simp add: process_inv_def run_server_def)

section \<open>What a run of the process does\<close>

text \<open>The server inside the process makes a run of its own.\<close>

fun handled :: "process_action list \<Rightarrow> server_action list" where
  "handled [] = []"
| "handled (a # as) = (case a of Handle b \<Rightarrow> b # handled as | _ \<Rightarrow> handled as)"

lemma process_run_handled:
  "runs (process_step W) c acts d \<Longrightarrow> runs (server_step W) (procServer c) (handled acts) (procServer d)"
proof (induction rule: runs.induct)
  case (go s a t as u)
  from go.hyps(1) show ?case using go.IH by (cases rule: process_step.cases) (auto intro: runs.intros)
qed (simp add: runs.stop)

lemma no_signal_waits:
  "runs (process_step W) c acts d \<Longrightarrow> Signal \<notin> set acts \<Longrightarrow> procPhase c = AwaitSignal \<Longrightarrow> procPhase d = AwaitSignal"
proof (induction rule: runs.induct)
  case (go s a t as u)
  from go.hyps(1) have "procPhase t = AwaitSignal"
    using go.prems by (cases rule: process_step.cases) simp_all
  then show ?case using go.IH go.prems by simp
qed simp

lemma step_serve_result:
  assumes "process_step W c a d"
  shows "serveResult d = (case a of ServeReturns r \<Rightarrow> Some r | _ \<Rightarrow> serveResult c) \<and>
    (serveResult c \<noteq> None \<longrightarrow> (\<forall>r. a \<noteq> ServeReturns r)) \<and> procExit c = None"
  using assms by (cases rule: process_step.cases) simp_all

lemma run_serve_result:
  "runs (process_step W) c acts d \<Longrightarrow> serveResult c = None \<Longrightarrow> serveResult d = Some r \<longleftrightarrow> ServeReturns r \<in> set acts"
proof (induction arbitrary: r rule: runs_rev_induct)
  case (snoc as t a u)
  then show ?case
    using step_serve_result [OF snoc.hyps(2)] by (cases a) (auto split: process_action.splits)
qed simp

end
