(* ===== verification/ProcessProperties.thy ===== *)
theory ProcessProperties
  imports Process
begin

text \<open>
  The properties of the server process: when it exits and what it leaves on disk, that its
  shutdown ends, and that it does not exit when only \<open>Serve\<close> has failed.
\<close>

section \<open>The exit\<close>

lemma process_run_inv:
  assumes "world_ok W" "storage_inv (wGraph W) (wPb W) p"
    and "runs (process_step W) (run_server (SetEmbeddingProvider emb (NewServer pe ps p))) acts c"
  shows "process_inv W c"
  using process.run_inv [OF assms(3)] process_inv_start [OF assms(2)] assms(1) by blast

text \<open>
  C10: the process exits in one way only: a signal has arrived, no call and no stream is open, no
  background task is left and the storage is closed. Its result is the one of \<open>Serve\<close>, and if the
  index was saved, a process started on the files again has the same memory of events and vectors, which
  is never less than the memory the first one started with.
\<close>

theorem exit_keeps_memory:
  assumes ok: "world_ok W" and p: "storage_inv (wGraph W) (wPb W) p"
    and run: "runs (process_step W) (run_server (SetEmbeddingProvider emb (NewServer pe ps p))) acts c"
    and exit: "procExit c = Some x"
    and saved: "\<not> no_index_file (indexPath p)" "index_path_of dbPath = indexPath p"
      "\<not> SaveFails (wEnv W) (ticks (serverStorage (fst (procServer c))))"
  shows "Signal \<in> set acts \<and> stopped (procServer c) \<and> vectorizing (fst (procServer c)) = [] \<and>
    (x = Ok () \<longleftrightarrow> ServeReturns None \<in> set acts) \<and>
    (\<exists>d. procPhase c = Complete d \<and>
      (\<forall>E q d'. NewProvider E (wGraph W) None dbPath d = (Ok q, d') \<longrightarrow>
        memory_of (wGraph W) (wPb W) q = memory_of (wGraph W) (wPb W) (serverStorage (fst (procServer c))) \<and>
        memory_of (wGraph W) (wPb W) p \<le> memory_of (wGraph W) (wPb W) q))"
proof -
  let ?s = "run_server (SetEmbeddingProvider emb (NewServer pe ps p))"
  let ?p = "serverStorage (fst (procServer c))"
  have inv: "process_inv W c" by (rule process_run_inv [OF ok p run])
  then obtain d r where c: "procPhase c = Complete d" "serveResult c = Some r" "x = run_result r"
    using exit by (auto simp: process_inv_def)
  have d: "drained c" "d = snd (Close (wEnv W) (wGraph W) ?p)" and st: "storage_inv (wGraph W) (wPb W) ?p"
    using inv c(1) by (simp_all add: process_inv_def server_inv_def)
  have "Signal \<in> set acts" using no_signal_waits [OF run] c(1) by (auto simp: run_server_def)
  moreover have "x = Ok () \<longleftrightarrow> ServeReturns None \<in> set acts"
    using run_serve_result [OF run, of None] c(2,3)
    by (auto simp: run_server_def run_result_def split: option.splits)
  moreover have path: "indexPath ?p = indexPath p"
    using run_indexPath [OF ok _ process_run_handled [OF run]] server_inv_new [OF p]
    by (simp add: run_server_def SetEmbeddingProvider_def NewServer_def)
  moreover have "memory_of (wGraph W) (wPb W) p \<le> memory_of (wGraph W) (wPb W) ?p"
    using run_memory [OF process_run_handled [OF run] ok] server_inv_new [OF p] memory_run_mono
    by (fastforce simp: run_server_def SetEmbeddingProvider_def NewServer_def)
  moreover have "memory_of (wGraph W) (wPb W) q = memory_of (wGraph W) (wPb W) ?p"
    if "NewProvider E (wGraph W) None dbPath d = (Ok q, d')" for E q d'
    by (rule restart_keeps_memory [where E = "wEnv W", OF world_okD(1) [OF ok] st _ _ disjI1 that])
      (use saved path d(2) in simp_all)
  ultimately show ?thesis using c(1) d(1) unfolding drained_def by (metis (no_types, lifting))
qed

text \<open>An idle server that is signalled: the process goes through all phases.\<close>

definition idle_process :: "graph process" where
  "idle_process = run_server sample_server"

definition exited_process :: "graph process" where
  "exited_process = idle_process\<lparr>procPhase := Complete (snd (Close calm_env list_graph sample_stored)),
     serveResult := Some None, procExit := Some (Ok ())\<rparr>"

lemma idle_process_parts:
  "procServer idle_process = (sample_server, [])" "procPhase idle_process = AwaitSignal"
  "serveResult idle_process = None" "procExit idle_process = None"
  by (simp_all add: idle_process_def run_server_def)

lemma idle_server_parts: "serverStorage sample_server = sample_stored" "vectorizing sample_server = []"
  by (simp_all add: sample_server_def SetEmbeddingProvider_def NewServer_def)

lemma sample_server_stopped: "stopped (sample_server, [])"
  by (simp add: stopped_def sample_server_def SetEmbeddingProvider_def NewServer_def bus_simps)

lemma idle_stops:
  "runs (process_step sample_world) idle_process [Signal, StopReturns] (idle_process\<lparr>procPhase := Waiting\<rparr>)"
proof -
  let ?c = "idle_process\<lparr>procPhase := Stopping\<rparr>"
  have "process_step sample_world idle_process Signal ?c"
    using process_step.signalled [of idle_process] by (simp add: idle_process_parts on_signal_def)
  moreover have "process_step sample_world ?c StopReturns (idle_process\<lparr>procPhase := Waiting\<rparr>)"
    using process_step.stop_returns [of ?c] by (simp add: idle_process_parts sample_server_stopped)
  ultimately show ?thesis by (intro runs.intros) (assumption | rule runs.stop)+
qed

lemma idle_exits:
  "runs (process_step sample_world) (idle_process\<lparr>procPhase := Waiting\<rparr>)
     [TasksDone, StorageClosed, ServeReturns None, Exits] exited_process"
proof -
  let ?w = "idle_process\<lparr>procPhase := Waiting\<rparr>" and ?c = "idle_process\<lparr>procPhase := Closing\<rparr>"
  let ?d = "idle_process\<lparr>procPhase := Complete (snd (Close calm_env list_graph sample_stored))\<rparr>"
  let ?e = "?d\<lparr>serveResult := Some None\<rparr>"
  have "process_step sample_world ?w TasksDone ?c"
    using process_step.tasks_done [of ?w] by (simp add: idle_process_parts idle_server_parts)
  moreover have "process_step sample_world ?c StorageClosed ?d"
    using process_step.closed [of ?c sample_world, OF _ _ prod.collapse [symmetric]]
    by (simp add: idle_process_parts idle_server_parts)
  moreover have "process_step sample_world ?d (ServeReturns None) ?e"
    using process_step.serve_ends [of ?d] by (simp add: idle_process_parts)
  moreover have "process_step sample_world ?e Exits exited_process"
    using process_step.exits [of ?e None] by (simp add: idle_process_parts exited_process_def run_result_def)
  ultimately show ?thesis by (intro runs.intros) (assumption | rule runs.stop)+
qed

theorem exit_keeps_memory_witness:
  "\<exists>q d'. NewProvider calm_env list_graph None ''a.db'' (snd (Close calm_env list_graph sample_stored)) = (Ok q, d') \<and>
     memory_of list_graph text_pb q = memory_of list_graph text_pb sample_stored"
proof -
  have saved: "\<not> no_index_file (indexPath sample_stored)" "index_path_of ''a.db'' = indexPath sample_stored"
    by code_simp+
  obtain q d' where q: "NewProvider calm_env list_graph None ''a.db''
      (snd (Close calm_env list_graph sample_stored)) = (Ok q, d')" using calm_reopens [OF saved] by blast
  have inv: "storage_inv (wGraph sample_world) (wPb sample_world) sample_stored" using sample_stored_inv by simp
  have parts: "procExit exited_process = Some (Ok ())" "procServer exited_process = (sample_server, [])"
    "procPhase exited_process = Complete (snd (Close calm_env list_graph sample_stored))"
    by (simp_all add: exited_process_def idle_process_parts)
  have nofail: "\<not> SaveFails (wEnv sample_world) (ticks (serverStorage (fst (procServer exited_process))))"
    by (simp add: calm_env_def)
  have run: "runs (process_step sample_world) (run_server (SetEmbeddingProvider (Some (\<lambda>n t. Inr [f32_one]))
      (NewServer sample_engine [(''mock'', \<lambda>n m. Inr ''hi'')] sample_stored)))
      ([Signal, StopReturns] @ [TasksDone, StorageClosed, ServeReturns None, Exits]) exited_process"
    using runs_append [OF idle_stops idle_exits] unfolding idle_process_def sample_server_def .
  from exit_keeps_memory [OF sample_world_ok inv run parts(1) saved nofail] show ?thesis
    using q by (auto simp: parts idle_server_parts)
qed

section \<open>A failure of Serve\<close>

text \<open>
  A failure of \<open>Serve\<close> does not end the process: as long as no signal arrives, main waits for a
  shutdown that nobody starts, the storage is not closed, and the error is not reported; when the
  process exits at last, behind a signal, it is with that error.
\<close>

theorem serve_failure_hangs:
  assumes "runs (process_step W) (run_server s) acts c" "ServeReturns (Some e) \<in> set acts"
  shows "(Signal \<notin> set acts \<longrightarrow> procExit c = None \<and> procPhase c = AwaitSignal \<and> \<not> process_step W c Exits d) \<and>
    (\<forall>x. procExit c = Some x \<longrightarrow> Signal \<in> set acts \<and> x = Fail (Wrap ''failed to serve'' e))"
proof -
  have res: "serveResult c = Some (Some e)"
    using run_serve_result [OF assms(1), of "Some e"] assms(2) by (simp add: run_server_def)
  have exit: "procExit c = Some x \<Longrightarrow> (\<exists>d r. procPhase c = Complete d \<and> serveResult c = Some r \<and> x = run_result r)" for x
    using assms(1)
  proof (induction arbitrary: x rule: runs_rev_induct)
    case (snoc as t a u)
    from snoc.hyps(2) show ?case using snoc.prems by (cases rule: process_step.cases) auto
  qed (simp add: run_server_def)
  have wait: "procPhase c = AwaitSignal" if "Signal \<notin> set acts"
    using no_signal_waits [OF assms(1) that] by (simp add: run_server_def)
  have "procExit c = None \<and> \<not> process_step W c Exits d" if "Signal \<notin> set acts"
    using wait [OF that] exit by (cases "procExit c") (auto elim: process_step.cases)
  then show ?thesis using wait exit res by (fastforce simp: run_result_def)
qed

theorem serve_failure_hangs_example:
  "\<exists>c. runs (process_step sample_world) (run_server sample_server) [ServeReturns (Some DriverError)] c \<and>
     procExit c = None \<and> (\<forall>d. \<not> process_step sample_world c Exits d)"
proof -
  have "process_step sample_world idle_process (ServeReturns (Some DriverError))
      (idle_process\<lparr>serveResult := Some (Some DriverError)\<rparr>)"
    by (rule process_step.serve_fails) (simp_all add: idle_process_parts)
  note run = runs_one [where step = "process_step sample_world", OF this, unfolded idle_process_def]
  show ?thesis using serve_failure_hangs [OF run, of DriverError] run by auto
qed

section \<open>The end of the shutdown\<close>

text \<open>How many steps but signals are left behind \<open>GracefulStop\<close>.\<close>

fun phase_rank :: "shutdown_phase \<Rightarrow> nat" where
  "phase_rank (Complete d) = 0"
| "phase_rank Closing = 1"
| "phase_rank _ = 2"

definition steps_left :: "'g process \<Rightarrow> nat" where
  "steps_left c = length (vectorizing (fst (procServer c))) + phase_rank (procPhase c) +
     (if serveResult c = None then 1 else 0) + (if procExit c = None then 1 else 0)"

definition stopped_phase :: "shutdown_phase \<Rightarrow> bool" where
  "stopped_phase ph \<longleftrightarrow> ph \<noteq> AwaitSignal \<and> ph \<noteq> Stopping"

lemma vectorize_step_shrinks:
  assumes "server_step W c (Vectorize ev) d"
  shows "length (vectorizing (fst c)) = Suc (length (vectorizing (fst d)))"
  using assms
proof (cases rule: server_step.cases)
  case (vectorized s as bs x t hs)
  from vectorized(4) have "vectorizing t = as @ bs" by (cases rule: vectorizeEvent_cases) simp_all
  then show ?thesis using vectorized by simp
qed

lemma process_step_left:
  assumes "process_step W c a d" "stopped_phase (procPhase c)"
  shows "stopped_phase (procPhase d) \<and>
    (if a = Signal then steps_left d = steps_left c else steps_left c = Suc (steps_left d))"
  using assms(1)
proof (cases rule: process_step.cases)
  case (handles b s)
  then have "procPhase c = Waiting" "\<exists>ev. b = Vectorize ev"
    using assms(2) by (cases "procPhase c"; auto simp: stopped_phase_def split: server_action.splits)+
  then obtain ev where w: "procPhase c = Waiting" "b = Vectorize ev" by blast
  have "length (vectorizing (fst (procServer c))) = Suc (length (vectorizing (fst s)))"
    by (rule vectorize_step_shrinks) (use handles(5) w(2) in simp)
  then show ?thesis using handles(1,2) w by (simp add: stopped_phase_def steps_left_def)
qed (use assms(2) in \<open>auto simp: stopped_phase_def steps_left_def on_signal_def split: shutdown_phase.splits\<close>)

lemma process_run_left:
  "runs (process_step W) c acts d \<Longrightarrow> stopped_phase (procPhase c) \<Longrightarrow>
    length (filter (\<lambda>a. a \<noteq> Signal) acts) + steps_left d = steps_left c"
proof (induction rule: runs.induct)
  case (go s a t as u)
  then show ?case using process_step_left [OF go.hyps(1) go.prems] by (auto split: if_splits)
qed simp

text \<open>A background task whose vector the graph library refuses with a panic ends the process.\<close>

definition task_panics :: "'g world \<Rightarrow> 'g server \<Rightarrow> bool" where
  "task_panics W s \<longleftrightarrow> (\<exists>as ev bs. vectorizing s = as @ ev # bs \<and>
     fst (vectorizeEvent W ev (s\<lparr>vectorizing := as @ bs\<rparr>)) = Panics)"

lemma process_goes_on:
  assumes "procExit c = None" "stopped_phase (procPhase c)" "\<not> task_panics W (fst (procServer c))"
  shows "\<exists>a d. a \<noteq> Signal \<and> process_step W c a d"
proof (cases "procPhase c")
  case Waiting
  obtain s hs where s: "procServer c = (s, hs)" by fastforce
  show ?thesis
  proof (cases "vectorizing s")
    case Nil
    then show ?thesis using process_step.tasks_done [OF assms(1) Waiting] s by auto
  next
    case (Cons ev evs)
    obtain x t where v: "vectorizeEvent W ev (s\<lparr>vectorizing := evs\<rparr>) = (x, t)" by fastforce
    moreover have "x \<noteq> Panics"
      using assms(3) v Cons unfolding task_panics_def s by (metis append_Nil fst_conv)
    ultimately have step: "server_step W (procServer c) (Vectorize ev) (t, hs)"
      unfolding s using Cons by (intro server_step.vectorized [of _ "[]"]) auto
    show ?thesis
      by (intro exI conjI) (rule process_action.distinct, rule process_step.handles [OF assms(1) _ step], simp add: Waiting)
  qed
next
  case Closing
  show ?thesis
    by (intro exI conjI) (rule process_action.distinct, rule process_step.closed [OF assms(1) Closing prod.collapse [symmetric]])
next
  case (Complete d)
  show ?thesis
  proof (cases "serveResult c")
    case None
    then show ?thesis
      by (intro exI conjI) (rule process_action.distinct, rule process_step.serve_ends [OF assms(1)], simp_all add: Complete)
  next
    case (Some r)
    then show ?thesis
      by (intro exI conjI) (rule process_action.distinct, rule process_step.exits [OF assms(1) Some Complete])
  qed
qed (use assms(2) in \<open>simp_all add: stopped_phase_def\<close>)

text \<open>
  C19: once \<open>GracefulStop\<close> has returned, the shutdown ends: the process takes at most one step per
  background task and four more, whatever signals arrive, and unless a task panics it can always
  go on until it has exited.
\<close>

theorem shutdown_ends:
  assumes "procPhase c = Waiting" "runs (process_step W) c acts d"
  shows "length (filter (\<lambda>a. a \<noteq> Signal) acts) \<le> length (vectorizing (fst (procServer c))) + 4 \<and>
    (procExit d \<noteq> None \<or> task_panics W (fst (procServer d)) \<or> (\<exists>a e. a \<noteq> Signal \<and> process_step W d a e))"
proof -
  have c: "stopped_phase (procPhase c)" using assms(1) by (simp add: stopped_phase_def)
  have "stopped_phase (procPhase d)"
    using assms(2) c by (induction rule: runs.induct) (auto dest: process_step_left)
  then show ?thesis
    using process_run_left [OF assms(2) c] process_goes_on assms(1)
    by (auto simp: steps_left_def split: if_splits)
qed

theorem shutdown_ends_witness:
  "runs (process_step sample_world) (idle_process\<lparr>procPhase := Waiting\<rparr>)
     [TasksDone, StorageClosed, ServeReturns None, Exits] exited_process \<and>
   4 \<le> length (vectorizing (fst (procServer (idle_process\<lparr>procPhase := Waiting\<rparr>)))) + 4"
  using shutdown_ends [OF _ idle_exits] idle_exits by simp

end
