(* ===== verification/Clients.thy ===== *)
theory Clients
  imports Server Providers
begin

text \<open>
  The programs that talk to the bus: \<open>Emit\<close> and \<open>Subscribe\<close> of the Go SDK
  (\<open>pkg/sdk/go\<close>), and the \<open>emit\<close>, \<open>replay\<close> and \<open>search\<close> commands of \<open>pcasctl\<close>. Each
  builds a message and calls the server of \<open>Server\<close>, so that what a user asks for can be
  followed into the database. The connection is a parameter: whether it can be made, whether
  a call arrives, and how gRPC words the error a handler returns. Log lines are left out, and
  so is the \<open>Subscribe\<close> stream \<open>emit\<close> opens only to print what it receives.
\<close>

section \<open>The connection\<close>

text \<open>
  A call does not arrive, or is handled, or is handled and its answer comes too late. A
  handler that panics takes the server down.
\<close>

datatype delivery = Delivered | Unreachable err | TimedOut err

record client =
  DialErr :: "string \<Rightarrow> err option"
  CallDelivery :: delivery
  StatusError :: "err \<Rightarrow> err"
  ClientUuid :: "nat \<Rightarrow> string"
  ClientNow :: int

definition call :: "client \<Rightarrow> 'a res \<times> 'g server \<Rightarrow> 'g server \<Rightarrow> 'a res \<times> 'g server" where
  "call C handled s =
     (case CallDelivery C of
        Unreachable e \<Rightarrow> (Fail e, s)
      | Delivered \<Rightarrow> (case handled of (Fail e, t) \<Rightarrow> (Fail (StatusError C e), t) | r \<Rightarrow> r)
      | TimedOut e \<Rightarrow> (case handled of (Panics, t) \<Rightarrow> (Panics, t) | (_, t) \<Rightarrow> (Fail e, t)))"

text \<open>What a client does with the answer: an error is reported under \<open>msg\<close>.\<close>

definition report :: "string \<Rightarrow> 'a res \<times> 'g server \<Rightarrow> 'a res \<times> 'g server" where
  "report msg r = (case r of (Fail e, t) \<Rightarrow> (Fail (Wrap msg e), t) | _ \<Rightarrow> r)"

definition server_address :: "string \<Rightarrow> string \<Rightarrow> string" where
  "server_address addr port = (if addr = [] then ''localhost:'' @ port else addr)"

section \<open>The SDK\<close>

record emit_options =
  optSource :: string
  optSubject :: string
  optTraceID :: string

definition NewClient :: "client \<Rightarrow> string \<Rightarrow> err option" where
  "NewClient C serverAddr =
     (case DialErr C serverAddr of
        Some e \<Rightarrow> Some (Wrap ''failed to connect to PCAS server'' e) | None \<Rightarrow> None)"

text \<open>
  A nil map and an empty one are both left out. \<open>structpb.NewValue\<close> fails on values it cannot
  represent; \<open>anypb.New\<close> never fails on its result.
\<close>

definition sdk_event :: "pb \<Rightarrow> client \<Rightarrow> string \<Rightarrow> gval gomap \<Rightarrow> emit_options \<Rightarrow> err + event" where
  "sdk_event P C eventType data opts =
     (let src = (if optSource opts = [] then ''pcas-sdk'' else optSource opts);
          (trace, n) = (if optTraceID opts = [] then (ClientUuid C 0, 1) else (optTraceID opts, 0));
          ev = empty_event\<lparr>evId := ClientUuid C n, evType := eventType, evSource := src,
                 evSpecversion := ''1.0'', evTime := Some (TimestampOf (ClientNow C)),
                 evTraceId := trace, evSubject := optSubject opts\<rparr>
      in if data = [] then Inr ev
         else case AnyOfValue P (GObj data) of
                None \<Rightarrow> Inl (Wrap ''failed to convert data to protobuf'' EncodeError)
              | Some a \<Rightarrow> Inr (ev\<lparr>evData := Some a\<rparr>))"

definition EmitWithOptions ::
    "client \<Rightarrow> 'g world \<Rightarrow> string \<Rightarrow> gval gomap \<Rightarrow> emit_options \<Rightarrow> 'g server \<Rightarrow> unit res \<times> 'g server" where
  "EmitWithOptions C W eventType data opts s =
     (case sdk_event (wPb W) C eventType data opts of
        Inl e \<Rightarrow> (Fail e, s)
      | Inr ev \<Rightarrow> report ''failed to publish event'' (call C (Publish W ev s) s))"

definition Emit :: "client \<Rightarrow> 'g world \<Rightarrow> string \<Rightarrow> gval gomap \<Rightarrow> 'g server \<Rightarrow> unit res \<times> 'g server" where
  "Emit C W eventType data s =
     EmitWithOptions C W eventType data \<lparr>optSource = [], optSubject = [], optTraceID = []\<rparr> s"

section \<open>\<open>pcasctl emit\<close>\<close>

text \<open>The flags, with their values after parsing; \<open>--source\<close> is \<open>pcasctl\<close> unless given.\<close>

record emit_flags =
  flagType :: string
  flagSource :: string
  flagSubject :: string
  flagData :: string
  flagPort :: string
  flagServer :: string
  flagTraceID :: string
  flagUserID :: string
  flagSessionID :: string

text \<open>
  The first \<open>uuid\<close> names the subscription. \<open>null\<close> as \<open>--data\<close> leaves the map nil, which
  becomes an empty object.
\<close>

definition emit_data :: "pb \<Rightarrow> string \<Rightarrow> err + any_msg option" where
  "emit_data P eventData =
     (if eventData = [] then Inr None
      else case json_unmarshal_map eventData of
             None \<Rightarrow> Inl (Wrap ''failed to parse --data JSON'' EncodeError)
           | Some m \<Rightarrow>
               (case AnyOfValue P (GObj m) of
                  None \<Rightarrow> Inl (Wrap ''failed to convert data to protobuf Value'' EncodeError)
                | Some a \<Rightarrow> Inr (Some a)))"

definition emit_event :: "pb \<Rightarrow> client \<Rightarrow> emit_flags \<Rightarrow> err + event" where
  "emit_event P C fl =
     (let ev = empty_event\<lparr>evId := ClientUuid C 1, evSource := flagSource fl, evSpecversion := ''1.0'',
                 evType := flagType fl, evTime := Some (TimestampOf (ClientNow C))\<rparr>;
          ev = ev\<lparr>evTraceId := (if flagTraceID fl \<noteq> [] then flagTraceID fl else ClientUuid C 2)\<rparr>;
          ev = (if flagSubject fl \<noteq> [] then ev\<lparr>evSubject := flagSubject fl\<rparr> else ev);
          ev = (if flagUserID fl \<noteq> [] then ev\<lparr>evUserId := flagUserID fl\<rparr> else ev);
          ev = (if flagSessionID fl \<noteq> [] then ev\<lparr>evSessionId := flagSessionID fl\<rparr> else ev)
      in case emit_data P (flagData fl) of
           Inl e \<Rightarrow> Inl e
         | Inr None \<Rightarrow> Inr ev
         | Inr (Some a) \<Rightarrow> Inr (ev\<lparr>evData := Some a\<rparr>))"

definition emitEvent :: "client \<Rightarrow> 'g world \<Rightarrow> emit_flags \<Rightarrow> 'g server \<Rightarrow> unit res \<times> 'g server" where
  "emitEvent C W fl s =
     (case DialErr C (server_address (flagServer fl) (flagPort fl)) of
        Some e \<Rightarrow> (Fail (Wrap ''failed to connect'' e), s)
      | None \<Rightarrow>
          (case emit_event (wPb W) C fl of
             Inl e \<Rightarrow> (Fail e, s)
           | Inr ev \<Rightarrow> report ''failed to publish event'' (call C (Publish W ev s) s)))"

section \<open>\<open>pcasctl replay\<close>\<close>

text \<open>
  The command opens a database file of its own and reads a row of a table \<open>events\<close>. The file is
  what the server has on disk and, possibly, that table: \<open>initSchema\<close> creates only \<open>nodes\<close> and
  \<open>edges\<close>, so a file of the server does not have it, and the query fails. The user, the session
  and the attributes of an event are no columns of the table. \<open>queryError\<close> is the failure of the
  statement or of reading its row.
\<close>

record replay_row =
  rowId :: string
  rowType :: string
  rowSource :: string
  rowSubject :: string
  rowSpecversion :: string
  rowTime :: timestamp
  rowData :: "string option"
  rowTraceID :: "string option"
  rowCorrelationID :: "string option"

record replay_file = disk +
  eventsTable :: "replay_row list option"

definition server_file :: "disk \<Rightarrow> replay_file" where
  "server_file d = disk.extend d \<lparr>eventsTable = None\<rparr>"

datatype 'r lookup = NoRow | QueryFails err | Found 'r

definition query_event :: "err option \<Rightarrow> replay_file \<Rightarrow> string \<Rightarrow> replay_row lookup" where
  "query_event queryError db eventID =
     (case eventsTable db of
        None \<Rightarrow> QueryFails (Errorf ''no such table: events'')
      | Some rows \<Rightarrow>
          (case queryError of
             Some e \<Rightarrow> QueryFails e
           | None \<Rightarrow> (case find (\<lambda>r. rowId r = eventID) rows of None \<Rightarrow> NoRow | Some r \<Rightarrow> Found r)))"

text \<open>\<open>json.Unmarshal\<close> into an \<open>interface{}\<close>.\<close>

definition json_unmarshal :: "string \<Rightarrow> gval option" where
  "json_unmarshal s =
     (case pv (2 * length s + 2) s of Some (v, r) \<Rightarrow> if skip_ws r = [] then Some v else None | None \<Rightarrow> None)"

definition replay_event :: "pb \<Rightarrow> replay_row \<Rightarrow> event" where
  "replay_event P r =
     (let ev = empty_event\<lparr>evId := rowId r, evType := rowType r, evSource := rowSource r,
                 evSubject := rowSubject r, evSpecversion := rowSpecversion r, evTime := Some (rowTime r)\<rparr>;
          ev = (case rowTraceID r of Some t \<Rightarrow> ev\<lparr>evTraceId := t\<rparr> | None \<Rightarrow> ev);
          ev = (case rowCorrelationID r of Some t \<Rightarrow> ev\<lparr>evCorrelationId := t\<rparr> | None \<Rightarrow> ev)
      in case rowData r of
           None \<Rightarrow> ev
         | Some t \<Rightarrow>
             if t = [] then ev
             else (case json_unmarshal t of None \<Rightarrow> ev | Some v \<Rightarrow> ev\<lparr>evData := AnyOfValue P v\<rparr>))"

definition replayEvent ::
    "client \<Rightarrow> 'g world \<Rightarrow> err option \<Rightarrow> err option \<Rightarrow> replay_file \<Rightarrow> string \<Rightarrow> string \<Rightarrow> string \<Rightarrow>
     'g server \<Rightarrow> unit res \<times> 'g server" where
  "replayEvent C W openError queryError db addr port eventID s =
     (case openError of
        Some e \<Rightarrow> (Fail (Wrap ''failed to open database'' e), s)
      | None \<Rightarrow>
          (case query_event queryError db eventID of
             NoRow \<Rightarrow> (Fail (Errorf (''event not found: '' @ eventID)), s)
           | QueryFails e \<Rightarrow> (Fail (Wrap ''failed to query event'' e), s)
           | Found r \<Rightarrow>
               (case DialErr C (server_address addr port) of
                  Some e \<Rightarrow> (Fail (Wrap ''failed to connect to server'' e), s)
                | None \<Rightarrow> report ''failed to publish replayed event'' (call C (Publish W (replay_event (wPb W) r) s) s))))"

section \<open>\<open>pcasctl search\<close>\<close>

text \<open>The command up to the printing of what it found. \<open>int32(topK)\<close> keeps the low 32 bits of the flag.\<close>

definition search_command :: "string \<Rightarrow> int \<Rightarrow> string \<Rightarrow> search_request" where
  "search_command queryText topK searchUserID =
     \<lparr>QueryText = queryText, TopK = word_of_int topK, SearchUserId = searchUserID, AttributeFilters = []\<rparr>"

definition runSearch ::
    "client \<Rightarrow> 'g world \<Rightarrow> string \<Rightarrow> string \<Rightarrow> string \<Rightarrow> int \<Rightarrow> string \<Rightarrow> 'g server \<Rightarrow>
     (event list \<times> f32 list) res \<times> 'g server" where
  "runSearch C W addr port queryText topK searchUserID s =
     (case DialErr C (server_address addr port) of
        Some e \<Rightarrow> (Fail (Wrap ''failed to connect to server'' e), s)
      | None \<Rightarrow>
          report ''search failed'' (call C (Search W (search_command queryText topK searchUserID) s) s))"

section \<open>\<open>Subscribe\<close> of the SDK\<close>

text \<open>
  \<open>arrived\<close> lists what \<open>stream.Recv\<close> returned, \<open>held\<close> is the event the goroutine waits to hand
  over on the unbuffered channel, \<open>handedOver\<close> what the consumer took from it.
\<close>

record subscription =
  arrived :: "event list"
  held :: "event option"
  handedOver :: "event list"
  ctxDone :: bool
  chanClosed :: bool

definition new_subscription :: subscription where
  "new_subscription = \<lparr>arrived = [], held = None, handedOver = [], ctxDone = False, chanClosed = False\<rparr>"

text \<open>
  \<open>Recv\<close> returns an event or an error (end of stream, a cancelled context, anything else: the
  goroutine ends and the channel is closed in every case); the consumer receives; the context is
  cancelled, upon which the goroutine may also give up on the event it holds.
\<close>

datatype sub_action = RecvEvent event | RecvError | HandOver | CancelCtx | GiveUpEvent

inductive sub_step :: "subscription \<Rightarrow> sub_action \<Rightarrow> subscription \<Rightarrow> bool" where
  recv: "\<not> chanClosed u \<Longrightarrow> held u = None \<Longrightarrow>
    sub_step u (RecvEvent ev) (u\<lparr>arrived := arrived u @ [ev], held := Some ev\<rparr>)"
| recv_error: "\<not> chanClosed u \<Longrightarrow> held u = None \<Longrightarrow> sub_step u RecvError (u\<lparr>chanClosed := True\<rparr>)"
| hands_over: "\<not> chanClosed u \<Longrightarrow> held u = Some ev \<Longrightarrow>
    sub_step u HandOver (u\<lparr>held := None, handedOver := handedOver u @ [ev]\<rparr>)"
| cancels: "sub_step u CancelCtx (u\<lparr>ctxDone := True\<rparr>)"
| drops: "\<not> chanClosed u \<Longrightarrow> held u = Some ev \<Longrightarrow> ctxDone u \<Longrightarrow>
    sub_step u GiveUpEvent (u\<lparr>chanClosed := True\<rparr>)"

inductive_cases sub_stepE: "sub_step u a v"

end
