(* ===== verification/ClientProperties.thy ===== *)
theory ClientProperties
  imports Clients ServerProperties
begin

text \<open>
  What becomes of the events the SDK and \<open>pcasctl\<close> send, followed through the server into the
  database and, for subscriptions, from the server's channels to the consumer.
\<close>

section \<open>Recorded events\<close>

text \<open>
  What is published and stored can be read back after any further run of the server; this is
  the storage's promise carried to the machine of the server.
\<close>

lemma published_then_read:
  assumes ok: "world_ok W" and inv: "server_inv W (s, hs)" and wf: "event_wf ev"
    and stored: "fst (StoreEvent (wEnv W) (wGraph W) (wPb W) ev [] (serverStorage s)) = Ok u"
    and run: "runs (server_step W) (accept_event W ev s, ev # hs) acts c"
    and up: "\<not> StmtFails (wEnv W) (ticks (serverStorage (fst c)))"
  shows "fst (GetEventByID (wEnv W) (wPb W) (evId ev) (serverStorage (fst c))) = Ok (stored_form (wPb W) ev)"
proof -
  let ?a = "(accept_event W ev s, ev # hs)"
  have inv0: "world_ok W \<and> server_inv W ?a" using ok accept_keeps [OF ok inv wf] by simp
  have "holds_event (wPb W) (serverStorage (accept_event W ev s)) ev"
    using stored by (intro StoreEvent_holds) (simp add: accept_event_parts prod_eq_iff)
  then have held: "holds_event (wPb W) (serverStorage (fst c)) ev"
    using bus.run_keeps [OF run inv0, of "\<lambda>c. holds_event (wPb W) (serverStorage (fst c)) ev"]
      server_step_grows holds_event_grows by (fastforce simp: server_inv_def)
  have "storage_inv (wGraph W) (wPb W) (serverStorage (fst c))"
    using bus.run_inv [OF run inv0] by (cases c) (simp add: server_inv_def)
  then show ?thesis
    using sq.get_holds [of "wGraph W" "wPb W" "serverStorage (fst c)" ev "wEnv W"] held wf up world_okD [OF ok]
    by simp
qed

lemma stored_object:
  assumes "pb_ok P" "evData ev = Some a" "AnyOfValue P (GObj m) = Some a" "json_shape (GObj m)"
    "nums_finite (GObj m)"
  shows "event_object P (stored_form P ev) = Some m"
  using pb_okD [OF assms(1,4,5,3)] assms(2,3)
  by (simp add: event_object_def event_value_def stored_form_def data_value_def)

lemma stored_no_object: "evData ev = None \<Longrightarrow> event_object P (stored_form P ev) = None"
  by (simp add: event_object_def event_value_def stored_form_def)

definition client_wf :: "client \<Rightarrow> bool" where
  "client_wf C \<longleftrightarrow> (\<forall>n. valid_utf8 (ClientUuid C n)) \<and> ts_valid (TimestampOf (ClientNow C))"

definition flags_wf :: "emit_flags \<Rightarrow> bool" where
  "flags_wf fl \<longleftrightarrow> valid_utf8 (flagType fl) \<and> valid_utf8 (flagSource fl) \<and> valid_utf8 (flagSubject fl) \<and>
     valid_utf8 (flagTraceID fl) \<and> valid_utf8 (flagUserID fl) \<and> valid_utf8 (flagSessionID fl)"

text \<open>The event of the \<open>emit\<close> command: an optional flag that is not given leaves its field empty.\<close>

lemma set_if_given:
  "evSubject ev = [] \<Longrightarrow> (if x \<noteq> [] then ev\<lparr>evSubject := x\<rparr> else ev) = ev\<lparr>evSubject := x\<rparr>"
  "evUserId ev = [] \<Longrightarrow> (if x \<noteq> [] then ev\<lparr>evUserId := x\<rparr> else ev) = ev\<lparr>evUserId := x\<rparr>"
  "evSessionId ev = [] \<Longrightarrow> (if x \<noteq> [] then ev\<lparr>evSessionId := x\<rparr> else ev) = ev\<lparr>evSessionId := x\<rparr>"
  by (cases ev, simp)+

lemma emit_event_fields:
  assumes "emit_event P C fl = Inr ev"
  shows "evType ev = flagType fl" "evSource ev = flagSource fl" "evSubject ev = flagSubject fl"
    "evSpecversion ev = ''1.0''" "evUserId ev = flagUserID fl" "evSessionId ev = flagSessionID fl"
    "evTraceId ev = (if flagTraceID fl \<noteq> [] then flagTraceID fl else ClientUuid C 2)"
    "evId ev = ClientUuid C 1" "evTime ev = Some (TimestampOf (ClientNow C))" "evCorrelationId ev = []"
    "emit_data P (flagData fl) = Inr (evData ev)"
proof -
  obtain d where d: "emit_data P (flagData fl) = Inr d"
    using assms by (cases "emit_data P (flagData fl)") (simp_all add: emit_event_def Let_def)
  let ?ev = "empty_event\<lparr>evId := ClientUuid C 1, evSource := flagSource fl, evSpecversion := ''1.0'',
    evType := flagType fl, evTime := Some (TimestampOf (ClientNow C)),
    evTraceId := (if flagTraceID fl \<noteq> [] then flagTraceID fl else ClientUuid C 2),
    evSubject := flagSubject fl, evUserId := flagUserID fl, evSessionId := flagSessionID fl, evData := d\<rparr>"
  have "ev = ?ev"
    using assms unfolding emit_event_def Let_def d
    by (cases d) (auto simp: set_if_given empty_event_def)
  then show "evType ev = flagType fl" "evSource ev = flagSource fl" "evSubject ev = flagSubject fl"
    "evSpecversion ev = ''1.0''" "evUserId ev = flagUserID fl" "evSessionId ev = flagSessionID fl"
    "evTraceId ev = (if flagTraceID fl \<noteq> [] then flagTraceID fl else ClientUuid C 2)"
    "evId ev = ClientUuid C 1" "evTime ev = Some (TimestampOf (ClientNow C))" "evCorrelationId ev = []"
    "emit_data P (flagData fl) = Inr (evData ev)"
    by (simp_all only: d) (simp_all add: empty_event_def)
qed

lemma emit_data_cases:
  assumes "emit_data P t = Inr d"
  obtains "t = []" "d = None"
  | m a where "t \<noteq> []" "json_unmarshal_map t = Some m" "AnyOfValue P (GObj m) = Some a" "d = Some a"
proof (cases "t = []")
  case False
  then obtain m where m: "json_unmarshal_map t = Some m"
    using assms by (cases "json_unmarshal_map t") (simp_all add: emit_data_def)
  with assms False obtain a where a: "AnyOfValue P (GObj m) = Some a"
    by (cases "AnyOfValue P (GObj m)") (simp_all add: emit_data_def)
  have "d = Some a" using assms False m a by (simp add: emit_data_def)
  then show ?thesis by (rule that(2) [OF False m a])
qed (use assms that(1) in \<open>simp add: emit_data_def\<close>)

lemma emit_event_wf:
  assumes "world_ok W" "client_wf C" "flags_wf fl" "emit_event (wPb W) C fl = Inr ev"
  shows "event_wf ev"
proof -
  note f = emit_event_fields [OF assms(4)]
  have "case evData ev of None \<Rightarrow> True | Some a \<Rightarrow> valid_utf8 (TypeUrl a)"
    using f(11) by (cases rule: emit_data_cases) (use assms(1) in \<open>auto simp: world_ok_def\<close>)
  then show ?thesis
    using assms(2,3) utf8_ascii [of "''1.0''"]
    by (simp add: event_wf_def client_wf_def flags_wf_def f(1-10))
qed

text \<open>
  C13: an event sent with \<open>pcasctl emit\<close> and stored by the server can be read for ever after,
  whatever the server does in between: its id gives back the type, the source, the subject, the
  user and the session of the flags, the trace id of the flag or a generated one, the time to
  the second, and exactly the JSON object of \<open>--data\<close>.
\<close>

theorem emitted_event_is_recorded:
  assumes "world_ok W" "server_inv W (s, hs)" "client_wf C" "flags_wf fl"
    and ev: "emit_event (wPb W) C fl = Inr ev"
    and "fst (StoreEvent (wEnv W) (wGraph W) (wPb W) ev [] (serverStorage s)) = Ok u"
    and "runs (server_step W) (accept_event W ev s, ev # hs) acts c"
    and "\<not> StmtFails (wEnv W) (ticks (serverStorage (fst c)))"
  shows "\<exists>got. fst (GetEventByID (wEnv W) (wPb W) (evId ev) (serverStorage (fst c))) = Ok got \<and>
    evType got = flagType fl \<and> evSource got = flagSource fl \<and> evSubject got = flagSubject fl \<and>
    evUserId got = flagUserID fl \<and> evSessionId got = flagSessionID fl \<and>
    evTraceId got = (if flagTraceID fl \<noteq> [] then flagTraceID fl else ClientUuid C 2) \<and>
    evTime got = Some \<lparr>tsSeconds = ClientNow C div 1000000000, tsNanos = 0\<rparr> \<and>
    event_object (wPb W) got = (if flagData fl = [] then None else json_unmarshal_map (flagData fl))"
proof -
  have wf: "event_wf ev" by (rule emit_event_wf [OF assms(1,3,4) ev])
  have pb: "pb_ok (wPb W)" using assms(1) by (simp add: world_ok_def pb_json_ok_def)
  have "event_object (wPb W) (stored_form (wPb W) ev) =
      (if flagData fl = [] then None else json_unmarshal_map (flagData fl))"
    using emit_event_fields(11) [OF ev]
    by (cases rule: emit_data_cases)
      (auto simp: stored_no_object intro: stored_object [OF pb] json_unmarshal_map_shape)
  then show ?thesis
    using published_then_read [OF assms(1,2) wf assms(6-8)] emit_event_fields [OF ev]
    by (intro exI [of _ "stored_form (wPb W) ev"]) (simp add: stored_form_def TimestampOf_def)
qed

text \<open>A sample command.\<close>

definition sample_client :: client where
  "sample_client = \<lparr>DialErr = (\<lambda>a. None), CallDelivery = Delivered, StatusError = (\<lambda>e. e),
     ClientUuid = (\<lambda>n. ''u'' @ dec_nat n), ClientNow = 1500000000\<rparr>"

definition sample_flags :: emit_flags where
  "sample_flags = \<lparr>flagType = ''user.note.v1'', flagSource = ''pcasctl'', flagSubject = [],
     flagData = [CHR ''{'', quot, CHR ''a'', quot, CHR '':'', quot, CHR ''b'', quot, CHR ''}''],
     flagPort = ''50051'', flagServer = [], flagTraceID = ''t7'', flagUserID = ''ann'', flagSessionID = []\<rparr>"

definition sample_emitted :: event where
  "sample_emitted = (case emit_event text_pb sample_client sample_flags of Inr ev \<Rightarrow> ev | Inl e \<Rightarrow> empty_event)"

lemma sample_client_wf: "client_wf sample_client"
proof -
  have "valid_utf8 (''u'' @ dec_nat n)" for n
    using digits_ascii [OF dec_nat_digits] by (intro utf8_ascii) simp
  then show ?thesis by (simp add: client_wf_def sample_client_def ts_valid_def TimestampOf_def)
qed

lemma sample_flags_wf: "flags_wf sample_flags"
  by code_simp

lemma sample_emit_event: "case emit_event text_pb sample_client sample_flags of Inr ev \<Rightarrow> True | Inl e \<Rightarrow> False"
  by code_simp

lemma sample_emitted: "emit_event (wPb sample_world) sample_client sample_flags = Inr sample_emitted"
  using sample_emit_event by (simp add: sample_emitted_def split: sum.splits)

lemma sample_ids: "nId ` set (Nodes sample_stored) = {''e1'', ''vec_6_1''}"
  using sample_nodes by (metis list.set_map list.simps(15) empty_set)

lemma sample_emitted_id: "evId sample_emitted = ''u1''"
  using emit_event_fields(8) [OF sample_emitted] by (simp add: sample_client_def) code_simp

lemma sample_emitted_stored:
  "fst (StoreEvent calm_env list_graph text_pb sample_emitted [] sample_stored) = Ok ()"
proof (rule StoreEvent_fresh [OF text_pb_ok])
  show "event_wf sample_emitted"
    by (rule emit_event_wf [OF sample_world_ok sample_client_wf sample_flags_wf sample_emitted])
  show "evId sample_emitted \<notin> nId ` set (Nodes sample_stored)"
    by (simp add: sample_emitted_id sample_ids)
qed (simp add: calm_env_def)

lemma sample_flags_data: "json_unmarshal_map (flagData sample_flags) = Some [(''a'', GStr ''b'')]"
  by code_simp

theorem emitted_event_is_recorded_witness:
  "\<exists>got. fst (GetEventByID calm_env text_pb ''u1''
       (serverStorage (accept_event sample_world sample_emitted sample_server))) = Ok got \<and>
     evUserId got = ''ann'' \<and> evTraceId got = ''t7'' \<and> event_object text_pb got = Some [(''a'', GStr ''b'')]"
  using emitted_event_is_recorded [OF sample_world_ok sample_server_inv sample_client_wf sample_flags_wf
      sample_emitted _ runs.stop [where step = "server_step sample_world"]]
    sample_emitted_stored sample_flags_data
  by (auto simp: sample_flags_def calm_env_def sample_emitted_id)

section \<open>Events of the SDK\<close>

definition options_wf :: "emit_options \<Rightarrow> bool" where
  "options_wf opts \<longleftrightarrow> valid_utf8 (optSource opts) \<and> valid_utf8 (optSubject opts) \<and> valid_utf8 (optTraceID opts)"

lemma sdk_event_fields:
  assumes "sdk_event P C ty data opts = Inr ev"
  shows "evType ev = ty" "evSource ev = (if optSource opts = [] then ''pcas-sdk'' else optSource opts)"
    "evSpecversion ev = ''1.0''" "evSubject ev = optSubject opts" "evTime ev = Some (TimestampOf (ClientNow C))"
    "evUserId ev = []" "evSessionId ev = []" "evCorrelationId ev = []"
    "evTraceId ev = (if optTraceID opts = [] then ClientUuid C 0 else optTraceID opts)"
    "evId ev = ClientUuid C (if optTraceID opts = [] then 1 else 0)"
    "data = [] \<and> evData ev = None \<or> data \<noteq> [] \<and> evData ev \<noteq> None \<and> AnyOfValue P (GObj data) = evData ev"
  using assms
  by (auto simp: sdk_event_def Let_def empty_event_def split: if_splits option.splits)

lemma sdk_event_wf:
  assumes "world_ok W" "client_wf C" "options_wf opts" "valid_utf8 ty" "sdk_event (wPb W) C ty data opts = Inr ev"
  shows "event_wf ev"
proof -
  note f = sdk_event_fields [OF assms(5)]
  have "case evData ev of None \<Rightarrow> True | Some a \<Rightarrow> valid_utf8 (TypeUrl a)"
    using f(11) assms(1) by (cases "evData ev") (auto simp: world_ok_def)
  then show ?thesis
    using assms(2-4) utf8_ascii [of "''1.0''"] utf8_ascii [of "''pcas-sdk''"]
    by (simp add: event_wf_def client_wf_def options_wf_def f(1-10))
qed

text \<open>
  The map a program passes to the SDK's \<open>EmitWithOptions\<close> is the map that is read back from
  the database under the event's id, with the given type, subject and trace id and with the
  source \<open>pcas-sdk\<close> unless one is given; the SDK sets no user and no session. An empty map
  is stored as no data at all.
\<close>

theorem sdk_event_is_recorded:
  assumes "world_ok W" "server_inv W (s, hs)" "client_wf C" "options_wf opts" "valid_utf8 ty"
    and "json_ok (GObj data)" and ev: "sdk_event (wPb W) C ty data opts = Inr ev"
    and "fst (StoreEvent (wEnv W) (wGraph W) (wPb W) ev [] (serverStorage s)) = Ok u"
    and "runs (server_step W) (accept_event W ev s, ev # hs) acts c"
    and "\<not> StmtFails (wEnv W) (ticks (serverStorage (fst c)))"
  shows "\<exists>got. fst (GetEventByID (wEnv W) (wPb W) (evId ev) (serverStorage (fst c))) = Ok got \<and>
    evType got = ty \<and> evSubject got = optSubject opts \<and> evUserId got = [] \<and> evSessionId got = [] \<and>
    evSource got = (if optSource opts = [] then ''pcas-sdk'' else optSource opts) \<and>
    (optTraceID opts \<noteq> [] \<longrightarrow> evTraceId got = optTraceID opts) \<and>
    event_object (wPb W) got = (if data = [] then None else Some data)"
proof -
  have wf: "event_wf ev" by (rule sdk_event_wf [OF assms(1,3-5) ev])
  have pb: "pb_ok (wPb W)" using assms(1) by (simp add: world_ok_def pb_json_ok_def)
  note f = sdk_event_fields [OF ev]
  have "event_object (wPb W) (stored_form (wPb W) ev) = (if data = [] then None else Some data)"
    using f(11) stored_object [OF pb] assms(6) by (auto simp: stored_no_object json_ok_def)
  then show ?thesis
    using published_then_read [OF assms(1,2) wf assms(8-10)] f(1-10)
    by (intro exI [of _ "stored_form (wPb W) ev"]) (simp add: stored_form_def)
qed

definition sdk_options :: emit_options where
  "sdk_options = \<lparr>optSource = [], optSubject = ''s'', optTraceID = ''t8''\<rparr>"

definition sdk_sample :: event where
  "sdk_sample = (case sdk_event text_pb sample_client ''app.v1'' [(''k'', GStr ''v'')] sdk_options of
     Inr ev \<Rightarrow> ev | Inl e \<Rightarrow> empty_event)"

lemma sdk_sample_event: "case sdk_event text_pb sample_client ''app.v1'' [(''k'', GStr ''v'')] sdk_options of
    Inr ev \<Rightarrow> True | Inl e \<Rightarrow> False"
  by code_simp

lemma sdk_sample: "sdk_event (wPb sample_world) sample_client ''app.v1'' [(''k'', GStr ''v'')] sdk_options = Inr sdk_sample"
  using sdk_sample_event by (simp add: sdk_sample_def split: sum.splits)

lemma sdk_options_wf: "options_wf sdk_options" "valid_utf8 ''app.v1''"
  by code_simp+

lemma sdk_sample_id: "evId sdk_sample = ''u0''"
  using sdk_event_fields(10) [OF sdk_sample] by (simp add: sample_client_def sdk_options_def) code_simp

theorem sdk_event_is_recorded_example:
  "\<exists>got. fst (GetEventByID calm_env text_pb ''u0''
       (serverStorage (accept_event sample_world sdk_sample sample_server))) = Ok got \<and>
     evSource got = ''pcas-sdk'' \<and> event_object text_pb got = Some [(''k'', GStr ''v'')]"
proof -
  have "event_wf sdk_sample"
    by (rule sdk_event_wf [OF sample_world_ok sample_client_wf sdk_options_wf sdk_sample])
  then have "fst (StoreEvent calm_env list_graph text_pb sdk_sample [] sample_stored) = Ok ()"
    using sample_ids by (intro StoreEvent_fresh [OF text_pb_ok]) (simp_all add: sdk_sample_id calm_env_def)
  moreover have "json_ok (GObj [(''k'', GStr ''v'')])" by code_simp
  ultimately show ?thesis
    using sdk_event_is_recorded [OF sample_world_ok sample_server_inv sample_client_wf sdk_options_wf _
        sdk_sample _ runs.stop [where step = "server_step sample_world"]]
    by (auto simp: sdk_options_def calm_env_def sdk_sample_id)
qed

section \<open>Replayed events\<close>

text \<open>On a database the server has written, replay sends nothing: there is no table \<open>events\<close>.\<close>

lemma replay_finds_no_table:
  "replayEvent C W None queryError (server_file d) addr port eventID s =
     (Fail (Wrap ''failed to query event'' (Errorf ''no such table: events'')), s)"
  by (simp add: replayEvent_def query_event_def server_file_def disk.defs)

section \<open>The top-k flag\<close>

text \<open>
  The flag counts modulo \<open>2^32\<close>: beyond 31 bits the server sees another number, and 5 when
  that is not positive.
\<close>

lemma search_command_topK:
  "search_topK (search_command q k u) = (let n = signed_take_bit 31 k in if n \<le> 0 then 5 else n)"
  by (simp add: search_topK_def search_command_def Let_def sint_sbintrunc')

lemma search_command_topK_small:
  "- (2 ^ 31) \<le> k \<Longrightarrow> k < 2 ^ 31 \<Longrightarrow> search_topK (search_command q k u) = (if k \<le> 0 then 5 else k)"
  by (simp add: search_command_topK signed_take_bit_int_eq_self)

lemma search_command_topK_wraps: "search_topK (search_command q (2 ^ 32 + 3) u) = 3"
  by (simp add: search_command_topK Let_def signed_take_bit_eq_if_positive)

section \<open>Subscriptions of the SDK\<close>

definition sub_inv :: "subscription \<Rightarrow> bool" where
  "sub_inv u \<longleftrightarrow>
     arrived u = handedOver u @ (case held u of None \<Rightarrow> [] | Some ev \<Rightarrow> [ev]) \<and>
     (chanClosed u \<and> held u \<noteq> None \<longrightarrow> ctxDone u)"

lemma sub_step_inv: "sub_inv u \<Longrightarrow> sub_step u a v \<Longrightarrow> sub_inv v"
  by (erule sub_stepE) (auto simp: sub_inv_def)

interpretation sdk: machine sub_step sub_inv
  by unfold_locales (rule sub_step_inv)

lemma sub_inv_new: "sub_inv new_subscription"
  by (simp add: sub_inv_def new_subscription_def)

text \<open>
  C24: what a program reads from the channel of the SDK's \<open>Subscribe\<close> is, in order and without
  repetition, a part of what the server broadcast: exactly what arrived on its stream but for
  the last event, which may still be waiting to be handed over; only a cancelled context can
  lose that one. Once the channel is closed without a cancellation, everything was handed over.
\<close>

theorem sdk_subscription_in_order:
  assumes "bus_run serverAdmit new_registry as r" "prefix (arrived u) (received r n)"
    and "runs sub_step new_subscription bs u"
  shows "subseq (handedOver u) (broadcasts as) \<and> prefix (handedOver u) (arrived u) \<and>
    length (arrived u) \<le> length (handedOver u) + 1 \<and>
    (chanClosed u \<and> \<not> ctxDone u \<longrightarrow> handedOver u = arrived u)"
proof -
  have inv: "sub_inv u" by (rule sdk.run_inv [OF assms(3) sub_inv_new])
  then have "prefix (handedOver u) (arrived u)" by (simp add: sub_inv_def)
  moreover from this assms(2) have "prefix (handedOver u) (received r n)" by (rule prefix_order.trans)
  then have "subseq (handedOver u) (broadcasts as)"
    using srv.in_order [OF assms(1)] prefix_imp_subseq subseq_order.trans by blast
  ultimately show ?thesis using inv by (auto simp: sub_inv_def split: option.splits)
qed

theorem sdk_subscription_in_order_witness:
  "\<exists>u :: subscription. runs sub_step new_subscription [RecvEvent note_event, HandOver, RecvError] u \<and>
     handedOver u = [note_event] \<and> subseq (handedOver u) [note_event]"
proof -
  let ?u = "\<lparr>arrived = [note_event], held = None, handedOver = [note_event], ctxDone = False, chanClosed = True\<rparr>"
  let ?u2 = "?u\<lparr>chanClosed := False\<rparr>"
  let ?u1 = "?u2\<lparr>held := Some note_event, handedOver := []\<rparr>"
  have s1: "sub_step new_subscription (RecvEvent note_event) ?u1"
    using sub_step.recv [of new_subscription note_event] by (simp add: new_subscription_def)
  have s2: "sub_step ?u1 HandOver ?u2" using sub_step.hands_over [of ?u1 note_event] by simp
  have s3: "sub_step ?u2 RecvError ?u" using sub_step.recv_error [of ?u2] by simp
  have run: "runs sub_step new_subscription [RecvEvent note_event, HandOver, RecvError] ?u"
    by (intro runs.intros) (rule s1 s2 s3 runs.stop)+
  have srun: "bus_run serverAdmit new_registry [Subscribe ''a'', Broadcast note_event, Deliver 0] one_stream_end"
    by (rule one_stream_run) (simp add: serverAdmit_def)
  from sdk_subscription_in_order [OF srun _ run, of 0] show ?thesis
    using run by (intro exI [of _ ?u]) (simp add: bus_simps one_stream_end_def)
qed

end
