(* ===== verification/Display.thy ===== *)
theory Display
  imports Clients
begin

text \<open>
  What the clients print: the results of \<open>pcasctl search\<close> (\<open>cmd/pcasctl/cmd/search.go\<close>), the
  events \<open>pcasctl emit\<close> receives while it waits (\<open>cmd/pcasctl/cmd/emit.go\<close>) and those of the example
  applications (\<open>examples/logger-dapp/main.go\<close>, \<open>examples/hello-dapp/main.go\<close>), with the verbs of \<open>fmt\<close> and \<open>json.MarshalIndent\<close> they use.
\<close>

section \<open>JSON with line breaks\<close>

definition line_break :: "string \<Rightarrow> string \<Rightarrow> nat \<Rightarrow> string" where
  "line_break pre indent d = newline # pre @ concat (replicate d indent)"

definition MarshalIndent :: "gval \<Rightarrow> string \<Rightarrow> string \<Rightarrow> string option" where
  "MarshalIndent v pre indent =
     (if nums_finite v then Some (json_lay (line_break pre indent) '' '' 0 v) else None)"

section \<open>Verbs of fmt\<close>

text \<open>
  \<open>%.3f\<close> of a \<open>float32\<close>: the exact value, rounded to three decimals, ties to even. A value that
  rounds to zero keeps its sign.
\<close>

definition thousandths :: "f32 \<Rightarrow> nat" where
  "thousandths x = div_even (mag_val 24 (f32_mag x) * 1000) (2 ^ 149)"

definition score_text :: "f32 \<Rightarrow> string" where
  "score_text x =
     (if f32_nan x then ''NaN''
      else if f32_inf x then (if f32_neg x then ''-Inf'' else ''+Inf'')
      else (let q = thousandths x; ds = dec_nat (q mod 1000)
            in (if f32_neg x then ''-'' else []) @ dec_nat (q div 1000) @
               CHR ''.'' # replicate (3 - length ds) (CHR ''0'') @ ds))"

text \<open>
  \<open>%v\<close> of a dynamic value. A number comes in its shortest form, with an exponent of two digits
  when it is below -4 or from 6 on.
\<close>

definition exp2_text :: "int \<Rightarrow> string" where
  "exp2_text x =
     (if x < 0 then ''e-'' else ''e+'') @ (let ds = dec_nat (nat \<bar>x\<bar>) in replicate (2 - length ds) (CHR ''0'') @ ds)"

definition float_v :: "f64 \<Rightarrow> string" where
  "float_v x =
     (let b = f64_mag x; sign = (if f64_neg x then ''-'' else [])
      in if 0x7FF0000000000000 < b then ''NaN''
         else if b = 0x7FF0000000000000 then (if f64_neg x then ''-Inf'' else ''+Inf'')
         else if b = 0 then sign @ ''0''
         else (let q = fst (shortest_dec b); e = snd (shortest_dec b);
                   ds = dec_nat q; dp = int (length ds) + e
               in sign @
                  (if dp - 1 < -4 \<or> 6 \<le> dp - 1
                   then hd ds # (if tl ds = [] then [] else CHR ''.'' # tl ds) @ exp2_text (dp - 1)
                   else dec_text False q e)))"

fun words :: "string list \<Rightarrow> string" where
  "words [] = []"
| "words [x] = x"
| "words (x # xs) = x @ CHR '' '' # words xs"

definition map_v :: "(string \<times> string) list \<Rightarrow> string" where
  "map_v m = ''map['' @ words (map (\<lambda>p. fst p @ CHR '':'' # snd p) m) @ '']''"

fun fmt_v :: "gval \<Rightarrow> string" where
  "fmt_v GNil = ''<nil>''"
| "fmt_v (GBool b) = (if b then ''true'' else ''false'')"
| "fmt_v (GNum x) = float_v x"
| "fmt_v (GStr s) = s"
| "fmt_v (GArr vs) = ''['' @ words (map fmt_v vs) @ '']''"
| "fmt_v (GObj m) = ''map['' @ words (map (\<lambda>p. fst p @ CHR '':'' # fmt_v (snd p)) m) @ '']''"
| "fmt_v (GInt n) = dec_int n"
| "fmt_v (GStrMap m) = map_v m"
| "fmt_v (GMsgs ms) = ''['' @ words (map map_v ms) @ '']''"

section \<open>\<open>pcasctl search\<close>\<close>

definition bytes_text :: "byte list \<Rightarrow> string" where
  "bytes_text bs = map (\<lambda>b. char_of (unat b)) bs"

text \<open>
  The value shown: a \<open>Value\<close> that does not unmarshal leaves \<open>data\<close> nil; any other message is
  read as JSON, or shown as the text of its bytes.
\<close>

definition shown_value :: "pb \<Rightarrow> any_msg \<Rightarrow> gval" where
  "shown_value P a =
     (if MessageIsValue P a then (case ValueOfAny P a of Some v \<Rightarrow> v | None \<Rightarrow> GNil)
      else case json_unmarshal (bytes_text (AnyBytes a)) of
             Some v \<Rightarrow> v
           | None \<Rightarrow> GStr (bytes_text (AnyBytes a)))"

definition shown_data :: "gval \<Rightarrow> string" where
  "shown_data v =
     (case MarshalIndent v ''   '' ''  '' of
        Some s \<Rightarrow> ''   Data:'' @ newline # ''   '' @ s @ [newline]
      | None \<Rightarrow> ''   Data: '' @ fmt_v v @ [newline])"

definition shown_field :: "string \<Rightarrow> string \<Rightarrow> string" where
  "shown_field label s = (if s \<noteq> [] then ''   '' @ label @ '': '' @ s @ [newline] else [])"

text \<open>One result; a score is missing when the answer has fewer scores than events.\<close>

definition result_head :: "nat \<Rightarrow> event \<Rightarrow> f32 list \<Rightarrow> string" where
  "result_head i ev scores =
     dec_nat (i + 1) @ ''. Event ID: '' @ evId ev @ [newline] @
     (if i < length scores then ''   Similarity Score: '' @ score_text (scores ! i) @ [newline] else []) @
     ''   Type: '' @ evType ev @ [newline] @
     ''   Source: '' @ evSource ev @ [newline] @
     shown_field ''Subject'' (evSubject ev) @
     (case evTime ev of None \<Rightarrow> [] | Some t \<Rightarrow> ''   Time: '' @ format_rfc3339 (AsTime t) @ [newline])"

definition result_text :: "pb \<Rightarrow> nat \<Rightarrow> event \<Rightarrow> f32 list \<Rightarrow> string" where
  "result_text P i ev scores =
     result_head i ev scores @
     (case evData ev of None \<Rightarrow> [] | Some a \<Rightarrow> shown_data (shown_value P a)) @
     shown_field ''Trace ID'' (evTraceId ev) @
     shown_field ''Correlation ID'' (evCorrelationId ev) @ [newline]"

fun result_list :: "pb \<Rightarrow> nat \<Rightarrow> event list \<Rightarrow> f32 list \<Rightarrow> string" where
  "result_list P i [] scores = []"
| "result_list P i (ev # evs) scores = result_text P i ev scores @ result_list P (i + 1) evs scores"

definition search_text :: "pb \<Rightarrow> event list \<Rightarrow> f32 list \<Rightarrow> string" where
  "search_text P evs scores =
     (if evs = [] then ''No matching events found.'' @ [newline]
      else ''Found '' @ dec_nat (length evs) @ '' matching events:'' @ [newline, newline] @
           result_list P 0 evs scores)"

text \<open>The command: its result and what it prints.\<close>

definition search_main ::
    "client \<Rightarrow> 'g world \<Rightarrow> string \<Rightarrow> string \<Rightarrow> string \<Rightarrow> int \<Rightarrow> string \<Rightarrow> 'g server \<Rightarrow>
     (unit res \<times> string) \<times> 'g server" where
  "search_main C W addr port queryText topK searchUserID s =
     (case runSearch C W addr port queryText topK searchUserID s of
        (Ok (evs, scores), s) \<Rightarrow> ((Ok (), search_text (wPb W) evs scores), s)
      | (Fail e, s) \<Rightarrow> ((Fail e, []), s)
      | (Panics, s) \<Rightarrow> ((Panics, []), s))"

section \<open>Received events\<close>

text \<open>
  \<open>subscribeToEvents\<close> of \<open>pcasctl emit\<close>, as the messages it logs. An error of \<open>MarshalIndent\<close> is
  ignored and leaves the text empty.
\<close>

definition data_text :: "pb \<Rightarrow> event \<Rightarrow> string \<Rightarrow> string option" where
  "data_text P ev pre =
     map_option (\<lambda>v. case MarshalIndent v pre ''  '' of Some s \<Rightarrow> s | None \<Rightarrow> []) (event_value P ev)"

definition received_lines :: "pb \<Rightarrow> event \<Rightarrow> string list" where
  "received_lines P ev =
     [newline # ''=== Received Event ==='', ''ID: '' @ evId ev, ''Type: '' @ evType ev,
      ''Source: '' @ evSource ev, ''Subject: '' @ evSubject ev] @
     (case data_text P ev [] of None \<Rightarrow> [] | Some s \<Rightarrow> [''Data: '' @ s]) @
     [''===================='' @ [newline]]"

text \<open>What \<open>Recv\<close> returns, an event or an error with whether the context is done, until the loop ends.\<close>

fun receive_lines :: "pb \<Rightarrow> (err \<times> bool + event) list \<Rightarrow> string list" where
  "receive_lines P [] = []"
| "receive_lines P (Inr ev # rs) = received_lines P ev @ receive_lines P rs"
| "receive_lines P (Inl (e, finished) # rs) = (if finished then [] else [''Stream error: '' @ err_text e])"

definition subscribe_lines :: "pb \<Rightarrow> err option \<Rightarrow> (err \<times> bool + event) list \<Rightarrow> string list" where
  "subscribe_lines P subscribeErr rs =
     (case subscribeErr of
        Some e \<Rightarrow> [''Failed to subscribe: '' @ err_text e]
      | None \<Rightarrow> receive_lines P rs)"

text \<open>The logger application prints every event of its channel; \<open>clock\<close> is the local time of day.\<close>

definition logged_head :: "string \<Rightarrow> event \<Rightarrow> string" where
  "logged_head clock ev =
     newline # ''['' @ clock @ ''] Event Received:'' @ [newline] @
     ''  ID: '' @ evId ev @ [newline] @ ''  Type: '' @ evType ev @ [newline] @
     ''  Source: '' @ evSource ev @ [newline] @
     (if evTraceId ev \<noteq> [] then ''  Trace ID: '' @ evTraceId ev @ [newline] else []) @
     (if evCorrelationId ev \<noteq> [] then ''  Correlation ID: '' @ evCorrelationId ev @ [newline] else [])"

definition logged_text :: "pb \<Rightarrow> string \<Rightarrow> event \<Rightarrow> string" where
  "logged_text P clock ev =
     logged_head clock ev @
     (case data_text P ev ''  '' of None \<Rightarrow> [] | Some s \<Rightarrow> ''  Data: '' @ s @ [newline]) @
     ''----------------------------------------'' @ [newline]"

definition logger_output :: "pb \<Rightarrow> (string \<times> event) list \<Rightarrow> string" where
  "logger_output P deliveries = concat (map (\<lambda>(clock, ev). logged_text P clock ev) deliveries)"

text \<open>One beat of its heartbeat; \<open>now\<close> is the time in nanoseconds, a failure is only logged.\<close>

definition heartbeat :: "client \<Rightarrow> 'g world \<Rightarrow> int \<Rightarrow> 'g server \<Rightarrow> 'g server" where
  "heartbeat C W now s =
     snd (Emit C W ''dapp.heartbeat.v1''
       (gm_of [(''timestamp'', GInt (now div 1000000000)), (''status'', GStr ''healthy''),
          (''app'', GStr ''logger-dapp'')]) s)"

text \<open>
  The hello application prints the fields of an event, the time in UTC. Its loop ends with the
  context (\<open>None\<close>) or with the nil event a closed channel gives.
\<close>

definition hello_text :: "event \<Rightarrow> string" where
  "hello_text ev =
     newline # replicate 60 (CHR ''='') @ [newline] @
     map (char_of :: nat \<Rightarrow> char) [0xF0, 0x9F, 0x94, 0x94] @ '' Event Received!'' @ [newline] @
     ''   ID:      '' @ evId ev @ [newline] @ ''   Type:    '' @ evType ev @ [newline] @
     ''   Source:  '' @ evSource ev @ [newline] @
     (if evSubject ev \<noteq> [] then ''   Subject: '' @ evSubject ev @ [newline] else []) @
     (case evTime ev of None \<Rightarrow> [] | Some t \<Rightarrow> ''   Time:    '' @ format_rfc3339 t @ [newline]) @
     (if evTraceId ev \<noteq> [] then ''   TraceID: '' @ evTraceId ev @ [newline] else []) @
     (if evCorrelationId ev \<noteq> [] then ''   CorrelationID: '' @ evCorrelationId ev @ [newline] else []) @
     replicate 60 (CHR ''='') @ [newline]"

fun hello_output :: "event option option list \<Rightarrow> string" where
  "hello_output [] = []"
| "hello_output (Some (Some ev) # picks) = hello_text ev @ hello_output picks"
| "hello_output (Some None # picks) = []"
| "hello_output (None # picks) = []"

end
