(* ===== verification/DisplayProperties.thy ===== *)
theory DisplayProperties
  imports Display Instances
begin

text \<open>
  The properties of what the clients print: the data of an event is printed as a JSON document
  that reads back as the data, and a score within half a thousandth.
\<close>

section \<open>Data\<close>

lemma white_break:
  assumes "white pre" "white indent"
  shows "white (line_break pre indent d)"
  using assms by (induction d) (simp_all add: line_break_def is_space_def)

text \<open>Any indentation of white space reads back.\<close>

lemma MarshalIndent_reads_back:
  assumes "json_ok v" "white pre" "white indent"
  obtains s where "MarshalIndent v pre indent = Some s" "json_unmarshal s = Some v"
proof -
  let ?s = "json_lay (line_break pre indent) '' '' 0 v"
  have "reads_back (line_break pre indent) '' '' v"
    using json_lay_reads_back [OF white_break [OF assms(2,3)], of "'' ''" v] assms(1)
    by (simp add: json_ok_def is_space_def)
  then have "pv (2 * length ?s + 2) (?s @ []) = Some (v, [])"
    unfolding reads_back_def by (elim allE [of _ "2 * length ?s + 2"] allE [of _ "[]"] allE [of _ 0]) simp
  then have "json_unmarshal ?s = Some v" by (simp add: json_unmarshal_def del: pv.simps)
  moreover have "MarshalIndent v pre indent = Some ?s" using assms(1) by (simp add: MarshalIndent_def json_ok_def)
  ultimately show ?thesis using that by blast
qed

text \<open>
  C15: the clients print the data of an event, wherever it is present, as a JSON document that
  reads back as the very data: in the results of a search, among the messages of \<open>pcasctl emit\<close>
  and in the output of the logger, whose line breaks and indentation are white space of JSON.
\<close>

theorem printed_data_reads_back:
  assumes "pb_json_ok P" "event_value P ev = Some v"
  shows "(\<exists>a t b. result_text P i ev scores = a @ ''   Data:'' @ newline # ''   '' @ t @ newline # b \<and>
        json_unmarshal t = Some v) \<and>
    (\<exists>a t b. received_lines P ev = a @ (''Data: '' @ t) # b \<and> json_unmarshal t = Some v) \<and>
    (\<exists>a t b. logged_text P clock ev = a @ ''  Data: '' @ t @ newline # b \<and> json_unmarshal t = Some v)"
proof -
  obtain a where a: "evData ev = Some a" "MessageIsValue P a" "ValueOfAny P a = Some v"
    using assms(2) by (auto simp: event_value_def split: option.splits if_splits)
  then have v: "json_ok v" using assms(1) by (simp add: pb_json_ok_def)
  have blank: "white ''  ''" "white ''   ''" "white []" by (simp_all add: is_space_def)
  obtain s where s: "MarshalIndent v ''   '' ''  '' = Some s" "json_unmarshal s = Some v"
    by (rule MarshalIndent_reads_back [OF v blank(2,1)])
  obtain t where t: "MarshalIndent v [] ''  '' = Some t" "json_unmarshal t = Some v"
    by (rule MarshalIndent_reads_back [OF v blank(3,1)])
  obtain u where u: "MarshalIndent v ''  '' ''  '' = Some u" "json_unmarshal u = Some v"
    by (rule MarshalIndent_reads_back [OF v blank(1,1)])
  have shown: "shown_data (shown_value P a) = ''   Data:'' @ newline # ''   '' @ s @ [newline]"
    using a s(1) by (simp add: shown_value_def shown_data_def)
  have texts: "data_text P ev [] = Some t" "data_text P ev ''  '' = Some u"
    using assms(2) t(1) u(1) by (simp_all add: data_text_def)
  have "\<exists>x y. result_text P i ev scores = x @ (''   Data:'' @ newline # ''   '' @ s @ [newline]) @ y"
    unfolding result_text_def a(1) option.case shown by (intro exI, rule refl)
  moreover have "\<exists>x y. received_lines P ev = x @ [''Data: '' @ t] @ y"
    unfolding received_lines_def texts option.case by (intro exI, rule refl)
  moreover have "\<exists>x y. logged_text P clock ev = x @ (''  Data: '' @ u @ [newline]) @ y"
    unfolding logged_text_def texts option.case by (intro exI, rule refl)
  ultimately show ?thesis using s(2) t(2) u(2) by (simp only: append_assoc append.simps) blast
qed

definition shown_sample :: event where
  "shown_sample = empty_event\<lparr>evId := ''e1'', evData := AnyOfValue text_pb (GArr [GStr ''a'', GNil])\<rparr>"

theorem printed_data_reads_back_witness:
  "\<exists>a t b. received_lines text_pb shown_sample = a @ (''Data: '' @ t) # b \<and>
     json_unmarshal t = Some (GArr [GStr ''a'', GNil])"
proof -
  have "event_value text_pb shown_sample = Some (GArr [GStr ''a'', GNil])" by code_simp
  from printed_data_reads_back [OF text_pb_ok this] show ?thesis by blast
qed

section \<open>Scores\<close>

text \<open>
  C22: the score of a result is printed with its sign and three decimals, and the printed number
  differs from the score by at most half a thousandth.
\<close>

theorem score_text_nearest:
  assumes "\<not> f32_nan x" "\<not> f32_inf x"
  shows "\<exists>a b. score_text x = (if f32_neg x then ''-'' else []) @ a @ CHR ''.'' # b \<and> length b = 3 \<and>
    a \<noteq> [] \<and> list_all is_digit (a @ b) \<and>
    2 * \<bar>int (digits_val (a @ b)) * 2 ^ 149 - 1000 * int (mag_val 24 (f32_mag x))\<bar> \<le> 2 ^ 149"
proof -
  let ?q = "thousandths x"
  let ?a = "dec_nat (?q div 1000)" and ?ds = "dec_nat (?q mod 1000)"
  let ?b = "replicate (3 - length ?ds) (CHR ''0'') @ ?ds"
  have len: "length ?b = 3" using length_dec_nat [of "?q mod 1000" 3] by simp
  have "digits_val (?a @ ?b) = ?q div 1000 * 10 ^ 3 + ?q mod 1000"
    unfolding digits_val_append [of ?a] len by (simp add: digits_val_append)
  then have val: "digits_val (?a @ ?b) = ?q" by simp
  have "2 * \<bar>int ?q * int (2 ^ 149) - int (mag_val 24 (f32_mag x) * 1000)\<bar> \<le> int (2 ^ 149)"
    unfolding thousandths_def by (rule div_even_near) simp
  then have "2 * \<bar>int (digits_val (?a @ ?b)) * 2 ^ 149 - 1000 * int (mag_val 24 (f32_mag x))\<bar> \<le> 2 ^ 149"
    unfolding val by (simp add: mult.commute)
  moreover have "score_text x = (if f32_neg x then ''-'' else []) @ ?a @ CHR ''.'' # ?b"
    using assms by (simp add: score_text_def Let_def)
  moreover have "list_all is_digit (?a @ ?b)"
  proof -
    have "list_all is_digit (replicate k (CHR ''0''))" for k by (simp add: list_all_iff is_digit_def)
    then show ?thesis by (simp add: dec_nat_digits)
  qed
  ultimately show ?thesis using len dec_nat_neq_Nil by blast
qed

lemma thousandths_one: "thousandths f32_one = 1000"
proof -
  have "mag_val 24 (f32_mag f32_one) = 2 ^ 149" by (simp add: mag_val_def f32_mag_def f32_one_def)
  then show ?thesis by (simp add: thousandths_def)
qed

theorem score_text_nearest_witness:
  "score_text f32_one = ''1.000'' \<and> (\<exists>a b. score_text f32_one = a @ CHR ''.'' # b \<and> length b = 3)"
proof -
  have "dec_nat 1 = ''1''" "dec_nat 0 = ''0''" by code_simp+
  then have "score_text f32_one = ''1.000''"
    by (simp add: score_text_def Let_def thousandths_one f32_one_finite numeral_3_eq_3)
  then show ?thesis using score_text_nearest [OF f32_one_finite(1,2)] f32_one_finite(3) by auto
qed

end
