(* ===== verification/Chat.thy ===== *)
theory Chat
  imports Server Machine
begin

text \<open>
  The chatbot of the examples (\<open>examples/multi-ai-chatbot/main.go\<close>): the main loop that reads
  lines and publishes prompts, the goroutine that receives events from the bus, and the goroutine
  that shows answers. The three share the variables \<open>userID\<close> and \<open>pendingRequests\<close> without a lock;
  a step below is one access to them or one channel operation, so the model has every order of
  the accesses, but not the crash of the Go runtime when two accesses to the map collide.
  The variable \<open>data\<close> of \<open>shouldProcessResponse\<close> is never used, which the Go compiler rejects; the
  model reads it as \<open>_\<close>.
\<close>

section \<open>Reading a line\<close>

text \<open>The characters \<open>unicode.IsSpace\<close> accepts, in UTF-8.\<close>

definition spaces :: "string list" where
  "spaces = map (map (char_of :: nat \<Rightarrow> char))
     ([[9], [10], [11], [12], [13], [32], [0xC2, 0x85], [0xC2, 0xA0], [0xE1, 0x9A, 0x80]] @
      map (\<lambda>k. [0xE2, 0x80, k]) ([0x80..<0x8B] @ [0xA8, 0xA9, 0xAF]) @
      [[0xE2, 0x81, 0x9F], [0xE3, 0x80, 0x80]])"

fun trim_front :: "string list \<Rightarrow> string \<Rightarrow> string" where
  "trim_front ws [] = []"
| "trim_front ws (c # s) =
     (case find (\<lambda>w. prefix w (c # s)) ws of
        None \<Rightarrow> c # s
      | Some w \<Rightarrow> trim_front ws (drop (length w - 1) s))"

definition TrimSpace :: "string \<Rightarrow> string" where
  "TrimSpace s = rev (trim_front (map rev spaces) (rev (trim_front spaces s)))"

definition switch_word :: string where
  "switch_word = ''switch ''"

section \<open>State\<close>

text \<open>
  The main goroutine waits for a line or for \<open>Publish\<close> of the prompt with an id; the subscriber opens
  its stream, receives, or waits to put an event on the channel; the handler waits for an event
  or has taken a pending one.
\<close>

datatype chat_main = Reading | Publishing string | Ended
datatype chat_subscriber = Opening | Receiving | Holding event | Stopped
datatype chat_handler = Waiting | Answering event

record chat =
  userID :: string
  pendingRequests :: "bool gomap"
  responseChan :: "event list"
  responsesClosed :: bool
  chatMain :: chat_main
  chatSubscriber :: chat_subscriber
  chatHandler :: chat_handler
  chatUuids :: nat
  sentPrompts :: "event list"
  shownAnswers :: "(string \<times> string \<times> string) list"

text \<open>
  \<open>sentPrompts\<close> are the events given to \<open>Publish\<close> and \<open>shownAnswers\<close> the answers printed, with the name in
  front of the answer and the id it answers. The flag \<open>--user-id\<close> is required.
\<close>

definition start_chat :: "string \<Rightarrow> chat option" where
  "start_chat flag =
     (if flag = [] then None
      else Some \<lparr>userID = flag, pendingRequests = [], responseChan = [], responsesClosed = False,
        chatMain = Reading, chatSubscriber = Opening, chatHandler = Waiting, chatUuids = 1,
        sentPrompts = [], shownAnswers = []\<rparr>)"

text \<open>The client id of the session takes the first \<open>uuid\<close>.\<close>

definition chat_client :: "(nat \<Rightarrow> string) \<Rightarrow> string \<Rightarrow> string" where
  "chat_client uuid flag = ''chatbot-'' @ flag @ ''-'' @ take 8 (uuid 0)"

definition response_capacity :: nat where
  "response_capacity = 10"

section \<open>The main loop\<close>

definition prompt_event :: "pb \<Rightarrow> (nat \<Rightarrow> string) \<Rightarrow> (nat \<Rightarrow> int) \<Rightarrow> nat \<Rightarrow> string \<Rightarrow> string \<Rightarrow> event" where
  "prompt_event P uuid now n user input =
     empty_event\<lparr>evId := uuid n, evType := ''pcas.user.prompt.v1'', evSource := ''multi-ai-chatbot'',
       evSpecversion := ''1.0'', evTime := Some (TimestampOf (now n)), evTraceId := uuid (n + 1),
       evUserId := user, evSubject := input,
       evData := AnyOfValue P (GObj (gm_of [(''prompt'', GStr input)]))\<rparr>"

definition send_prompt :: "pb \<Rightarrow> (nat \<Rightarrow> string) \<Rightarrow> (nat \<Rightarrow> int) \<Rightarrow> string \<Rightarrow> chat \<Rightarrow> chat" where
  "send_prompt P uuid now input c =
     (let ev = prompt_event P uuid now (chatUuids c) (userID c) input
      in c\<lparr>chatUuids := chatUuids c + 2, pendingRequests := gm_put (evId ev) True (pendingRequests c),
           sentPrompts := sentPrompts c @ [ev], chatMain := Publishing (evId ev)\<rparr>)"

definition handle_line :: "pb \<Rightarrow> (nat \<Rightarrow> string) \<Rightarrow> (nat \<Rightarrow> int) \<Rightarrow> string \<Rightarrow> chat \<Rightarrow> chat" where
  "handle_line P uuid now line c =
     (let input = TrimSpace line
      in if input = [] then c
         else if input = ''exit'' then c\<lparr>chatMain := Ended\<rparr>
         else if prefix switch_word input \<and> drop (length switch_word) input \<noteq> []
         then c\<lparr>userID := drop (length switch_word) input\<rparr>
         else send_prompt P uuid now input c)"

text \<open>\<open>Publish\<close> returns; on an error the request is forgotten.\<close>

definition published :: "string \<Rightarrow> bool \<Rightarrow> chat \<Rightarrow> chat" where
  "published i failed c =
     c\<lparr>chatMain := Reading, pendingRequests := (if failed then gm_del i (pendingRequests c) else pendingRequests c)\<rparr>"

section \<open>The two goroutines\<close>

definition shouldProcessResponse :: "pb \<Rightarrow> event \<Rightarrow> string \<Rightarrow> bool" where
  "shouldProcessResponse P ev user \<longleftrightarrow> event_object P ev \<noteq> None"

text \<open>\<open>user\<close> is the user id the chatbot was started with.\<close>

definition take_event :: "pb \<Rightarrow> string \<Rightarrow> event \<Rightarrow> chat \<Rightarrow> chat" where
  "take_event P user ev c =
     (if evType ev = ''pcas.response.v1'' \<and> shouldProcessResponse P ev user
      then c\<lparr>chatSubscriber := Holding ev\<rparr> else c)"

definition take_response :: "event \<Rightarrow> event list \<Rightarrow> chat \<Rightarrow> chat" where
  "take_response ev evs c =
     (let c = c\<lparr>responseChan := evs\<rparr>
      in if evCorrelationId ev \<noteq> [] \<and> map_of (pendingRequests c) (evCorrelationId ev) \<noteq> None
         then c\<lparr>pendingRequests := gm_del (evCorrelationId ev) (pendingRequests c), chatHandler := Answering ev\<rparr>
         else c)"

definition response_text :: "pb \<Rightarrow> event \<Rightarrow> string option" where
  "response_text P ev =
     (case event_object P ev of None \<Rightarrow> None | Some data \<Rightarrow> as_string (map_of data ''response''))"

definition show_response :: "pb \<Rightarrow> event \<Rightarrow> chat \<Rightarrow> chat" where
  "show_response P ev c =
     (let c = c\<lparr>chatHandler := Waiting\<rparr>
      in case response_text P ev of
           None \<Rightarrow> c
         | Some response \<Rightarrow> c\<lparr>shownAnswers := shownAnswers c @ [(userID c, evCorrelationId ev, response)]\<rparr>)"

section \<open>The machine\<close>

datatype chat_action =
    Line string
  | InputEnds
  | Published bool
  | Opened bool
  | Receive event
  | StreamEnds
  | Queue
  | TakeResponse
  | ShowResponse

inductive chat_step ::
    "pb \<Rightarrow> (nat \<Rightarrow> string) \<Rightarrow> (nat \<Rightarrow> int) \<Rightarrow> string \<Rightarrow> chat \<Rightarrow> chat_action \<Rightarrow> chat \<Rightarrow> bool"
  for P uuid now user where
  line: "chatMain c = Reading \<Longrightarrow>
    chat_step P uuid now user c (Line s) (handle_line P uuid now s c)"
| input_ends: "chatMain c = Reading \<Longrightarrow>
    chat_step P uuid now user c InputEnds (c\<lparr>chatMain := Ended\<rparr>)"
| published: "chatMain c = Publishing i \<Longrightarrow>
    chat_step P uuid now user c (Published failed) (published i failed c)"
| opened: "chatSubscriber c = Opening \<Longrightarrow>
    chat_step P uuid now user c (Opened failed) (c\<lparr>chatSubscriber := (if failed then Stopped else Receiving)\<rparr>)"
| receive: "chatSubscriber c = Receiving \<Longrightarrow>
    chat_step P uuid now user c (Receive ev) (take_event P user ev c)"
| stream_ends: "chatSubscriber c = Receiving \<Longrightarrow>
    chat_step P uuid now user c StreamEnds (c\<lparr>chatSubscriber := Stopped, responsesClosed := True\<rparr>)"
| queue: "chatSubscriber c = Holding ev \<Longrightarrow> length (responseChan c) < response_capacity \<Longrightarrow>
    chat_step P uuid now user c Queue
      (c\<lparr>chatSubscriber := Receiving, responseChan := responseChan c @ [ev]\<rparr>)"
| take_response: "chatHandler c = Waiting \<Longrightarrow> responseChan c = ev # evs \<Longrightarrow>
    chat_step P uuid now user c TakeResponse (take_response ev evs c)"
| show_response: "chatHandler c = Answering ev \<Longrightarrow>
    chat_step P uuid now user c ShowResponse (show_response P ev c)"

inductive_cases chat_stepE: "chat_step P uuid now user c a d"

inductive_simps chat_step_simps:
  "chat_step P uuid now user c (Line s) d" "chat_step P uuid now user c (Published failed) d"
  "chat_step P uuid now user c (Receive ev) d" "chat_step P uuid now user c Queue d"
  "chat_step P uuid now user c TakeResponse d" "chat_step P uuid now user c ShowResponse d"
  "chat_step P uuid now user c (Opened failed) d"

end
