(* ===== verification/ChatProperties.thy ===== *)
theory ChatProperties
  imports Chat ServerProperties
begin

text \<open>
  What the chatbot shows: every answer once and to a prompt of the session, the name in front of
  it, and the way of a prompt through the server and back.
\<close>

section \<open>Lines without white space around\<close>

lemma trim_front_stop: "s \<noteq> [] \<Longrightarrow> \<forall>w \<in> set ws. w \<noteq> [] \<and> hd w \<noteq> hd s \<Longrightarrow> trim_front ws s = s"
proof -
  assume s: "s \<noteq> []" and ws: "\<forall>w \<in> set ws. w \<noteq> [] \<and> hd w \<noteq> hd s"
  have "find (\<lambda>w. prefix w s) ws = None"
    unfolding find_None_iff using s ws by (cases s) (auto simp: prefix_Cons)
  then show ?thesis using s by (cases s) simp_all
qed

definition graphic :: "char \<Rightarrow> bool" where
  "graphic c \<longleftrightarrow> 32 < (of_char c :: nat) \<and> (of_char c :: nat) < 127"

lemma spaces_not_graphic: "w \<in> set spaces \<Longrightarrow> w \<noteq> [] \<and> \<not> graphic (hd w) \<and> \<not> graphic (last w)"
  by (auto simp: spaces_def graphic_def)

lemma TrimSpace_graphic:
  assumes "s \<noteq> []" "graphic (hd s)" "graphic (last s)"
  shows "TrimSpace s = s"
proof -
  have "trim_front spaces s = s"
    by (rule trim_front_stop) (use assms spaces_not_graphic in metis)+
  moreover have "\<forall>w \<in> set spaces. w \<noteq> [] \<and> last w \<noteq> last s" using assms(3) spaces_not_graphic by metis
  then have "trim_front (map rev spaces) (rev s) = rev s"
    by (intro trim_front_stop) (simp_all add: assms(1) hd_rev)
  ultimately show ?thesis by (simp add: TrimSpace_def)
qed

section \<open>The invariant\<close>

definition shown_ids :: "chat \<Rightarrow> string list" where
  "shown_ids c = map (\<lambda>x. fst (snd x)) (shownAnswers c)"

definition answering :: "chat \<Rightarrow> event list" where
  "answering c = (case chatHandler c of Answering ev \<Rightarrow> [ev] | Waiting \<Rightarrow> [])"

definition answered_ids :: "chat \<Rightarrow> string list" where
  "answered_ids c = shown_ids c @ map evCorrelationId (answering c)"

text \<open>
  A prompt is pending or answered at most once. The ids are \<open>uuid\<close>s, so they do not repeat.
\<close>

definition chat_inv :: "(nat \<Rightarrow> string) \<Rightarrow> chat \<Rightarrow> bool" where
  "chat_inv uuid c \<longleftrightarrow>
     inj uuid \<and> (\<forall>p \<in> set (sentPrompts c). \<exists>k < chatUuids c. evId p = uuid k) \<and>
     distinct (answered_ids c) \<and> set (answered_ids c) \<subseteq> evId ` set (sentPrompts c) \<and>
     dom (map_of (pendingRequests c)) \<subseteq> evId ` set (sentPrompts c) - set (answered_ids c)"

lemmas chat_parts = answered_ids_def shown_ids_def answering_def

lemma chat_inv_start: "inj uuid \<Longrightarrow> start_chat flag = Some c \<Longrightarrow> chat_inv uuid c"
  by (auto simp: start_chat_def chat_inv_def chat_parts split: if_splits)

lemma send_prompt_inv:
  assumes "chat_inv uuid c"
  shows "chat_inv uuid (send_prompt P uuid now input c)"
proof -
  have old: "\<exists>k < chatUuids c. evId p = uuid k" if "p \<in> set (sentPrompts c)" for p
    using assms that by (simp add: chat_inv_def)
  have fresh: "uuid (chatUuids c) \<notin> evId ` set (sentPrompts c)"
  proof
    assume "uuid (chatUuids c) \<in> evId ` set (sentPrompts c)"
    then obtain k where "k < chatUuids c" "uuid (chatUuids c) = uuid k" using old by fastforce
    then show False using assms by (auto simp: chat_inv_def dest: injD)
  qed
  let ?d = "send_prompt P uuid now input c"
  have parts: "answered_ids ?d = answered_ids c" "chatUuids ?d = chatUuids c + 2"
    "evId ` set (sentPrompts ?d) = insert (uuid (chatUuids c)) (evId ` set (sentPrompts c))"
    "dom (map_of (pendingRequests ?d)) = insert (uuid (chatUuids c)) (dom (map_of (pendingRequests c)))"
    by (auto simp: send_prompt_def Let_def chat_parts prompt_event_def)
  have "\<exists>k < chatUuids ?d. evId p = uuid k" if "p \<in> set (sentPrompts ?d)" for p
  proof -
    from that have "p \<in> set (sentPrompts c) \<or> evId p = uuid (chatUuids c)"
      by (auto simp: send_prompt_def Let_def prompt_event_def)
    then show ?thesis
      unfolding parts
    proof
      assume "p \<in> set (sentPrompts c)"
      then obtain k where "k < chatUuids c" "evId p = uuid k" using old by blast
      then show "\<exists>k < chatUuids c + 2. evId p = uuid k" by (intro exI [of _ k]) simp
    qed (auto intro: exI [of _ "chatUuids c"])
  qed
  moreover have "inj uuid" "distinct (answered_ids c)" "set (answered_ids c) \<subseteq> evId ` set (sentPrompts c)"
    "dom (map_of (pendingRequests c)) \<subseteq> evId ` set (sentPrompts c) - set (answered_ids c)"
    using assms unfolding chat_inv_def by blast+
  ultimately show ?thesis
    using fresh unfolding chat_inv_def parts by (intro conjI ballI) blast+
qed

lemma handle_line_inv: "chat_inv uuid c \<Longrightarrow> chat_inv uuid (handle_line P uuid now s c)"
  using send_prompt_inv [of uuid c P now "TrimSpace s"]
  by (simp add: handle_line_def Let_def chat_inv_def chat_parts)

text \<open>The steps of the handler move ids from the pending to the answered ones.\<close>

lemma chat_inv_moved:
  assumes "chat_inv uuid c" "sentPrompts d = sentPrompts c" "chatUuids d = chatUuids c"
    and "distinct (answered_ids d)" "set (answered_ids d) \<inter> dom (map_of (pendingRequests d)) = {}"
    and "set (answered_ids d) \<union> dom (map_of (pendingRequests d)) \<subseteq>
      set (answered_ids c) \<union> dom (map_of (pendingRequests c))"
  shows "chat_inv uuid d"
  using assms unfolding chat_inv_def by (simp only:) blast

lemma take_response_inv:
  assumes "chat_inv uuid c" "chatHandler c = Waiting"
  shows "chat_inv uuid (take_response ev evs c)"
proof -
  let ?i = "evCorrelationId ev" and ?d = "take_response ev evs c"
  have parts: "distinct (answered_ids c)" "set (answered_ids c) \<inter> dom (map_of (pendingRequests c)) = {}"
    using assms(1) unfolding chat_inv_def by blast+
  show ?thesis
  proof (cases "?i \<noteq> [] \<and> map_of (pendingRequests c) ?i \<noteq> None")
    case True
    then have d: "answered_ids ?d = answered_ids c @ [?i]" "pendingRequests ?d = gm_del ?i (pendingRequests c)"
      using assms(2) by (auto simp: take_response_def Let_def chat_parts)
    have "?i \<in> dom (map_of (pendingRequests c))" using True by auto
    then show ?thesis
      using parts by (intro chat_inv_moved [OF assms(1)]) (auto simp: d, simp_all add: take_response_def Let_def)
  next
    case False
    then have "?d = c\<lparr>responseChan := evs\<rparr>" by (auto simp: take_response_def Let_def)
    then show ?thesis using assms(1) by (simp add: chat_inv_def chat_parts)
  qed
qed

lemma show_response_inv:
  assumes "chat_inv uuid c" "chatHandler c = Answering ev"
  shows "chat_inv uuid (show_response P ev c)"
proof -
  let ?d = "show_response P ev c"
  have "distinct (answered_ids c)" "set (answered_ids c) \<inter> dom (map_of (pendingRequests c)) = {}"
    using assms(1) unfolding chat_inv_def by blast+
  moreover have "answered_ids ?d = answered_ids c \<or> answered_ids ?d = shown_ids c"
    "answered_ids c = shown_ids c @ [evCorrelationId ev]"
    using assms(2) by (auto simp: show_response_def Let_def chat_parts split: option.split)
  then have "set (answered_ids ?d) \<subseteq> set (answered_ids c)" "distinct (answered_ids c) \<longrightarrow> distinct (answered_ids ?d)"
    by auto
  moreover have "pendingRequests ?d = pendingRequests c" "sentPrompts ?d = sentPrompts c" "chatUuids ?d = chatUuids c"
    by (simp_all add: show_response_def Let_def split: option.split)
  ultimately show ?thesis
    by (intro chat_inv_moved [OF assms(1)]) (simp_all only:, blast+)
qed

lemma published_inv: "chat_inv uuid c \<Longrightarrow> chat_inv uuid (published i failed c)"
proof -
  assume c: "chat_inv uuid c"
  then have "distinct (answered_ids c)" "set (answered_ids c) \<inter> dom (map_of (pendingRequests c)) = {}"
    unfolding chat_inv_def by blast+
  moreover have "answered_ids (published i failed c) = answered_ids c"
    by (simp add: published_def chat_parts)
  ultimately show "chat_inv uuid (published i failed c)"
    by (intro chat_inv_moved [OF c]) (auto simp: published_def)
qed

lemma chat_step_inv: "chat_inv uuid c \<Longrightarrow> chat_step P uuid now user c a d \<Longrightarrow> chat_inv uuid d"
  by (erule chat_stepE)
    (simp_all add: handle_line_inv published_inv take_response_inv show_response_inv,
     simp_all add: chat_inv_def chat_parts take_event_def)

interpretation chat_machine: machine "chat_step P uuid now user" "chat_inv uuid" for P uuid now user
  by unfold_locales (rule chat_step_inv)

section \<open>Where the answers come from\<close>

text \<open>The events between the stream and the screen.\<close>

definition in_flight :: "chat \<Rightarrow> event set" where
  "in_flight c =
     (case chatSubscriber c of Holding ev \<Rightarrow> {ev} | _ \<Rightarrow> {}) \<union> set (responseChan c) \<union> set (answering c)"

definition came_in :: "chat_action list \<Rightarrow> event \<Rightarrow> bool" where
  "came_in as ev \<longleftrightarrow> Receive ev \<in> set as \<and> evType ev = ''pcas.response.v1''"

definition sourced :: "pb \<Rightarrow> chat_action list \<Rightarrow> chat \<Rightarrow> bool" where
  "sourced P as c \<longleftrightarrow>
     (\<forall>ev \<in> in_flight c. came_in as ev) \<and>
     (\<forall>(user, i, response) \<in> set (shownAnswers c).
        \<exists>ev. came_in as ev \<and> evCorrelationId ev = i \<and> response_text P ev = Some response)"

lemma came_in_more: "came_in as ev \<Longrightarrow> came_in (as @ bs) ev"
  by (simp add: came_in_def)

lemma chat_step_flight:
  assumes "chat_step P uuid now user c a d"
  shows "in_flight d \<subseteq> in_flight c \<union> {ev. came_in [a] ev}"
    "shownAnswers d = shownAnswers c \<or>
     (\<exists>ev \<in> in_flight c. \<exists>response. response_text P ev = Some response \<and>
        shownAnswers d = shownAnswers c @ [(userID c, evCorrelationId ev, response)])"
  using assms
  by (cases; auto simp: in_flight_def answering_def handle_line_def send_prompt_def published_def take_event_def
      take_response_def show_response_def came_in_def Let_def split: if_splits option.splits)+

lemma sourced_run:
  assumes "runs (chat_step P uuid now user) c as d" "sourced P [] c"
  shows "sourced P as d"
  using assms
proof (induction rule: runs_rev_induct)
  case (snoc as c a d)
  have old: "came_in (as @ [a]) ev" if "ev \<in> in_flight c" for ev
    using snoc that by (auto simp: sourced_def came_in_more)
  have flight: "came_in (as @ [a]) ev" if "ev \<in> in_flight d" for ev
    using chat_step_flight(1) [OF snoc.hyps(2)] that old by (auto simp: came_in_def)
  define ok where "ok = (\<lambda>(user :: string, i, response).
    \<exists>ev. came_in (as @ [a]) ev \<and> evCorrelationId ev = i \<and> response_text P ev = Some response)"
  have "\<forall>x \<in> set (shownAnswers c). ok x"
    using snoc.prems came_in_more [of as _ "[a]"] snoc.IH by (fastforce simp: sourced_def ok_def)
  moreover have "ok (userID c, evCorrelationId ev, response)"
    if "ev \<in> in_flight c" "response_text P ev = Some response" for ev response
    using old [OF that(1)] that(2) by (auto simp: ok_def)
  ultimately have "\<forall>x \<in> set (shownAnswers d). ok x"
    using chat_step_flight(2) [OF snoc.hyps(2)] by auto
  then show ?case unfolding sourced_def ok_def using flight by blast
qed simp

section \<open>The way of an event\<close>

text \<open>An idle chatbot shows an answer to a pending prompt and drops an event that answers nothing pending.\<close>

definition idle :: "chat \<Rightarrow> bool" where
  "idle c \<longleftrightarrow> chatSubscriber c = Receiving \<and> chatHandler c = Waiting \<and> responseChan c = []"

lemma event_taken:
  assumes "idle c" "evType ev = ''pcas.response.v1''" "shouldProcessResponse P ev user"
  shows "runs (chat_step P uuid now user) c [Receive ev, Queue, TakeResponse]
    (take_response ev [] (c\<lparr>responseChan := [ev]\<rparr>))"
proof -
  let ?a = "c\<lparr>chatSubscriber := Holding ev\<rparr>" and ?b = "c\<lparr>responseChan := [ev]\<rparr>"
  have "chat_step P uuid now user c (Receive ev) ?a"
    using chat_step.receive [of c P uuid now user ev] assms by (simp add: take_event_def idle_def)
  moreover have "chat_step P uuid now user ?a Queue ?b"
    using chat_step.queue [of ?a ev P uuid now user] assms(1)
    by (cases c) (simp add: response_capacity_def idle_def)
  moreover have "chat_step P uuid now user ?b TakeResponse (take_response ev [] ?b)"
    using assms(1) by (intro chat_step.take_response) (simp_all add: idle_def)
  ultimately show ?thesis by (meson runs.intros)
qed

lemma answer_is_shown:
  assumes "idle c" "evType ev = ''pcas.response.v1''" "shouldProcessResponse P ev user"
    and "response_text P ev = Some response"
    and "evCorrelationId ev \<noteq> []" "map_of (pendingRequests c) (evCorrelationId ev) \<noteq> None"
  shows "\<exists>d. runs (chat_step P uuid now user) c [Receive ev, Queue, TakeResponse, ShowResponse] d \<and>
    shownAnswers d = shownAnswers c @ [(userID c, evCorrelationId ev, response)] \<and> idle d \<and>
    chatMain d = chatMain c \<and> pendingRequests d = gm_del (evCorrelationId ev) (pendingRequests c)"
proof -
  let ?c = "take_response ev [] (c\<lparr>responseChan := [ev]\<rparr>)"
  have c: "?c = c\<lparr>pendingRequests := gm_del (evCorrelationId ev) (pendingRequests c), chatHandler := Answering ev\<rparr>"
    using assms(1,5,6) by (cases c) (auto simp: take_response_def Let_def idle_def)
  then have "chat_step P uuid now user ?c ShowResponse (show_response P ev ?c)"
    by (intro chat_step.show_response) simp
  with event_taken [OF assms(1-3)] have "runs (chat_step P uuid now user) c
      ([Receive ev, Queue, TakeResponse] @ [ShowResponse]) (show_response P ev ?c)" by (rule runs_snoc)
  then show ?thesis
    using assms(1,4) by (intro exI [of _ "show_response P ev ?c"]) (simp add: c show_response_def Let_def idle_def)
qed

lemma event_is_dropped:
  assumes "idle c" "evType ev = ''pcas.response.v1''" "shouldProcessResponse P ev user"
    and "map_of (pendingRequests c) (evCorrelationId ev) = None"
  shows "runs (chat_step P uuid now user) c [Receive ev, Queue, TakeResponse] c"
  using event_taken [OF assms(1-3)] assms(1,4) by (cases c) (simp add: take_response_def Let_def idle_def)

section \<open>Properties\<close>

text \<open>
  C25: whatever arrives on the stream, in whatever order the goroutines run, the chatbot shows at
  most one answer to a prompt, and each answer it shows is the text of a response event it
  received whose correlation id is the id of a prompt sent in this session.
\<close>

theorem answers_shown_once:
  assumes "inj uuid" "start_chat flag = Some c" "runs (chat_step P uuid now flag) c as d"
  shows "distinct (map (\<lambda>x. fst (snd x)) (shownAnswers d)) \<and>
    (\<forall>(user, i, response) \<in> set (shownAnswers d).
      (\<exists>p \<in> set (sentPrompts d). evId p = i) \<and>
      (\<exists>ev. Receive ev \<in> set as \<and> evType ev = ''pcas.response.v1'' \<and> evCorrelationId ev = i \<and>
         response_text P ev = Some response))"
proof -
  have "chat_inv uuid d" by (rule chat_machine.run_inv [OF assms(3) chat_inv_start [OF assms(1,2)]])
  moreover have "sourced P as d"
    using assms(2) by (intro sourced_run [OF assms(3)])
      (auto simp: start_chat_def sourced_def in_flight_def answering_def split: if_splits)
  ultimately show ?thesis
    by (fastforce simp: chat_inv_def chat_parts sourced_def came_in_def)
qed

definition sample_answer :: event where
  "sample_answer = empty_event\<lparr>evType := ''pcas.response.v1'', evCorrelationId := ''u'',
     evData := AnyOfValue text_pb (GObj [(''response'', GStr ''hi'')])\<rparr>"

lemma sample_answer_text:
  "response_text text_pb sample_answer = Some ''hi''" "shouldProcessResponse text_pb sample_answer user"
proof -
  let ?v = "GObj [(''response'', GStr ''hi'')]"
  have "json_ok ?v" by code_simp
  then obtain a where a: "AnyOfValue text_pb ?v = Some a" by (simp add: text_pb_def)
  have "pb_ok text_pb" using text_pb_ok by (simp add: pb_json_ok_def)
  from pb_okD [OF this _ _ a] have "event_object text_pb sample_answer = Some [(''response'', GStr ''hi'')]"
    by (simp add: event_object_def event_value_def sample_answer_def a gm_wf_def)
  then show "response_text text_pb sample_answer = Some ''hi''" "shouldProcessResponse text_pb sample_answer user"
    by (simp_all add: response_text_def shouldProcessResponse_def)
qed

definition sample_uuid :: "nat \<Rightarrow> string" where
  "sample_uuid n = replicate n (CHR ''u'')"

lemma sample_uuid_inj: "inj sample_uuid"
  by (rule inj_onI) (metis length_replicate sample_uuid_def)

lemma sample_line: "TrimSpace ''hello'' = ''hello''"
  by (rule TrimSpace_graphic) (simp_all add: graphic_def)

text \<open>Two copies of an answer arrive; the second is dropped.\<close>

definition sample_chat :: chat where
  "sample_chat = \<lparr>userID = ''alice'', pendingRequests = [], responseChan = [], responsesClosed = False,
     chatMain = Reading, chatSubscriber = Opening, chatHandler = Waiting, chatUuids = 1,
     sentPrompts = [], shownAnswers = []\<rparr>"

lemma sample_chat_start: "start_chat ''alice'' = Some sample_chat"
  by (simp add: start_chat_def sample_chat_def)

definition sample_actions :: "chat_action list" where
  "sample_actions = [Opened False, Line ''hello'', Receive sample_answer, Queue, TakeResponse, ShowResponse,
     Receive sample_answer, Queue, TakeResponse]"

lemma sample_chat_run:
  "\<exists>d. runs (chat_step text_pb sample_uuid int ''alice'') sample_chat sample_actions d \<and>
     shownAnswers d = [(''alice'', ''u'', ''hi'')]"
proof -
  let ?step = "chat_step text_pb sample_uuid int ''alice''"
  let ?b = "sample_chat\<lparr>chatSubscriber := Receiving\<rparr>"
  let ?c = "handle_line text_pb sample_uuid int ''hello'' ?b"
  have fields: "evType sample_answer = ''pcas.response.v1''" "evCorrelationId sample_answer = ''u''"
    by (simp_all add: sample_answer_def)
  have c: "?c = send_prompt text_pb sample_uuid int ''hello'' ?b"
    by (simp add: handle_line_def sample_line switch_word_def)
  then have parts: "idle ?c" "map_of (pendingRequests ?c) ''u'' \<noteq> None" "shownAnswers ?c = []" "userID ?c = ''alice''"
    "pendingRequests ?c = [(''u'', True)]"
    by (simp_all add: idle_def send_prompt_def sample_chat_def prompt_event_def Let_def sample_uuid_def)
  from answer_is_shown [OF parts(1) fields(1) sample_answer_text(2,1), of sample_uuid int] obtain d
    where d: "runs ?step ?c [Receive sample_answer, Queue, TakeResponse, ShowResponse] d"
      "shownAnswers d = [(''alice'', ''u'', ''hi'')]" "idle d" "pendingRequests d = []"
    using parts fields by (auto simp: gm_del_def)
  have start: "runs ?step sample_chat [Opened False, Line ''hello''] ?c"
    using chat_step.opened [of sample_chat text_pb sample_uuid int "''alice''" False]
      chat_step.line [of ?b text_pb sample_uuid int "''alice''" "''hello''"]
    by (intro runs.go [OF _ runs_one]) (simp_all add: sample_chat_def)
  have "runs ?step d [Receive sample_answer, Queue, TakeResponse] d"
    by (rule event_is_dropped [OF d(3) fields(1) sample_answer_text(2)]) (simp add: d(4))
  from runs_append [OF runs_append [OF start d(1)] this] show ?thesis
    using d(2) by (auto simp: sample_actions_def)
qed

theorem answers_shown_once_witness:
  "\<exists>d. runs (chat_step text_pb sample_uuid int ''alice'') sample_chat sample_actions d \<and>
     shownAnswers d = [(''alice'', ''u'', ''hi'')] \<and> distinct (map (\<lambda>x. fst (snd x)) (shownAnswers d)) \<and>
     (\<exists>p \<in> set (sentPrompts d). evId p = ''u'')"
proof -
  obtain d where d: "runs (chat_step text_pb sample_uuid int ''alice'') sample_chat sample_actions d"
    "shownAnswers d = [(''alice'', ''u'', ''hi'')]" using sample_chat_run by blast
  from answers_shown_once [OF sample_uuid_inj sample_chat_start d(1)] show ?thesis using d by auto
qed

text \<open>
  The name in front of an answer is the one the user talks to when the answer is shown, not the
  one the prompt was for: with an answer to a pending prompt on the channel, a line \<open>switch n\<close>
  first and the handler next show the answer as the words of \<open>n\<close>.
\<close>

theorem switch_renames_answer:
  assumes "chatMain c = Reading" "chatHandler c = Waiting" "responseChan c = ev # evs"
    and "evCorrelationId ev \<noteq> []" "map_of (pendingRequests c) (evCorrelationId ev) \<noteq> None"
    and "response_text P ev = Some response" "TrimSpace (''switch '' @ n) = ''switch '' @ n" "n \<noteq> []"
  shows "\<exists>d. runs (chat_step P uuid now user) c [Line (''switch '' @ n), TakeResponse, ShowResponse] d \<and>
    shownAnswers d = shownAnswers c @ [(n, evCorrelationId ev, response)]"
proof -
  let ?a = "handle_line P uuid now (''switch '' @ n) c"
  let ?b = "take_response ev evs ?a"
  have a: "?a = c\<lparr>userID := n\<rparr>" using assms(7,8) by (simp add: handle_line_def switch_word_def)
  then have b: "chatHandler ?b = Answering ev" "shownAnswers ?b = shownAnswers c" "userID ?b = n"
    using assms(4,5) by (simp_all add: take_response_def Let_def)
  have "chat_step P uuid now user c (Line (''switch '' @ n)) ?a" by (rule chat_step.line) (rule assms(1))
  moreover have "chat_step P uuid now user ?a TakeResponse ?b"
    by (rule chat_step.take_response) (simp_all only: a, simp_all add: assms(2,3))
  moreover have "chat_step P uuid now user ?b ShowResponse (show_response P ev ?b)"
    by (rule chat_step.show_response) (rule b(1))
  ultimately have "runs (chat_step P uuid now user) c [Line (''switch '' @ n), TakeResponse, ShowResponse]
      (show_response P ev ?b)" by (meson runs.intros)
  moreover have "shownAnswers (show_response P ev ?b) = shownAnswers c @ [(n, evCorrelationId ev, response)]"
    using b assms(6) by (simp add: show_response_def Let_def)
  ultimately show ?thesis by blast
qed

theorem switch_renames_answer_example:
  "\<exists>c d. userID c = ''alice'' \<and>
     runs (chat_step text_pb sample_uuid int ''alice'') c [Line ''switch bob'', TakeResponse, ShowResponse] d \<and>
     shownAnswers d = [(''bob'', ''u'', ''hi'')]"
proof -
  let ?c = "sample_chat\<lparr>pendingRequests := [(''u'', True)], responseChan := [sample_answer]\<rparr>"
  have "TrimSpace (''switch '' @ ''bob'') = ''switch '' @ ''bob''"
    by (rule TrimSpace_graphic) (simp_all add: graphic_def)
  with switch_renames_answer [of ?c sample_answer "[]" text_pb "''hi''" "''bob''" sample_uuid int "''alice''"]
    sample_answer_text
  have "\<exists>d. runs (chat_step text_pb sample_uuid int ''alice'') ?c [Line ''switch bob'', TakeResponse, ShowResponse] d \<and>
     shownAnswers d = [(''bob'', ''u'', ''hi'')]"
    by (simp add: sample_chat_def sample_answer_def)
  moreover have "userID ?c = ''alice''" by (simp add: sample_chat_def)
  ultimately show ?thesis by blast
qed

section \<open>A prompt and its answer\<close>

lemma response_text_of:
  assumes "pb_ok P" "AnyOfValue P (GObj (response_data eid name result)) = Some a" "evData ev = Some a"
  shows "shouldProcessResponse P ev user" "response_text P ev = Some result"
proof -
  have "json_shape (GObj (response_data eid name result))" "nums_finite (GObj (response_data eid name result))"
    by (simp_all add: response_data_def, simp_all add: gm_of_def gm_wf_def)
  from pb_okD [OF assms(1) this assms(2)]
  have "event_object P ev = Some (response_data eid name result)"
    using assms(3) by (simp add: event_object_def event_value_def)
  then show "shouldProcessResponse P ev user" "response_text P ev = Some result"
    by (simp_all add: shouldProcessResponse_def response_text_def response_data_def gm_of_def)
qed

text \<open>The side of the server: an event whose provider answers puts the answer into every channel with room.\<close>

lemma publish_answers:
  assumes "registry_inv (serverStreams s)" "fst (SelectProvider (policyEngine s) ev) = name" "name \<noteq> []"
    and "map_of (serverProviders s) name = Some execute" "\<And>k m. \<exists>r. execute k m = Inr r"
    and "length (chanBuf (serverStreams s) n) < chan_capacity" "map_of (subscribers (serverStreams s)) c = Some n"
  obtains t i k m result where "Publish W ev s = (Ok (), t)" "execute k m = Inr result"
    "chanBuf (serverStreams t) n = chanBuf (serverStreams s) n @ [response_event W i ev name result]"
proof -
  obtain x t where run: "answer_event W ev (accept_event W ev s) = (x, t)" by fastforce
  have n: "n \<in> registered (serverStreams s)" using map_of_SomeD [OF assms(7)] by (force simp: registered_def)
  have reg: "registry_inv (serverStreams (accept_event W ev s))" using assms(1) by (simp add: accept_event_parts)
  from reg run show ?thesis
  proof (cases rule: answer_event_cases)
    case (failed name' execute' m s1 e)
    then have "execute' = execute" using assms by (simp add: accept_event_parts)
    then show ?thesis using failed(5) assms(5) by (metis Inl_Inr_False)
  next
    case (answered name' execute' m s1 result resp)
    then show ?thesis
      using assms n run
      by (intro that [of t "serverCalls s1" m result "serverCalls s1"])
        (simp_all add: accept_event_parts Publish_def after_broadcast_def)
  qed (use assms in \<open>simp_all add: accept_event_parts\<close>)
qed

text \<open>
  C14: a prompt typed into an idle chatbot whose stream the server knows, with room in its channel, is
  answered: \<open>Publish\<close> succeeds, the answer is put into the channel of the chatbot before it
  returns, and the chatbot that receives it shows the text the provider returned under the name
  the user talks to.
\<close>

theorem prompt_is_answered:
  assumes chat: "chatMain c = Reading" "idle c"
    and typed: "input = TrimSpace line" "input \<noteq> []" "input \<noteq> ''exit''" "\<not> prefix ''switch '' input"
    and prompt: "p = prompt_event (wPb W) uuid now (chatUuids c) (userID c) input" "evId p \<noteq> []"
    and server: "registry_inv (serverStreams s)" "length (chanBuf (serverStreams s) n) < chan_capacity"
      "map_of (subscribers (serverStreams s)) (chat_client uuid user) = Some n"
    and provider: "fst (SelectProvider (policyEngine s) p) = name" "name \<noteq> []"
      "map_of (serverProviders s) name = Some execute"
      "\<forall>k m. \<exists>r. execute k m = Inr r \<and> AnyOfValue (wPb W) (GObj (response_data (evId p) name r)) \<noteq> None"
    and "pb_ok (wPb W)"
  shows "\<exists>t answer d result k m. Publish W p s = (Ok (), t) \<and>
    chanBuf (serverStreams t) n = chanBuf (serverStreams s) n @ [answer] \<and>
    runs (chat_step (wPb W) uuid now user) c
      [Line line, Receive answer, Queue, TakeResponse, ShowResponse, Published False] d \<and>
    chatMain d = Reading \<and> shownAnswers d = shownAnswers c @ [(userID c, evId p, result)] \<and>
    execute k m = Inr result"
proof -
  from publish_answers [OF server(1) provider(1-3) _ server(2,3)] provider(4) obtain t i k m result
    where run: "Publish W p s = (Ok (), t)" "execute k m = Inr result"
      "chanBuf (serverStreams t) n = chanBuf (serverStreams s) n @ [response_event W i p name result]"
    by metis
  define answer where "answer = response_event W i p name result"
  obtain a where a: "AnyOfValue (wPb W) (GObj (response_data (evId p) name result)) = Some a"
    using provider(4) run(2) by (metis not_None_eq sum.inject(2))
  have ev: "evType answer = ''pcas.response.v1''" "evCorrelationId answer = evId p" "evData answer = Some a"
    by (simp_all add: answer_def response_event_def a)
  let ?c = "handle_line (wPb W) uuid now line c"
  have c: "?c = send_prompt (wPb W) uuid now input c" using typed by (simp add: handle_line_def switch_word_def)
  have "\<exists>d. runs (chat_step (wPb W) uuid now user) ?c [Receive answer, Queue, TakeResponse, ShowResponse] d \<and>
    shownAnswers d = shownAnswers ?c @ [(userID ?c, evCorrelationId answer, result)] \<and> chatMain d = chatMain ?c"
    using chat prompt response_text_of [OF assms(16) a ev(3)]
      answer_is_shown [of ?c answer "wPb W" user result uuid now]
    by (auto simp: c ev send_prompt_def Let_def idle_def)
  then obtain d where d: "runs (chat_step (wPb W) uuid now user) ?c [Receive answer, Queue, TakeResponse, ShowResponse] d"
    "shownAnswers d = shownAnswers c @ [(userID c, evId p, result)]" "chatMain d = Publishing (evId p)"
    using prompt by (auto simp: c ev send_prompt_def Let_def)
  have "runs (chat_step (wPb W) uuid now user) c
      ((Line line # [Receive answer, Queue, TakeResponse, ShowResponse]) @ [Published False]) (published (evId p) False d)"
    using runs.go [OF chat_step.line [OF chat(1)] d(1)] chat_step.published [OF d(3)] by (rule runs_snoc)
  then show ?thesis
    using run [folded answer_def] d(2) by (intro exI conjI) (assumption | simp add: published_def)+
qed

text \<open>A server that routes prompts to the mock provider, with the chatbot subscribed.\<close>

definition chat_engine :: engine where
  "chat_engine = NewEngine
     \<lparr>polVersion = ''v1'', polProviders = [],
      polRules = [\<lparr>ruleName = ''chat'', ruleIf = Condition ''pcas.user.prompt.v1'' [],
        ruleThen = \<lparr>actProvider = ''mock'', actPromptTemplate = []\<rparr>\<rparr>]\<rparr>"

definition chat_server :: "graph server" where
  "chat_server = (NewServer chat_engine [(''mock'', \<lambda>n m. Inr ''hi'')] sample_stored)
     \<lparr>serverStreams := open_stream (chat_client sample_uuid ''alice'') new_registry\<rparr>"

theorem prompt_is_answered_witness:
  "\<exists>t :: graph server. \<exists>answer d.
     Publish sample_world (prompt_event text_pb sample_uuid int 1 ''alice'' ''hello'') chat_server = (Ok (), t) \<and>
     chanBuf (serverStreams t) 0 = [answer] \<and>
     runs (chat_step text_pb sample_uuid int ''alice'') (sample_chat\<lparr>chatSubscriber := Receiving\<rparr>)
       [Line ''hello'', Receive answer, Queue, TakeResponse, ShowResponse, Published False] d \<and>
     shownAnswers d = [(''alice'', ''u'', ''hi'')]"
proof -
  let ?p = "prompt_event text_pb sample_uuid int 1 ''alice'' ''hello''"
  have provider: "fst (SelectProvider (policyEngine chat_server) ?p) = ''mock''"
    by (simp add: chat_server_def NewServer_def chat_engine_def NewEngine_def SelectProvider_def prompt_event_def)
  have server: "registry_inv (serverStreams chat_server)" "chanBuf (serverStreams chat_server) 0 = []"
    "map_of (subscribers (serverStreams chat_server)) (chat_client sample_uuid ''alice'') = Some 0"
    "map_of (serverProviders chat_server) ''mock'' = Some (\<lambda>n m. Inr ''hi'')"
    using registry_inv_open [OF registry_inv_new, of "chat_client sample_uuid ''alice''"]
    by (simp_all add: chat_server_def open_stream_def new_registry_def NewServer_def)
  have id: "evId ?p = ''u''" by (simp add: prompt_event_def sample_uuid_def)
  have any: "AnyOfValue text_pb (GObj (response_data ''u'' ''mock'' ''hi'')) \<noteq> None" by code_simp
  have pb: "pb_ok text_pb" using text_pb_ok by (simp add: pb_json_ok_def)
  from prompt_is_answered [of "sample_chat\<lparr>chatSubscriber := Receiving\<rparr>" "''hello''" "''hello''" ?p sample_world
      sample_uuid int chat_server 0 "''alice''" "''mock''" "\<lambda>n m. Inr ''hi''"]
  show ?thesis
    using provider server id any pb sample_line by (auto simp: sample_chat_def chan_capacity_def idle_def)
qed

end
