(* ===== verification/BruteForce.thy ===== *)
theory BruteForce
  imports VectorCodec "HOL-Library.Multiset"
begin

text \<open>
  The brute-force search of the vector search prototype (\<open>poc/vector_search/main.go\<close>): the
  encoding of its vectors and the loop that keeps the best five of all scored rows. The
  similarity of a row is given here; \<open>Benchmark\<close> has the program around the loop.
\<close>

section \<open>The codec of the prototype\<close>

text \<open>The buffer grows word by word; a trailing part of a word is dropped when reading.\<close>

definition pocSerialize :: "f32 list \<Rightarrow> byte list" where
  "pocSerialize vec = foldl (\<lambda>buf v. buf @ PutUint32 v) [] vec"

definition pocDeserialize :: "byte list \<Rightarrow> f32 list" where
  "pocDeserialize bs = map (\<lambda>i. Uint32 (drop (i * 4) bs)) [0..<length bs div 4]"

lemma pocSerialize_concat: "pocSerialize vec = concat (map PutUint32 vec)"
proof -
  have "foldl (\<lambda>buf v. buf @ PutUint32 v) pre vec = pre @ concat (map PutUint32 vec)" for pre
    by (induction vec arbitrary: pre) simp_all
  then show ?thesis by (simp add: pocSerialize_def)
qed

text \<open>On vectors the prototype writes the bytes the storage provider writes, and reads them back.\<close>

lemma poc_codec_agrees:
  "vec \<noteq> [] \<Longrightarrow> serializeVector (Some vec) = Some (pocSerialize vec)"
  "pocDeserialize (pocSerialize vec) = vec"
proof -
  show eq: "serializeVector (Some vec) = Some (pocSerialize vec)" if "vec \<noteq> []" for vec
    using that by (simp add: serializeVector_eq pocSerialize_concat)
  show "pocDeserialize (pocSerialize vec) = vec"
    using vector_roundtrip [of vec] eq [of vec]
    by (cases "vec = []") (auto simp: deserializeVector_def pocDeserialize_def pocSerialize_def split: if_splits)
qed

section \<open>The loop\<close>

type_synonym scored = "int \<times> f32"

text \<open>The index of the least score; of equal ones the first.\<close>

definition min_index :: "scored list \<Rightarrow> nat" where
  "min_index results =
     fold (\<lambda>i m. if f32_gt (snd (results ! m)) (snd (results ! i)) then i else m) [1..<length results] 0"

definition keep_best :: "nat \<Rightarrow> scored list \<Rightarrow> scored \<Rightarrow> scored list" where
  "keep_best topK results x =
     (if length results < topK then results @ [x]
      else let m = min_index results
           in if f32_gt (snd x) (snd (results ! m)) then results[m := x] else results)"

definition brute_force :: "nat \<Rightarrow> scored list \<Rightarrow> scored list" where
  "brute_force topK rows = foldl (keep_best topK) [] rows"

section \<open>It keeps the best\<close>

abbreviation skey :: "scored \<Rightarrow> int" where
  "skey x \<equiv> f32_key (snd x)"

definition no_nan :: "scored list \<Rightarrow> bool" where
  "no_nan xs \<longleftrightarrow> (\<forall>x \<in> set xs. \<not> f32_nan (snd x))"

lemma gt_key: "no_nan xs \<Longrightarrow> a \<in> set xs \<Longrightarrow> b \<in> set xs \<Longrightarrow> f32_gt (snd a) (snd b) \<longleftrightarrow> skey b < skey a"
  by (simp add: f32_gt_def no_nan_def)

lemma min_index_least:
  assumes "no_nan results" "results \<noteq> []"
  shows "min_index results < length results \<and>
    (\<forall>i < length results. skey (results ! min_index results) \<le> skey (results ! i))"
proof -
  let ?f = "\<lambda>i m. if f32_gt (snd (results ! m)) (snd (results ! i)) then i else m"
  have "fold ?f [1..<n] 0 < n \<and> (\<forall>i < n. skey (results ! fold ?f [1..<n] 0) \<le> skey (results ! i))"
    if "1 \<le> n" "n \<le> length results" for n
    using that
  proof (induction n rule: nat_induct_at_least)
    case (Suc n)
    let ?m = "fold ?f [1..<n] 0"
    have m: "?m < n" "\<forall>i < n. skey (results ! ?m) \<le> skey (results ! i)" using Suc by auto
    have gt: "f32_gt (snd (results ! ?m)) (snd (results ! n)) \<longleftrightarrow> skey (results ! n) < skey (results ! ?m)"
      using gt_key [OF assms(1)] m(1) Suc.prems by simp
    have fold: "fold ?f [1..<Suc n] 0 = (if skey (results ! n) < skey (results ! ?m) then n else ?m)"
      using Suc.hyps gt by simp
    show ?case unfolding fold using m by (auto simp: less_Suc_eq intro: order_trans less_imp_le)
  qed simp
  from this [of "length results"] assms(2) show ?thesis by (simp add: min_index_def Suc_le_eq)
qed

text \<open>
  After a number of rows: the results are some of the rows, as many as there is room for, and
  no other row scores higher than any of them.
\<close>

definition best_of :: "nat \<Rightarrow> scored list \<Rightarrow> scored list \<Rightarrow> bool" where
  "best_of topK seen res \<longleftrightarrow>
     (\<exists>rest. mset seen = mset res + rest \<and> length res = min topK (length seen) \<and>
        (\<forall>y \<in># rest. \<forall>r \<in> set res. skey y \<le> skey r))"

text \<open>A full list: its least element gives way to a greater one.\<close>

lemma replace_least:
  assumes m: "i < length res" and least: "\<And>r. r \<in> set res \<Longrightarrow> skey (res ! i) \<le> skey r"
    and less: "skey (res ! i) < skey x" and rest: "\<forall>y \<in># rest. \<forall>r \<in> set res. skey y \<le> skey r"
  shows "mset res + rest + {#x#} = mset (res[i := x]) + add_mset (res ! i) rest \<and>
    (\<forall>y \<in># add_mset (res ! i) rest. \<forall>r \<in> set (res[i := x]). skey y \<le> skey r)"
proof
  have "mset (res[i := x]) = add_mset x (mset res - {#res ! i#})" by (rule mset_update [OF m])
  then show "mset res + rest + {#x#} = mset (res[i := x]) + add_mset (res ! i) rest"
    using nth_mem [OF m] by simp
  show "\<forall>y \<in># add_mset (res ! i) rest. \<forall>r \<in> set (res[i := x]). skey y \<le> skey r"
  proof (intro ballI)
    fix y r' assume y: "y \<in># add_mset (res ! i) rest" and "r' \<in> set (res[i := x])"
    then have r': "r' = x \<or> r' \<in> set res" using set_update_subset_insert [of res i x] by auto
    have "skey y \<le> skey (res ! i)" using y rest nth_mem [OF m] by auto
    then show "skey y \<le> skey r'"
      using r' less least [of r'] order_trans [of "skey y" "skey (res ! i)" "skey r'"] by auto
  qed
qed

lemma best_of_step:
  assumes "best_of topK seen res" "no_nan (seen @ [x])" "0 < topK"
  shows "best_of topK (seen @ [x]) (keep_best topK res x)"
proof -
  from assms(1) obtain rest where r: "mset seen = mset res + rest" "length res = min topK (length seen)"
    "\<forall>y \<in># rest. \<forall>r \<in> set res. skey y \<le> skey r" by (auto simp: best_of_def)
  have size: "length seen = length res + size rest" using arg_cong [OF r(1), of size] by simp
  show ?thesis
  proof (cases "length res < topK")
    case True
    then have "length res = length seen" using r(2) by linarith
    then have "rest = {#}" using size by simp
    have keep: "keep_best topK res x = res @ [x]" using True by (simp add: keep_best_def)
    have "mset (seen @ [x]) = mset (res @ [x]) + {#}" using r(1) \<open>rest = {#}\<close> by simp
    moreover have "length (res @ [x]) = min topK (length (seen @ [x]))"
      unfolding length_append \<open>length res = length seen\<close> [symmetric] using True by (simp add: min_absorb2)
    ultimately show ?thesis unfolding best_of_def keep by fastforce
  next
    case False
    let ?m = "min_index res"
    have sub: "set res \<subseteq> set seen" using arg_cong [OF r(1), of set_mset] by auto
    then have nan: "no_nan res" using assms(2) by (auto simp: no_nan_def)
    have ne: "res \<noteq> []" using False assms(3) by auto
    have m: "?m < length res" and least: "\<And>r. r \<in> set res \<Longrightarrow> skey (res ! ?m) \<le> skey r"
      using min_index_least [OF nan ne] by (auto simp: in_set_conv_nth)
    have gt: "f32_gt (snd x) (snd (res ! ?m)) \<longleftrightarrow> skey (res ! ?m) < skey x"
      using gt_key [OF assms(2), of x "res ! ?m"] sub nth_mem [OF m] by auto
    show ?thesis
    proof (cases "skey (res ! ?m) < skey x")
      case True
      then show ?thesis
        using replace_least [OF m least True r(3)] r(1,2) False gt unfolding best_of_def
        by (intro exI [of _ "add_mset (res ! ?m) rest"]) (simp add: keep_best_def Let_def)
    next
      case low: False
      have "\<forall>y \<in># add_mset x rest. \<forall>r \<in> set res. skey y \<le> skey r"
        using r(3) least low by fastforce
      then show ?thesis
        using r(1,2) False low gt unfolding best_of_def
        by (intro exI [of _ "add_mset x rest"]) (simp add: keep_best_def Let_def)
    qed
  qed
qed

lemma brute_force_best:
  "no_nan rows \<Longrightarrow> 0 < topK \<Longrightarrow> best_of topK rows (brute_force topK rows)"
proof (induction rows rule: rev_induct)
  case (snoc x rows)
  then show ?case
    using best_of_step [of topK rows "brute_force topK rows" x] by (simp add: brute_force_def no_nan_def)
qed (simp add: best_of_def brute_force_def)

text \<open>
  The loop of the prototype that replaces the least of the kept results finds what sorting
  would find: when no score is a NaN, the scores it keeps are the \<open>topK\<close> highest of all rows,
  counted with repetition, and what it keeps are rows.
\<close>

theorem brute_force_is_top_k:
  assumes "no_nan rows" "0 < topK"
  shows "mset (map skey (brute_force topK rows)) = mset (take topK (rev (sort (map skey rows)))) \<and>
    mset (brute_force topK rows) \<subseteq># mset rows"
proof -
  let ?res = "brute_force topK rows"
  obtain rest where r: "mset rows = mset ?res + rest" "length ?res = min topK (length rows)"
    "\<forall>y \<in># rest. \<forall>r \<in> set ?res. skey y \<le> skey r"
    using brute_force_best [OF assms] by (auto simp: best_of_def)
  obtain bs where bs: "mset bs = rest" using ex_mset by blast
  have "sort (map skey rows) = sort (map skey bs) @ sort (map skey ?res)"
    using r(1,3) bs by (intro properties_for_sort) (auto simp: sorted_append)
  then have rev: "rev (sort (map skey rows)) = rev (sort (map skey ?res)) @ rev (sort (map skey bs))" by simp
  have size: "length rows = length ?res + length bs" using r(1) bs by (metis size_mset size_union)
  then have "take topK (rev (sort (map skey rows))) = rev (sort (map skey ?res))"
    unfolding rev using r(2) by (cases "bs = []") (auto simp: min_def split: if_splits)
  then show ?thesis using r(1) by simp
qed

theorem brute_force_is_top_k_example:
  "mset (map skey (brute_force 2 [(0, 0x3F000000), (1, 0x3F800000), (2, 0xBF800000), (3, 0x3F400000)])) =
   {#0x3F800000, 0x3F400000#}"
proof -
  let ?rows = "[(0, 0x3F000000), (1, 0x3F800000), (2, 0xBF800000), (3, 0x3F400000)] :: scored list"
  have "no_nan ?rows" "take 2 (rev (sort (map skey ?rows))) = [0x3F800000, 0x3F400000]"
    by (simp_all add: no_nan_def f32_nan_def f32_mag_def f32_key_def f32_neg_def)
  then show ?thesis using brute_force_is_top_k [of ?rows 2] by simp
qed

end
