(* ===== verification/Similarity.thy ===== *)
theory Similarity
  imports GoFloat
begin

text \<open>
  The cosine similarity of the vector search prototype (\<open>poc/vector_search/main.go\<close>), with the
  \<open>float32\<close> operations it uses. Go lets a compiler fuse \<open>x*y + z\<close> into one operation that rounds
  once; whether it does is a parameter. Go does not say which NaN an operation returns, so a
  NaN result is the default one.
\<close>

section \<open>Operations of float32\<close>

definition f32_default_nan :: f32 where
  "f32_default_nan = 0x7FC00000"

definition f32_zero :: "bool \<Rightarrow> f32" where
  "f32_zero neg = (if neg then 0x80000000 else 0)"

definition f32_infinity :: "bool \<Rightarrow> f32" where
  "f32_infinity neg = (if neg then 0xFF800000 else 0x7F800000)"

text \<open>The nearest \<open>float32\<close> to a fraction of units of \<open>2^-149\<close>, with a sign.\<close>

definition f32_of_ratio :: "bool \<Rightarrow> nat \<Rightarrow> nat \<Rightarrow> f32" where
  "f32_of_ratio neg num den =
     (let m = min 0x7F800000 (round_mag 24 num den) in of_nat (if neg then 2 ^ 31 + m else m))"

definition f32_abs :: "f32 \<Rightarrow> nat" where
  "f32_abs x = mag_val 24 (f32_mag x)"

definition f32_mul :: "f32 \<Rightarrow> f32 \<Rightarrow> f32" where
  "f32_mul x y =
     (let neg = (f32_neg x \<noteq> f32_neg y)
      in if f32_nan x \<or> f32_nan y \<or> f32_inf x \<and> f32_mag y = 0 \<or> f32_mag x = 0 \<and> f32_inf y
         then f32_default_nan
         else if f32_inf x \<or> f32_inf y then f32_infinity neg
         else f32_of_ratio neg (f32_abs x * f32_abs y) (2 ^ 149))"

text \<open>
  The product of two finite values plus a third, all exact, is rounded once: the sum of a
  product and a value in units of \<open>2^-298\<close>. A sum of two values is the case of the factor one.
\<close>

definition signed_sum :: "bool \<Rightarrow> bool \<Rightarrow> int \<Rightarrow> f32" where
  "signed_sum neg_product neg_addend s =
     (if s = 0 then f32_zero (neg_product \<and> neg_addend)
      else f32_of_ratio (s < 0) (nat \<bar>s\<bar>) (2 ^ 149))"

definition f32_fma :: "f32 \<Rightarrow> f32 \<Rightarrow> f32 \<Rightarrow> f32" where
  "f32_fma x y z =
     (let neg = (f32_neg x \<noteq> f32_neg y)
      in if f32_nan x \<or> f32_nan y \<or> f32_nan z \<or> f32_inf x \<and> f32_mag y = 0 \<or> f32_mag x = 0 \<and> f32_inf y
         then f32_default_nan
         else if f32_inf x \<or> f32_inf y
         then (if f32_inf z \<and> f32_neg z \<noteq> neg then f32_default_nan else f32_infinity neg)
         else if f32_inf z then z
         else signed_sum neg (f32_neg z) (f32_units x * f32_units y + f32_units z * 2 ^ 149))"

definition f32_add :: "f32 \<Rightarrow> f32 \<Rightarrow> f32" where
  "f32_add x z =
     (if f32_nan x \<or> f32_nan z then f32_default_nan
      else if f32_inf x
      then (if f32_inf z \<and> f32_neg z \<noteq> f32_neg x then f32_default_nan else x)
      else if f32_inf z then z
      else signed_sum (f32_neg x) (f32_neg z) ((f32_units x + f32_units z) * 2 ^ 149))"

definition f32_div :: "f32 \<Rightarrow> f32 \<Rightarrow> f32" where
  "f32_div x y =
     (let neg = (f32_neg x \<noteq> f32_neg y)
      in if f32_nan x \<or> f32_nan y \<or> f32_inf x \<and> f32_inf y \<or> f32_mag x = 0 \<and> f32_mag y = 0
         then f32_default_nan
         else if f32_inf x \<or> f32_mag y = 0 then f32_infinity neg
         else if f32_inf y \<or> f32_mag x = 0 then f32_zero neg
         else f32_of_ratio neg (f32_abs x * 2 ^ 149) (f32_abs y))"

section \<open>The square root\<close>

text \<open>The whole part of a square root, by pairs of binary digits.\<close>

fun isqrt :: "nat \<Rightarrow> nat" where
  "isqrt n =
     (if n = 0 then 0
      else let r = 2 * isqrt (n div 4) in if (r + 1) * (r + 1) \<le> n then r + 1 else r)"

declare isqrt.simps [simp del]

lemma isqrt_bounds: "isqrt n * isqrt n \<le> n \<and> n < (isqrt n + 1) * (isqrt n + 1)"
proof (induction n rule: isqrt.induct)
  case (1 n)
  show ?case
  proof (cases "n = 0")
    case False
    let ?s = "isqrt (n div 4)"
    have s: "?s * ?s \<le> n div 4" "n div 4 < (?s + 1) * (?s + 1)" using 1 False by auto
    have "4 * (?s * ?s) \<le> n" using s(1) by linarith
    moreover have "n < 4 * ((?s + 1) * (?s + 1))" using s(2) by linarith
    ultimately show ?thesis
      using False by (subst (1 2 3 4) isqrt.simps) (auto simp: Let_def algebra_simps)
  qed (simp add: isqrt.simps)
qed

lemma isqrt_unique: "r * r \<le> n \<Longrightarrow> n < (r + 1) * (r + 1) \<Longrightarrow> isqrt n = r"
  using isqrt_bounds [of n] mult_le_mono [of r "isqrt n"] mult_le_mono [of "Suc (isqrt n)" r "Suc (isqrt n)" r]
  by (metis Suc_eq_plus1 leI le_antisym less_Suc_eq_le linorder_not_less mult_le_mono order_le_less_trans)

text \<open>
  \<open>math.Sqrt\<close> of the non-negative value of \<open>n\<close> units of \<open>2^-149\<close>, as magnitude bits of a \<open>float64\<close>.
  The root of \<open>n * 2^1999\<close> is the root in units of \<open>2^-1074\<close>; when it is not a whole number, the half
  between two whole numbers stands for it, which rounds the same way, as the results have bits
  to drop.
\<close>

definition sqrt64_mag :: "nat \<Rightarrow> nat" where
  "sqrt64_mag n =
     (let s = isqrt (n * 2 ^ 1999)
      in round_mag 53 (2 * s + (if s * s = n * 2 ^ 1999 then 0 else 1)) 2)"

text \<open>\<open>float32(math.Sqrt(float64(x)))\<close>.\<close>

definition f32_sqrt :: "f32 \<Rightarrow> f32" where
  "f32_sqrt x =
     (if f32_nan x then f32_default_nan
      else if f32_mag x = 0 then x
      else if f32_neg x then f32_default_nan
      else if f32_inf x then x
      else f32_of_ratio False (mag_val 53 (sqrt64_mag (f32_abs x))) (2 ^ 925))"

section \<open>The similarity\<close>

text \<open>The statement \<open>z += x * y\<close>.\<close>

definition mul_add :: "bool \<Rightarrow> f32 \<Rightarrow> f32 \<Rightarrow> f32 \<Rightarrow> f32" where
  "mul_add fused x y z = (if fused then f32_fma x y z else f32_add z (f32_mul x y))"

text \<open>The loop over the indices of \<open>a\<close>; an index that \<open>b\<close> does not have is a panic, here \<open>None\<close>.\<close>

fun similarity_loop :: "bool \<Rightarrow> f32 list \<Rightarrow> f32 list \<Rightarrow> f32 \<times> f32 \<times> f32 \<Rightarrow> (f32 \<times> f32 \<times> f32) option" where
  "similarity_loop fused [] b acc = Some acc"
| "similarity_loop fused (x # a) [] acc = None"
| "similarity_loop fused (x # a) (y # b) (dotProduct, normA, normB) =
     similarity_loop fused a b
       (mul_add fused x y dotProduct, mul_add fused x x normA, mul_add fused y y normB)"

definition cosineSimilarity :: "bool \<Rightarrow> f32 list \<Rightarrow> f32 list \<Rightarrow> f32 option" where
  "cosineSimilarity fused a b =
     (case similarity_loop fused a b (0, 0, 0) of
        None \<Rightarrow> None
      | Some (dotProduct, normA, normB) \<Rightarrow>
          Some (if f32_mag normA = 0 \<or> f32_mag normB = 0 then 0
                else f32_div dotProduct (f32_mul (f32_sqrt normA) (f32_sqrt normB))))"

section \<open>When it is defined, and symmetry\<close>

lemma similarity_loop_None: "similarity_loop fused a b acc = None \<longleftrightarrow> length b < length a"
  by (induction fused a b acc rule: similarity_loop.induct) simp_all

lemma cosineSimilarity_None: "cosineSimilarity fused a b = None \<longleftrightarrow> length b < length a"
  using similarity_loop_None [of fused a b] by (auto simp: cosineSimilarity_def split: option.splits)

lemma f32_mul_commute: "f32_mul x y = f32_mul y x"
  by (cases "f32_neg x"; cases "f32_neg y"; auto simp: f32_mul_def Let_def mult.commute)

lemma f32_fma_commute: "f32_fma x y z = f32_fma y x z"
  by (cases "f32_neg x"; cases "f32_neg y"; auto simp: f32_fma_def Let_def mult.commute)

lemma mul_add_commute: "mul_add fused x y z = mul_add fused y x z"
  by (simp add: mul_add_def f32_mul_commute [of x] f32_fma_commute [of x])

lemma similarity_loop_swap:
  "length a = length b \<Longrightarrow>
    similarity_loop fused b a (d, n, m) = map_option (\<lambda>(d, m, n). (d, n, m)) (similarity_loop fused a b (d, m, n))"
  by (induction a b arbitrary: d m n rule: list_induct2) (simp_all add: mul_add_commute)

lemma cosineSimilarity_commute:
  "length a = length b \<Longrightarrow> cosineSimilarity fused a b = cosineSimilarity fused b a"
  using similarity_loop_swap [of a b fused 0 0 0]
  by (auto simp: cosineSimilarity_def f32_mul_commute split: option.splits)

end
