(* ===== verification/SimilarityError.thy ===== *)
theory SimilarityError
  imports Complex_Main Similarity
begin

text \<open>
  How far the rounding of the cosine similarity can go: a vector is found to be similar to itself
  with a score within \<open>2^-21\<close> of one, unless its squares leave the range of a \<open>float32\<close>.
\<close>

section \<open>Relative errors\<close>

lemma relative_error:
  assumes "\<bar>int v * int den - int num\<bar> * 2 ^ p \<le> int num" "0 < den" "0 < num"
  obtains d where "\<bar>d\<bar> \<le> 1 / 2 ^ p" "real v = real num / real den * (1 + d)"
proof -
  define d where "d = real v * real den / real num - 1"
  have "\<bar>real v * real den - real num\<bar> * 2 ^ p \<le> real num"
    using assms(1) by (metis (mono_tags, lifting) of_int_abs of_int_diff of_int_le_iff of_int_mult of_int_numeral of_int_of_nat_eq of_int_power)
  moreover have "real v * real den - real num = d * real num" using assms(3) by (simp add: d_def field_simps)
  ultimately have "\<bar>d\<bar> * 2 ^ p \<le> 1" using assms(3) by (simp add: abs_mult mult.commute mult.left_commute)
  then have "\<bar>d\<bar> \<le> 1 / 2 ^ p" by (simp add: field_simps)
  moreover have "real v = real num / real den * (1 + d)" using assms(2,3) by (simp add: d_def field_simps)
  ultimately show ?thesis using that by blast
qed

lemma f32_of_small: "m < 2 ^ 31 \<Longrightarrow> unat (of_nat m :: f32) = m"
  by (simp add: unsigned_of_nat take_bit_nat_eq_self)

text \<open>A positive fraction in the normal range becomes a finite positive value.\<close>

lemma f32_of_ratio_normal:
  assumes "0 < den" "2 ^ 23 \<le> num div den" "num div den < 2 ^ 276"
  defines "x \<equiv> f32_of_ratio False num den"
  shows "\<not> f32_nan x" "\<not> f32_inf x" "\<not> f32_neg x" "0 < f32_mag x"
    and "\<exists>d. \<bar>d\<bar> \<le> 1 / 2 ^ 24 \<and> real (f32_abs x) = real num / real den * (1 + d)"
proof -
  obtain k q where q: "bitlen (num div den) = k + 24" "2 ^ 23 \<le> q" "q \<le> 2 ^ 24"
    "round_mag 24 num den = k * 2 ^ 23 + q"
    by (rule round_mag_parts [of 24 den num]) (use assms(1,2) in simp_all)
  have pos: "0 < num div den" using assms(2) by (rule order_less_le_trans [rotated]) simp
  have "bitlen (num div den) - 1 = k + 23" using q(1) by simp
  then have "2 ^ (k + 23) \<le> num div den" using bitlen_bounds [OF pos] by metis
  then have "(2::nat) ^ (k + 23) < 2 ^ 276" using assms(3) by (rule order_le_less_trans)
  then have "k + 23 < 276" by (rule power_less_imp_less_exp [rotated]) simp
  then have "k * 2 ^ 23 \<le> 252 * 2 ^ 23" by (intro mult_right_mono) simp_all
  then have m: "round_mag 24 num den < 0x7F800000" "0 < round_mag 24 num den" using q(2-4) by simp_all
  then have x: "unat x = round_mag 24 num den" by (simp add: x_def f32_of_ratio_def f32_of_small)
  then have mag: "f32_mag x = round_mag 24 num den" using m by (simp add: f32_mag_def)
  show "\<not> f32_nan x" "\<not> f32_inf x" "\<not> f32_neg x" "0 < f32_mag x"
    using m x mag by (simp_all add: f32_nan_def f32_inf_def f32_neg_def)
  have "0 < num" using pos by (cases num) simp_all
  moreover have "\<bar>int (mag_val 24 (round_mag 24 num den)) * int den - int num\<bar> * 2 ^ 24 \<le> int num"
    by (rule round_mag_error) (use assms(1,2) in simp_all)
  ultimately show "\<exists>d. \<bar>d\<bar> \<le> 1 / 2 ^ 24 \<and> real (f32_abs x) = real num / real den * (1 + d)"
    unfolding f32_abs_def mag using relative_error assms(1) by metis
qed

text \<open>The root of a positive value, rounded to a \<open>float64\<close> and then to a \<open>float32\<close>.\<close>

lemma isqrt_real:
  assumes "s = isqrt n"
  shows "\<bar>real (2 * s + (if s * s = n then 0 else 1)) / 2 - sqrt (real n)\<bar> \<le> 1 / 2" "real s \<le> sqrt (real n)"
proof -
  have b: "s * s \<le> n" "n < (s + 1) * (s + 1)" using isqrt_bounds [of n] assms by simp_all
  have "real (s * s) \<le> real n" "real n < real ((s + 1) * (s + 1))"
    using b by (simp_all only: of_nat_le_iff of_nat_less_iff)
  then have sq: "real s * real s \<le> real n" "real n < (real s + 1) * (real s + 1)"
    by (simp_all only: of_nat_mult of_nat_add of_nat_1)
  show lo: "real s \<le> sqrt (real n)" using sq(1) by (intro real_le_rsqrt) (simp add: power2_eq_square)
  have hi: "sqrt (real n) < real s + 1" using sq(2) by (intro real_less_lsqrt) (simp_all add: power2_eq_square)
  show "\<bar>real (2 * s + (if s * s = n then 0 else 1)) / 2 - sqrt (real n)\<bar> \<le> 1 / 2"
  proof (cases "s * s = n")
    case True
    then have "real n = (real s)\<^sup>2" by (simp add: power2_eq_square flip: of_nat_mult)
    then show ?thesis using True by simp
  next
    case False
    then show ?thesis using lo hi by (simp add: abs_if field_simps)
  qed
qed

lemma sqrt64_error:
  assumes "0 < n"
  shows "\<exists>d. \<bar>d\<bar> \<le> 1 / 2 ^ 52 \<and> real (mag_val 53 (sqrt64_mag n)) = sqrt (real n * 2 ^ 1999) * (1 + d)"
proof -
  define T where "T = n * 2 ^ 1999"
  define s where "s = isqrt T"
  define m where "m = 2 * s + (if s * s = T then 0 else 1)"
  let ?r = "sqrt (real T)" and ?v = "mag_val 53 (round_mag 53 m 2)"
  define B :: nat where "B = 2 ^ 999"
  have B: "2 ^ 53 \<le> B" unfolding B_def by (rule power_increasing) simp_all
  have "B * B \<le> 2 ^ 1999" unfolding B_def power_add [symmetric] by (rule power_increasing) simp_all
  also have "\<dots> \<le> T" using assms by (cases n) (simp_all add: T_def)
  finally have T: "B * B \<le> T" .
  have "B \<le> s"
  proof (rule ccontr)
    assume "\<not> B \<le> s"
    then have "(s + 1) * (s + 1) \<le> B * B" by (intro mult_le_mono) simp_all
    then show False using isqrt_bounds [of T] T by (simp add: s_def)
  qed
  then have s: "2 ^ 53 \<le> s" using B by linarith
  note r = isqrt_real [OF s_def, folded m_def]
  have "real (2 ^ 53) \<le> real s" using s by (simp only: of_nat_le_iff)
  then have big: "2 ^ 53 \<le> ?r" using r(2) by simp
  have "m div 2 = s" by (simp add: m_def)
  then have "2 ^ (53 - 1) \<le> m div 2" using s by simp
  then have "\<bar>int ?v * int 2 - int m\<bar> * 2 ^ 53 \<le> int m" by (intro round_mag_error) simp_all
  moreover have "0 < m" using s by (simp add: m_def)
  ultimately obtain d where d: "\<bar>d\<bar> \<le> 1 / 2 ^ 53" "real ?v = real m / 2 * (1 + d)"
    using relative_error [of ?v 2 m 53] by auto
  have half: "real m / 2 \<le> ?r + 1 / 2" using r(1) by linarith
  have "\<bar>real m / 2 * d\<bar> \<le> (?r + 1 / 2) * (1 / 2 ^ 53)"
    unfolding abs_mult using half d(1) by (intro mult_mono) simp_all
  then have "\<bar>real ?v - ?r\<bar> \<le> (?r + 1 / 2) * (1 / 2 ^ 53) + 1 / 2"
    using r(1) unfolding d(2) distrib_left mult_1_right by linarith
  also have "\<dots> \<le> ?r * (1 / 2 ^ 52)" using big by (simp add: field_simps)
  finally have err: "\<bar>real ?v - ?r\<bar> \<le> ?r * (1 / 2 ^ 52)" .
  have pos: "0 < ?r" using big by (rule order_less_le_trans [rotated]) simp
  have v: "sqrt64_mag n = round_mag 53 m 2" by (simp add: sqrt64_mag_def Let_def m_def s_def T_def)
  have "real T = real n * 2 ^ 1999" unfolding T_def of_nat_mult of_nat_power by simp
  moreover have "\<bar>real ?v / ?r - 1\<bar> \<le> 1 / 2 ^ 52"
  proof -
    have "real ?v / ?r - 1 = (real ?v - ?r) / ?r" using pos by (simp add: field_simps)
    then show ?thesis using err pos by (simp add: abs_divide field_simps)
  qed
  ultimately show ?thesis using pos unfolding v by (intro exI [of _ "real ?v / ?r - 1"]) simp
qed

section \<open>A vector and itself\<close>

text \<open>The rounding of a fraction, stated over the reals.\<close>

lemma f32_of_ratio_real:
  assumes "0 < den" "2 ^ 23 \<le> real num / real den" "real num / real den < 2 ^ 276"
  obtains d where "\<bar>d\<bar> \<le> 1 / 2 ^ 24" "real (f32_abs (f32_of_ratio False num den)) = real num / real den * (1 + d)"
    "\<not> f32_nan (f32_of_ratio False num den)" "\<not> f32_inf (f32_of_ratio False num den)"
    "\<not> f32_neg (f32_of_ratio False num den)" "f32_mag (f32_of_ratio False num den) \<noteq> 0"
proof -
  have "real (2 ^ 23 * den) \<le> real num" using assms(1,2) by (simp add: field_simps)
  then have "2 ^ 23 \<le> num div den" unfolding of_nat_le_iff using assms(1) by (simp add: less_eq_div_iff_mult_less_eq)
  moreover have "real num < real (2 ^ 276 * den)" using assms(1,3) by (simp add: field_simps)
  then have "num div den < 2 ^ 276" unfolding of_nat_less_iff by (simp add: less_mult_imp_div_less)
  ultimately show ?thesis using f32_of_ratio_normal [OF assms(1), of num] that by blast
qed

lemma between_mult:
  "0 \<le> (l :: real) \<Longrightarrow> 0 \<le> l' \<Longrightarrow> l \<le> a \<Longrightarrow> a \<le> u \<Longrightarrow> l' \<le> b \<Longrightarrow> b \<le> u' \<Longrightarrow>
    l * l' \<le> a * b \<and> a * b \<le> u * u'"
  by (auto intro!: mult_mono)

lemma near_one: "\<bar>d\<bar> \<le> e \<Longrightarrow> 1 - e \<le> 1 + d \<and> 1 + d \<le> 1 + (e :: real)"
  by (simp add: abs_le_iff)

text \<open>The square root is rounded twice, its square once more, for a norm between \<open>2^-100\<close> and \<open>2^100\<close>.\<close>

lemma f32_sqrt_error:
  assumes n: "\<not> f32_nan n" "\<not> f32_inf n" "\<not> f32_neg n" "f32_mag n \<noteq> 0"
    and range: "2 ^ 49 \<le> real (f32_abs n)" "real (f32_abs n) \<le> 2 ^ 249"
  obtains g where "(1 - 1 / 2 ^ 24) * (1 - 1 / 2 ^ 24) \<le> g" "g \<le> (1 + 1 / 2 ^ 24) * (1 + 1 / 2 ^ 24)"
    "real (f32_abs (f32_sqrt n)) = sqrt (real (f32_abs n) * 2 ^ 149) * g"
    "\<not> f32_nan (f32_sqrt n)" "\<not> f32_inf (f32_sqrt n)" "\<not> f32_neg (f32_sqrt n)" "f32_mag (f32_sqrt n) \<noteq> 0"
proof -
  let ?e = "1 / 2 ^ 24 :: real" and ?N = "real (f32_abs n)"
  define V where "V = mag_val 53 (sqrt64_mag (f32_abs n))"
  have "0 < ?N" using range(1) by (rule order_less_le_trans [rotated]) simp
  then have pos: "0 < f32_abs n" by simp
  obtain d1 where d1: "\<bar>d1\<bar> \<le> 1 / 2 ^ 52" "real V = sqrt (?N * 2 ^ 1999) * (1 + d1)"
    using sqrt64_error [OF pos] unfolding V_def by blast
  define w where "w = sqrt (?N * 2 ^ 149)"
  have "?N * 2 ^ 1999 = (?N * 2 ^ 149) * (2 ^ 925)\<^sup>2" by (simp add: power2_eq_square)
  then have root: "sqrt (?N * 2 ^ 1999) = w * 2 ^ 925" unfolding w_def by (simp only: real_sqrt_mult real_sqrt_abs) simp
  have w: "2 ^ 99 \<le> w" "w \<le> 2 ^ 199"
    unfolding w_def using range by (auto intro!: real_le_rsqrt real_le_lsqrt)
  have g1: "1 - ?e \<le> 1 + d1" "1 + d1 \<le> 1 + ?e" using d1(1) by (simp_all add: abs_le_iff)
  have V: "real V / real (2 ^ 925) = w * (1 + d1)" unfolding d1(2) root by simp
  have "2 ^ 99 * (1 / 2) \<le> w * (1 + d1)" using w(1) g1 by (intro mult_mono) simp_all
  moreover have "w * (1 + d1) \<le> 2 ^ 199 * 2" using w g1 by (intro mult_mono) simp_all
  ultimately have "2 ^ 23 \<le> real V / real (2 ^ 925)" "real V / real (2 ^ 925) < 2 ^ 276" unfolding V by simp_all
  define s where "s = f32_of_ratio False V (2 ^ 925)"
  have sq: "f32_sqrt n = s" using n by (simp add: f32_sqrt_def s_def V_def)
  from f32_of_ratio_real [OF _ \<open>2 ^ 23 \<le> _\<close> \<open>_ < 2 ^ 276\<close>, folded s_def, unfolded V] obtain d2
    where d2: "\<bar>d2\<bar> \<le> ?e" "real (f32_abs s) = w * (1 + d1) * (1 + d2)"
      and s: "\<not> f32_nan s" "\<not> f32_inf s" "\<not> f32_neg s" "f32_mag s \<noteq> 0" by (metis zero_less_power zero_less_numeral)
  have e: "0 \<le> 1 - ?e" by simp
  note g = between_mult [OF e e g1 near_one [OF d2(1), THEN conjunct1] near_one [OF d2(1), THEN conjunct2]]
  show ?thesis
    by (rule that [of "(1 + d1) * (1 + d2)"]) (use g s in \<open>simp_all only: sq d2(2) w_def mult.assoc simp_thms\<close>)
qed

lemma root_square_error:
  assumes n: "\<not> f32_nan n" "\<not> f32_inf n" "\<not> f32_neg n" "f32_mag n \<noteq> 0"
    and range: "2 ^ 49 \<le> real (f32_abs n)" "real (f32_abs n) \<le> 2 ^ 249"
  defines "p \<equiv> f32_mul (f32_sqrt n) (f32_sqrt n)"
  obtains c where "(1 - 1 / 2 ^ 24) ^ 5 \<le> c" "c \<le> (1 + 1 / 2 ^ 24) ^ 5" "real (f32_abs p) = real (f32_abs n) * c"
    "\<not> f32_nan p" "\<not> f32_inf p" "\<not> f32_neg p" "f32_mag p \<noteq> 0"
proof -
  let ?e = "1 / 2 ^ 24 :: real" and ?N = "real (f32_abs n)"
  define s where "s = f32_sqrt n"
  obtain g where g: "(1 - ?e) * (1 - ?e) \<le> g" "g \<le> (1 + ?e) * (1 + ?e)" "real (f32_abs s) = sqrt (?N * 2 ^ 149) * g"
    and s: "\<not> f32_nan s" "\<not> f32_inf s" "\<not> f32_neg s" "f32_mag s \<noteq> 0"
    using f32_sqrt_error [OF n range] unfolding s_def by blast
  define c where "c = g * g"
  have e: "0 \<le> (1 - ?e) * (1 - ?e)" by simp
  have cb: "(1 - ?e) * (1 - ?e) * ((1 - ?e) * (1 - ?e)) \<le> c" "c \<le> (1 + ?e) * (1 + ?e) * ((1 + ?e) * (1 + ?e))"
    using between_mult [OF e e g(1,2) g(1,2)] unfolding c_def by blast+
  have "sqrt (?N * 2 ^ 149) * sqrt (?N * 2 ^ 149) = ?N * 2 ^ 149" by simp
  then have "real (f32_abs s * f32_abs s) = ?N * 2 ^ 149 * c"
    unfolding of_nat_mult g(3) c_def by (metis mult.assoc mult.commute)
  then have SS: "real (f32_abs s * f32_abs s) / real (2 ^ 149) = ?N * c" by simp
  have "2 ^ 49 * (1 / 2) \<le> ?N * c" using range(1) cb(1) by (intro mult_mono) simp_all
  moreover have "?N * c \<le> 2 ^ 249 * 2" using range(2) cb(2) by (intro mult_mono) (simp_all add: c_def)
  ultimately have "2 ^ 23 \<le> real (f32_abs s * f32_abs s) / real (2 ^ 149)"
    "real (f32_abs s * f32_abs s) / real (2 ^ 149) < 2 ^ 276" unfolding SS by simp_all
  have p: "p = f32_of_ratio False (f32_abs s * f32_abs s) (2 ^ 149)"
    using s by (simp add: p_def s_def [symmetric] f32_mul_def Let_def)
  from f32_of_ratio_real [OF _ \<open>2 ^ 23 \<le> _\<close> \<open>_ < 2 ^ 276\<close>, folded p, unfolded SS] obtain d3
    where d3: "\<bar>d3\<bar> \<le> ?e" "real (f32_abs p) = ?N * c * (1 + d3)"
      and pp: "\<not> f32_nan p" "\<not> f32_inf p" "\<not> f32_neg p" "f32_mag p \<noteq> 0" by (metis zero_less_power zero_less_numeral)
  have five: "x * x * (x * x) * x = x ^ 5" for x :: real by (simp add: power_numeral_reduce)
  have "0 \<le> (1 - ?e) * (1 - ?e) * ((1 - ?e) * (1 - ?e))" "0 \<le> 1 - ?e" by simp_all
  from between_mult [OF this cb near_one [OF d3(1), THEN conjunct1] near_one [OF d3(1), THEN conjunct2]]
  have lo: "(1 - ?e) ^ 5 \<le> c * (1 + d3)" and hi: "c * (1 + d3) \<le> (1 + ?e) ^ 5" unfolding five by blast+
  show ?thesis by (rule that [OF lo hi _ pp]) (simp add: d3(2))
qed

text \<open>In the loop over one vector the three sums are the same.\<close>

definition sq_norm :: "bool \<Rightarrow> f32 list \<Rightarrow> f32" where
  "sq_norm fused a = foldl (\<lambda>n x. mul_add fused x x n) 0 a"

lemma similarity_loop_self:
  "similarity_loop fused a a (n, n, n) =
    (let m = foldl (\<lambda>n x. mul_add fused x x n) n a in Some (m, m, m))"
  by (induction a arbitrary: n) simp_all

lemma mag_val_large: "0x7F800000 \<le> b \<Longrightarrow> 2 ^ 277 \<le> mag_val 24 b"
proof -
  assume "0x7F800000 \<le> b"
  then have e: "255 \<le> b div 2 ^ 23" by (simp add: less_eq_div_iff_mult_less_eq)
  have "(2::nat) ^ 277 = 2 ^ 23 * 2 ^ 254" by (simp flip: power_add)
  also have "\<dots> \<le> (2 ^ 23 + b mod 2 ^ 23) * 2 ^ (b div 2 ^ 23 - 1)"
    using e by (intro mult_le_mono power_increasing) simp_all
  finally show ?thesis using e by (simp add: mag_val_def Let_def)
qed

lemma moderate:
  assumes "2 ^ 49 \<le> f32_units n" "f32_units n \<le> 2 ^ 249"
  shows "\<not> f32_nan n" "\<not> f32_inf n" "\<not> f32_neg n" "f32_mag n \<noteq> 0"
    and "2 ^ 49 \<le> real (f32_abs n)" "real (f32_abs n) \<le> 2 ^ 249"
proof -
  show neg: "\<not> f32_neg n"
  proof
    assume "f32_neg n"
    then have "f32_units n \<le> 0" by (simp add: f32_units_def)
    then show False using assms(1) by simp
  qed
  then have u: "f32_units n = int (f32_abs n)" by (simp add: f32_units_def f32_abs_def)
  have "int (2 ^ 49) \<le> int (f32_abs n)" "int (f32_abs n) \<le> int (2 ^ 249)" using assms unfolding u by simp_all
  then have b: "2 ^ 49 \<le> f32_abs n" "f32_abs n \<le> 2 ^ 249" unfolding of_nat_le_iff .
  then have "real (2 ^ 49) \<le> real (f32_abs n)" "real (f32_abs n) \<le> real (2 ^ 249)" unfolding of_nat_le_iff .
  then show "2 ^ 49 \<le> real (f32_abs n)" "real (f32_abs n) \<le> 2 ^ 249" by simp_all
  have "f32_mag n < 0x7F800000"
  proof (rule ccontr)
    assume "\<not> f32_mag n < 0x7F800000"
    then have "2 ^ 277 \<le> f32_abs n" unfolding f32_abs_def by (intro mag_val_large) simp
    then have "(2 :: nat) ^ 277 \<le> 2 ^ 249" using b(2) by (rule order_trans)
    then show False by simp
  qed
  then show "\<not> f32_nan n" "\<not> f32_inf n" by (simp_all add: f32_nan_def f32_inf_def)
  have "f32_abs n = 0" if "f32_mag n = 0" by (simp add: f32_abs_def that mag_val_def)
  then show "f32_mag n \<noteq> 0" using b(1) by (metis le_zero_eq power_not_zero zero_neq_numeral)
qed

text \<open>
  C36: the similarity of a vector to itself is one up to rounding: when the sum of the squares
  stays between \<open>2^-100\<close> and \<open>2^100\<close>, the score is a positive number that differs from one by at
  most \<open>2^-21\<close>, whether or not the compiler fuses multiplication and addition.
\<close>

theorem self_similarity:
  assumes "2 ^ 49 \<le> f32_units (sq_norm fused a)" "f32_units (sq_norm fused a) \<le> 2 ^ 249"
  shows "\<exists>r. cosineSimilarity fused a a = Some r \<and> \<not> f32_nan r \<and> \<not> f32_neg r \<and>
    \<bar>f32_units r - 2 ^ 149\<bar> \<le> 2 ^ 128"
proof -
  let ?e = "1 / 2 ^ 24 :: real"
  define n where "n = sq_norm fused a"
  note m = moderate [OF assms, folded n_def]
  define p where "p = f32_mul (f32_sqrt n) (f32_sqrt n)"
  obtain c where c: "(1 - ?e) ^ 5 \<le> c" "c \<le> (1 + ?e) ^ 5" "real (f32_abs p) = real (f32_abs n) * c"
    and pp: "\<not> f32_nan p" "\<not> f32_inf p" "\<not> f32_neg p" "f32_mag p \<noteq> 0"
    using root_square_error [OF m] unfolding p_def by blast
  define r where "r = f32_div n p"
  have sim: "cosineSimilarity fused a a = Some r"
    using m(4) by (simp add: cosineSimilarity_def similarity_loop_self Let_def r_def p_def n_def sq_norm_def)
  have "1 - 6 * ?e \<le> (1 - ?e) ^ 5" "(1 + ?e) ^ 5 \<le> 1 + 6 * ?e" by (simp_all add: power_numeral_reduce)
  then have cb: "1 - 6 * ?e \<le> c" "c \<le> 1 + 6 * ?e" using c(1,2) by linarith+
  have "0 < 1 - 6 * ?e" "(0::real) < 2 ^ 49" by simp_all
  then have pos: "0 < c" "0 < real (f32_abs n)" using cb(1) m(5) by linarith+
  have quot: "real (f32_abs n * 2 ^ 149) / real (f32_abs p) = 2 ^ 149 / c" using pos by (simp add: c(3))
  have P: "0 < f32_abs p" using pos c(3) by (metis mult_pos_pos of_nat_0_less_iff)
  have r: "r = f32_of_ratio False (f32_abs n * 2 ^ 149) (f32_abs p)"
    using m pp by (simp add: r_def f32_div_def Let_def)
  have "2 ^ 23 \<le> real (f32_abs n * 2 ^ 149) / real (f32_abs p)" "real (f32_abs n * 2 ^ 149) / real (f32_abs p) < 2 ^ 276"
    unfolding quot using pos cb by (simp_all add: field_simps)
  from f32_of_ratio_real [OF P this, folded r, unfolded quot] obtain d
    where d: "\<bar>d\<bar> \<le> ?e" "real (f32_abs r) = 2 ^ 149 / c * (1 + d)" and flags: "\<not> f32_nan r" "\<not> f32_neg r" by blast
  have units: "f32_units r = int (f32_abs r)" using flags(2) by (simp add: f32_units_def f32_abs_def)
  have "\<bar>(1 + d) / c - 1\<bar> \<le> 8 * ?e"
  proof -
    have "\<bar>1 + d - c\<bar> \<le> 7 * ?e" using d(1) cb by linarith
    moreover have "7 * ?e \<le> 8 * ?e * c" using cb(1) by simp
    ultimately show ?thesis using pos(1) by (simp add: abs_le_iff field_simps)
  qed
  then have "2 ^ 149 * \<bar>(1 + d) / c - 1\<bar> \<le> 2 ^ 149 * (8 * ?e)" by (rule mult_left_mono) simp
  moreover have "real (f32_abs r) - 2 ^ 149 = 2 ^ 149 * ((1 + d) / c - 1)" unfolding d(2) by (simp add: algebra_simps)
  ultimately have "\<bar>real (f32_abs r) - 2 ^ 149\<bar> \<le> 2 ^ 149 * (8 * ?e)"
    by (simp only: abs_mult power_abs abs_numeral)
  also have "\<dots> = 2 ^ 128" by simp
  finally have "\<bar>real (f32_abs r) - 2 ^ 149\<bar> \<le> 2 ^ 128" .
  then have "real_of_int \<bar>f32_units r - 2 ^ 149\<bar> \<le> real_of_int (2 ^ 128)" unfolding units by simp
  then show ?thesis using sim flags unfolding of_int_le_iff by blast
qed

lemma f32_one_abs: "f32_abs f32_one = 2 ^ 149" "f32_units f32_one = 2 ^ 149" "f32_mag f32_one \<noteq> 0"
  by (simp_all add: f32_abs_def f32_units_def f32_neg_def f32_mag_def mag_val_def f32_one_def)

lemma f32_one_ratio: "f32_of_ratio False (2 ^ 149 * 2 ^ 149) (2 ^ 149) = f32_one"
proof -
  have "(2::nat) ^ 149 = mag_val 24 0x3F800000" by (simp add: mag_val_def)
  then have "round_mag 24 (2 ^ 149) 1 = 0x3F800000" by (simp only: round_mag_exact zero_less_numeral)
  then have "round_mag 24 (2 ^ 149 * 2 ^ 149) (2 ^ 149) = 0x3F800000"
    using round_mag_scale [of "2 ^ 149" 24 "2 ^ 149" 1] by (simp only: mult_1 zero_less_power zero_less_numeral)
  then show ?thesis unfolding f32_of_ratio_def by (simp only: Let_def) (simp add: f32_one_def)
qed

lemma sq_norm_one: "sq_norm False [f32_one] = f32_one"
proof -
  have "f32_mul f32_one f32_one = f32_one"
    using f32_one_finite by (simp only: f32_mul_def Let_def f32_one_abs f32_one_ratio simp_thms if_False)
  moreover have "f32_add 0 f32_one = f32_one"
  proof -
    have zero: "\<not> f32_nan 0" "\<not> f32_inf 0" "\<not> f32_neg 0" "f32_units 0 = 0"
      by (simp_all add: f32_nan_def f32_inf_def f32_neg_def f32_mag_def f32_units_def mag_val_def)
    have "nat \<bar>(2::int) ^ 149 * 2 ^ 149\<bar> = 2 ^ 149 * 2 ^ 149" "(2::int) ^ 149 * 2 ^ 149 \<noteq> 0"
      "\<not> (2::int) ^ 149 * 2 ^ 149 < 0" by simp_all
    then show ?thesis
      using zero f32_one_finite
      by (simp only: f32_add_def signed_sum_def f32_one_abs f32_one_ratio simp_thms if_False add_0)
  qed
  ultimately show ?thesis by (simp add: sq_norm_def mul_add_def)
qed

theorem self_similarity_witness:
  "\<exists>r. cosineSimilarity False [f32_one] [f32_one] = Some r \<and> \<bar>f32_units r - 2 ^ 149\<bar> \<le> 2 ^ 128"
  using self_similarity [of False "[f32_one]"] by (auto simp: sq_norm_one f32_one_abs)

end
