(* ===== verification/Benchmark.thy ===== *)
theory Benchmark
  imports BruteForce SimilarityError Instances
begin

text \<open>
  The run of the vector search prototype (\<open>poc/vector_search/main.go\<close>) around its loop: the write
  of the vectors to \<open>test_vectors.db\<close> in one transaction and the brute-force queries on it. Times
  are measured but decide nothing; \<open>log.Fatal\<close> ends the program with the error.
\<close>

section \<open>The program\<close>

text \<open>The table \<open>vectors\<close> of the database file, when it exists, and a count of statements.\<close>

record bench =
  benchTable :: "(int \<times> byte list) list option"
  benchTicks :: nat

fun insert_vectors ::
    "env \<Rightarrow> int \<Rightarrow> f32 list list \<Rightarrow> (int \<times> byte list) list \<Rightarrow> nat \<Rightarrow> (err + (int \<times> byte list) list) \<times> nat" where
  "insert_vectors E i [] rows n = (Inr rows, n)"
| "insert_vectors E i (vec # vectors) rows n =
     (if StmtFails E n then (Inl DriverError, n + 1)
      else if list_ex (\<lambda>r. fst r = i) rows then (Inl UniqueViolation, n + 1)
      else insert_vectors E (i + 1) vectors (rows @ [(i, pocSerialize vec)]) (n + 1))"

text \<open>
  \<open>CREATE TABLE IF NOT EXISTS\<close>, the begin of the transaction, the preparation, the inserts and the
  commit. A transaction that is not committed leaves the table as it was. The report divides by the
  number of vectors, a panic when there are none.
\<close>

definition testSQLiteWrite :: "env \<Rightarrow> f32 list list \<Rightarrow> bench \<Rightarrow> unit res \<times> bench" where
  "testSQLiteWrite E vectors b =
     (let n = benchTicks b
      in if StmtFails E n then (Fail DriverError, b\<lparr>benchTicks := n + 1\<rparr>)
         else (let rows = (case benchTable b of None \<Rightarrow> [] | Some rows \<Rightarrow> rows);
                   b = b\<lparr>benchTable := Some rows\<rparr>
               in if StmtFails E (n + 1) then (Fail DriverError, b\<lparr>benchTicks := n + 2\<rparr>)
                  else if StmtFails E (n + 2) then (Fail DriverError, b\<lparr>benchTicks := n + 3\<rparr>)
                  else case insert_vectors E 0 vectors rows (n + 3) of
                    (Inl e, m) \<Rightarrow> (Fail e, b\<lparr>benchTicks := m\<rparr>)
                  | (Inr rows, m) \<Rightarrow>
                      (if StmtFails E m then (Fail DriverError, b\<lparr>benchTicks := m + 1\<rparr>)
                       else (if vectors = [] then Panics else Ok (), b\<lparr>benchTable := Some rows, benchTicks := m + 1\<rparr>))))"

text \<open>One pass over the rows; \<open>None\<close> is the panic of a row shorter than the query.\<close>

fun score_rows ::
    "bool \<Rightarrow> nat \<Rightarrow> f32 list \<Rightarrow> (int \<times> byte list) list \<Rightarrow> scored list \<Rightarrow> scored list option" where
  "score_rows fused topK queryVec [] results = Some results"
| "score_rows fused topK queryVec ((i, embeddingBytes) # rows) results =
     (case cosineSimilarity fused queryVec (pocDeserialize embeddingBytes) of
        None \<Rightarrow> None
      | Some score \<Rightarrow> score_rows fused topK queryVec rows (keep_best topK results (i, score)))"

text \<open>
  An error that ends the rows early is not looked at. The program drops the results of a query
  behind its loop; they are returned here so that theorems can speak of them.
\<close>

fun run_queries ::
    "env \<Rightarrow> bool \<Rightarrow> nat \<Rightarrow> (int \<times> byte list) list option \<Rightarrow> f32 list list \<Rightarrow> nat \<Rightarrow> scored list list res \<times> nat" where
  "run_queries E fused topK tab [] n = (Ok [], n)"
| "run_queries E fused topK tab (queryVec # queries) n =
     (case tab of
        None \<Rightarrow> (Fail DriverError, n + 1)
      | Some table_rows \<Rightarrow>
          if StmtFails E n then (Fail DriverError, n + 1)
          else case score_rows fused topK queryVec
                      (seen_rows E n (delivered E n (\<lambda>r. dec_int (fst r)) table_rows)) [] of
            None \<Rightarrow> (Panics, n + 1)
          | Some results \<Rightarrow>
              (case run_queries E fused topK tab queries (n + 1) of
                 (Ok all, m) \<Rightarrow> (Ok (results # all), m)
               | r \<Rightarrow> r))"

text \<open>All queries, then the report, which divides by their number.\<close>

definition testBruteForceSearch ::
    "env \<Rightarrow> bool \<Rightarrow> nat \<Rightarrow> f32 list list \<Rightarrow> bench \<Rightarrow> scored list list res \<times> bench" where
  "testBruteForceSearch E fused topK queries b =
     (case run_queries E fused topK (benchTable b) queries (benchTicks b) of
        (r, n) \<Rightarrow> (if queries = [] then Panics else r, b\<lparr>benchTicks := n\<rparr>))"

text \<open>The main program, without the two tests of the graph library.\<close>

definition bench_main ::
    "env \<Rightarrow> bool \<Rightarrow> nat \<Rightarrow> f32 list list \<Rightarrow> f32 list list \<Rightarrow> bench \<Rightarrow> scored list list res \<times> bench" where
  "bench_main E fused topK vectors queries b =
     (case testSQLiteWrite E vectors b of
        (Ok _, b) \<Rightarrow> testBruteForceSearch E fused topK queries b
      | (Fail e, b) \<Rightarrow> (Fail e, b)
      | (Panics, b) \<Rightarrow> (Panics, b))"

section \<open>The write\<close>

text \<open>The rows that the vectors become, numbered from \<open>i\<close> on.\<close>

definition vector_rows :: "int \<Rightarrow> f32 list list \<Rightarrow> (int \<times> byte list) list" where
  "vector_rows i vectors = map (\<lambda>k. (i + int k, pocSerialize (vectors ! k))) [0..<length vectors]"

lemma vector_rows_Cons: "vector_rows i (v # vs) = (i, pocSerialize v) # vector_rows (i + 1) vs"
  by (simp add: vector_rows_def upt_conv_Cons map_Suc_upt [symmetric] comp_def add.assoc del: upt_Suc)

lemma insert_vectors_ok:
  assumes "\<And>n. \<not> StmtFails E n" "\<forall>r \<in> set rows. fst r < i"
  shows "insert_vectors E i vectors rows n = (Inr (rows @ vector_rows i vectors), n + length vectors)"
  using assms(2)
proof (induction vectors arbitrary: i rows n)
  case Nil
  then show ?case by (simp add: vector_rows_def)
next
  case (Cons v vs)
  have "\<not> list_ex (\<lambda>r. fst r = i) rows" using Cons.prems by (auto simp: list_ex_iff)
  moreover have "\<forall>r \<in> set (rows @ [(i, pocSerialize v)]). fst r < i + 1" using Cons.prems by auto
  ultimately show ?case using Cons.IH assms(1) by (simp add: vector_rows_Cons)
qed

lemma insert_vectors_Inr:
  "insert_vectors E i vectors rows n = (Inr rows', m) \<Longrightarrow>
    set rows \<subseteq> set rows' \<and> (vectors \<noteq> [] \<longrightarrow> i \<in> fst ` set rows')"
proof (induction vectors arbitrary: i rows n)
  case (Cons v vs)
  have "insert_vectors E (i + 1) vs (rows @ [(i, pocSerialize v)]) (n + 1) = (Inr rows', m)"
    using Cons.prems by (simp split: if_splits)
  from Cons.IH [OF this] show ?case by force
qed simp

lemma testSQLiteWrite_Ok:
  assumes "testSQLiteWrite E vectors b = (Ok u, b')"
  obtains rows n m where "insert_vectors E 0 vectors rows n = (Inr (the (benchTable b')), m)"
    "benchTable b' \<noteq> None" "rows = (case benchTable b of None \<Rightarrow> [] | Some rows \<Rightarrow> rows)"
  using assms that by (auto simp: testSQLiteWrite_def Let_def split: if_splits prod.splits sum.splits)

text \<open>
  The prototype runs only once: nothing removes \<open>test_vectors.db\<close>, so when a run has written its
  vectors, every later run fails in its first insert, whose id is taken, and leaves the file as it
  was.
\<close>

theorem second_run_fails:
  assumes "testSQLiteWrite E vectors b = (Ok u, b')" "vectors \<noteq> []" "vectors' \<noteq> []"
  shows "\<exists>e b''. bench_main E' fused topK vectors' queries b' = (Fail e, b'') \<and> benchTable b'' = benchTable b'"
proof -
  obtain rows where rows: "benchTable b' = Some rows" "0 \<in> fst ` set rows"
    using testSQLiteWrite_Ok [OF assms(1)] insert_vectors_Inr assms(2) by (metis option.collapse)
  then have taken: "list_ex (\<lambda>r. fst r = 0) rows" by (force simp: list_ex_iff)
  obtain v vs where "vectors' = v # vs" using assms(3) by (cases vectors') auto
  then show ?thesis
    using rows(1) taken by (simp add: bench_main_def testSQLiteWrite_def Let_def)
qed

theorem second_run_fails_example:
  "\<exists>b' e b''. testSQLiteWrite calm_env [[f32_one]] \<lparr>benchTable = None, benchTicks = 0\<rparr> = (Ok (), b') \<and>
    bench_main calm_env False 5 [[0]] [[f32_one]] b' = (Fail e, b'') \<and> benchTable b'' = Some [(0, pocSerialize [f32_one])]"
proof -
  let ?b' = "\<lparr>benchTable = Some [(0, pocSerialize [f32_one])], benchTicks = 5\<rparr>"
  have first: "testSQLiteWrite calm_env [[f32_one]] \<lparr>benchTable = None, benchTicks = 0\<rparr> = (Ok (), ?b')"
    by (simp add: testSQLiteWrite_def calm_env_def)
  show ?thesis
    using second_run_fails [OF first, of "[[0]]" calm_env False 5 "[[f32_one]]"] first by auto
qed

section \<open>What the queries find\<close>

lemma score_rows_map:
  assumes "\<And>r. r \<in> set rows \<Longrightarrow> cosineSimilarity fused q (pocDeserialize (snd r)) = Some (sc r)"
  shows "score_rows fused topK q rows results = Some (foldl (keep_best topK) results (map (\<lambda>r. (fst r, sc r)) rows))"
  using assms
proof (induction rows arbitrary: results)
  case (Cons r rows)
  obtain i bs where r: "r = (i, bs)" by fastforce
  have "cosineSimilarity fused q (pocDeserialize bs) = Some (sc (i, bs))" using Cons.prems [of r] r by simp
  then show ?case using Cons.IH Cons.prems by (simp add: r)
qed simp

lemma run_queries_ok:
  assumes "\<And>n. \<not> StmtFails E n" "\<And>n. \<not> rows_err E n"
    and "\<And>q r. q \<in> set queries \<Longrightarrow> r \<in> set rows \<Longrightarrow>
      cosineSimilarity fused q (pocDeserialize (snd r)) = Some (sc q r)"
  shows "\<exists>found m. run_queries E fused topK (Some rows) queries n = (Ok found, m) \<and>
    list_all2 (\<lambda>q res. \<exists>k. res = brute_force topK
      (map (\<lambda>r. (fst r, sc q r)) (delivered E k (\<lambda>r. dec_int (fst r)) rows))) queries found"
  using assms(3)
proof (induction queries arbitrary: n)
  case (Cons q qs)
  let ?rows = "delivered E n (\<lambda>r. dec_int (fst r)) rows"
  have "score_rows fused topK q ?rows [] = Some (brute_force topK (map (\<lambda>r. (fst r, sc q r)) ?rows))"
    unfolding brute_force_def by (rule score_rows_map) (use Cons.prems in simp)
  moreover obtain found m where "run_queries E fused topK (Some rows) qs (n + 1) = (Ok found, m)"
    "list_all2 (\<lambda>q res. \<exists>k. res = brute_force topK
      (map (\<lambda>r. (fst r, sc q r)) (delivered E k (\<lambda>r. dec_int (fst r)) rows))) qs found"
    using Cons.IH [of "n + 1"] Cons.prems by auto
  ultimately show ?case using assms(1,2) by auto
qed simp

lemma map_vector_rows:
  "map (\<lambda>r. f (pocDeserialize (snd r))) (vector_rows i vectors) = map f vectors"
  by (induction vectors arbitrary: i) (simp_all add: vector_rows_Cons poc_codec_agrees(2), simp add: vector_rows_def)

lemma brute_force_subset: "set (brute_force topK rows) \<subseteq> set rows"
proof -
  have step: "set (keep_best topK acc x) \<subseteq> insert x (set acc)" for acc x
    by (auto simp: keep_best_def Let_def dest: set_update_subset_insert [THEN subsetD])
  have "set (foldl (keep_best topK) acc rows) \<subseteq> set acc \<union> set rows" for acc
  proof (induction rows arbitrary: acc)
    case (Cons x rows)
    show ?case using Cons.IH [of "keep_best topK acc x"] step [of acc x] by auto
  qed simp
  from this [of "[]"] show ?thesis by (simp add: brute_force_def)
qed

lemma sort_mset: "mset xs = mset ys \<Longrightarrow> sort xs = sort ys"
  by (rule properties_for_sort) simp_all

text \<open>The results of one query, over a table that holds the vectors.\<close>

lemma table_results:
  fixes f :: "f32 list \<Rightarrow> f32"
  assumes "mset rows = mset (vector_rows 0 vectors)" "0 < topK"
  defines "res \<equiv> brute_force topK (map (\<lambda>r. (fst r, f (pocDeserialize (snd r)))) rows)"
  shows "(\<forall>(i, s) \<in> set res. 0 \<le> i \<and> nat i < length vectors \<and> s = map f vectors ! nat i) \<and>
    ((\<forall>s \<in> set (map f vectors). \<not> f32_nan s) \<longrightarrow>
      mset (map skey res) = mset (take topK (rev (sort (map f32_key (map f vectors))))))"
proof -
  let ?scored = "map (\<lambda>r. (fst r, f (pocDeserialize (snd r)))) rows"
  have rows: "set rows = set (vector_rows 0 vectors)" using assms(1) by (rule mset_eq_setD)
  have "set res \<subseteq> set ?scored" unfolding res_def by (rule brute_force_subset)
  then have "\<forall>(i, s) \<in> set res. 0 \<le> i \<and> nat i < length vectors \<and> s = map f vectors ! nat i"
    unfolding set_map rows by (fastforce simp: vector_rows_def poc_codec_agrees(2))
  moreover have "mset (map skey res) = mset (take topK (rev (sort (map f32_key (map f vectors)))))"
    if "\<forall>s \<in> set (map f vectors). \<not> f32_nan s"
  proof -
    have vals: "mset (map (\<lambda>r. f (pocDeserialize (snd r))) rows) = mset (map f vectors)"
      unfolding map_vector_rows [of f 0 vectors, symmetric] mset_map assms(1) ..
    then have "set (map (\<lambda>r. f (pocDeserialize (snd r))) rows) = set (map f vectors)" by (rule mset_eq_setD)
    then have "f (pocDeserialize (snd r)) \<in> set (map f vectors)" if "r \<in> set rows" for r
      using that by (metis (no_types, lifting) imageI list.set_map)
    then have "no_nan ?scored" using that by (force simp: no_nan_def)
    moreover have "sort (map skey ?scored) = sort (map f32_key (map f vectors))"
      using arg_cong [OF vals, of "image_mset f32_key"] by (intro sort_mset) (simp add: multiset.map_comp comp_def)
    ultimately show ?thesis using brute_force_is_top_k [of ?scored topK] assms(2) unfolding res_def by metis
  qed
  ultimately show ?thesis by blast
qed

text \<open>
  C35: on a new database file, when no statement fails, the run of the prototype answers every
  query, in whatever order the rows come: its results are vectors with their similarity to the
  query as they were before the write, and when none of the similarities is a NaN, the scores are
  the \<open>topK\<close> highest of all vectors.
\<close>

theorem benchmark_finds_best:
  assumes "benchTable b = None" "\<And>n. \<not> StmtFails E n" "\<And>n. \<not> rows_err E n" "0 < topK"
    and "\<forall>v \<in> set vectors. length v = dims" "\<forall>q \<in> set queries. length q = dims"
    and "vectors \<noteq> []" "queries \<noteq> []"
  shows "\<exists>found b'. bench_main E fused topK vectors queries b = (Ok found, b') \<and>
    list_all2 (\<lambda>q res.
      let sims = map (\<lambda>v. the (cosineSimilarity fused q v)) vectors
      in (\<forall>(i, s) \<in> set res. 0 \<le> i \<and> nat i < length vectors \<and> s = sims ! nat i) \<and>
         ((\<forall>s \<in> set sims. \<not> f32_nan s) \<longrightarrow>
           mset (map (\<lambda>x. f32_key (snd x)) res) = mset (take topK (rev (sort (map f32_key sims)))))) queries found"
proof -
  define rows where "rows = vector_rows 0 vectors"
  define sc where "sc q r = the (cosineSimilarity fused q (pocDeserialize (snd r)))" for q and r :: "int \<times> byte list"
  obtain n where w: "testSQLiteWrite E vectors b = (Ok (), \<lparr>benchTable = Some rows, benchTicks = n\<rparr>)"
    using assms(1,2,7) insert_vectors_ok [OF assms(2), of "[]" 0 vectors "benchTicks b + 3"]
    by (cases b) (simp add: testSQLiteWrite_def Let_def rows_def)
  have row: "\<exists>v \<in> set vectors. pocDeserialize (snd r) = v" if "r \<in> set rows" for r
    using that by (auto simp: rows_def vector_rows_def poc_codec_agrees(2))
  have "cosineSimilarity fused q (pocDeserialize (snd r)) = Some (sc q r)"
    if "q \<in> set queries" "r \<in> set rows" for q r
    using row [OF that(2)] that(1) assms(5,6) cosineSimilarity_None [of fused q] by (auto simp: sc_def)
  from run_queries_ok [where n = n, OF assms(2,3) this] obtain found m
    where run: "run_queries E fused topK (Some rows) queries n = (Ok found, m)"
      and found: "list_all2 (\<lambda>q res. \<exists>k. res = brute_force topK
        (map (\<lambda>r. (fst r, sc q r)) (delivered E k (\<lambda>r. dec_int (fst r)) rows))) queries found" by blast
  have "mset (delivered E k (\<lambda>r. dec_int (fst r)) rows) = mset (vector_rows 0 vectors)" for k
    by (simp add: rows_def)
  note each = table_results [OF this assms(4), of "\<lambda>v. the (cosineSimilarity fused q v)" for q, folded sc_def]
  show ?thesis
  proof (intro exI [of _ found] exI [of _ "\<lparr>benchTable = Some rows, benchTicks = m\<rparr>"], rule conjI)
    show "bench_main E fused topK vectors queries b = (Ok found, \<lparr>benchTable = Some rows, benchTicks = m\<rparr>)"
      using assms(8) by (simp add: bench_main_def w testBruteForceSearch_def run)
    show "list_all2 (\<lambda>q res.
        let sims = map (\<lambda>v. the (cosineSimilarity fused q v)) vectors
        in (\<forall>(i, s) \<in> set res. 0 \<le> i \<and> nat i < length vectors \<and> s = sims ! nat i) \<and>
           ((\<forall>s \<in> set sims. \<not> f32_nan s) \<longrightarrow>
             mset (map (\<lambda>x. f32_key (snd x)) res) = mset (take topK (rev (sort (map f32_key sims)))))) queries found"
      by (rule list_all2_mono [OF found], elim exE, hypsubst, unfold Let_def, rule each)
  qed
qed

theorem benchmark_finds_best_witness:
  "\<exists>b'. bench_main calm_env False 5 [[f32_one]] [[0]] \<lparr>benchTable = None, benchTicks = 0\<rparr> = (Ok [[(0, 0)]], b')"
proof -
  have "f32_mul 0 0 = 0" "f32_add 0 0 = 0"
    by (simp_all add: f32_mul_def f32_add_def f32_of_ratio_def signed_sum_def f32_zero_def f32_nan_def f32_inf_def
        f32_mag_def f32_neg_def f32_abs_def f32_units_def mag_val_def round_mag_def)
  then have sim: "cosineSimilarity False [0] [f32_one] = Some 0"
    by (simp add: cosineSimilarity_def mul_add_def f32_mag_def)
  obtain found b' where "bench_main calm_env False 5 [[f32_one]] [[0]] \<lparr>benchTable = None, benchTicks = 0\<rparr> = (Ok found, b')"
    and res: "list_all2 (\<lambda>q res.
      let sims = map (\<lambda>v. the (cosineSimilarity False q v)) [[f32_one]]
      in (\<forall>(i, s) \<in> set res. 0 \<le> i \<and> nat i < length [[f32_one]] \<and> s = sims ! nat i) \<and>
         ((\<forall>s \<in> set sims. \<not> f32_nan s) \<longrightarrow>
           mset (map (\<lambda>x. f32_key (snd x)) res) = mset (take 5 (rev (sort (map f32_key sims)))))) [[0]] found"
    using benchmark_finds_best [of "\<lparr>benchTable = None, benchTicks = 0\<rparr>" calm_env 5 "[[f32_one]]" 1 "[[0]]" False]
    by (auto simp: calm_env_def rows_err_def)
  moreover have "found = [[(0, 0)]]"
  proof -
    obtain res where found: "found = [res]" "\<forall>(i, s) \<in> set res. 0 \<le> i \<and> i \<le> 0 \<and> s = [0] ! nat i"
      and keys: "image_mset skey (mset res) = {#f32_key 0#}"
      using res by (auto simp: list_all2_Cons1 sim f32_nan_def f32_mag_def)
    have "length res = 1" using arg_cong [OF keys, of size] by simp
    then show ?thesis using found by (cases res) auto
  qed
  ultimately show ?thesis by blast
qed

end
