(* ===== verification/WireTypes.thy ===== *)
theory WireTypes
  imports Memory
begin

text \<open>
  The events the server sends are messages that can be sent: their strings are UTF-8 and their
  times within the range of a protobuf timestamp. gRPC fails a call whose message is not, so a
  single ill-formed event in the database would break every search that finds it.
\<close>

lemma stored_form_wf:
  assumes "event_wf ev" "\<And>v a. AnyOfValue P v = Some a \<Longrightarrow> valid_utf8 (TypeUrl a)"
  shows "event_wf (stored_form P ev)"
  using assms by (auto simp: event_wf_def stored_form_def ts_valid_def split: option.splits)

lemma row_result_wf:
  assumes "world_ok W" "row_event (wPb W) r ev"
  shows "event_wf (row_result (wPb W) r)"
  using row_event_result [OF world_okD(2) [OF assms(1)] assms(2)] stored_form_wf [of ev "wPb W"] assms
  by (simp add: row_event_def world_ok_def)

lemma recall_wf:
  assumes "world_ok W" "events_wf (wPb W) p" "recall (wPb W) p k = Some ev"
  shows "event_wf ev"
proof -
  obtain r where r: "find (is_event k) (Nodes p) = Some r" "ev = row_result (wPb W) r"
    using assms(3) by (auto simp: recall_def)
  then have "r \<in> set (Nodes p)" "nType r = ''event''" by (auto simp: find_Some_iff is_event_def)
  then obtain ev' where "row_event (wPb W) r ev'" using assms(2) by (auto simp: events_wf_def)
  then show ?thesis unfolding r(2) by (rule row_result_wf [OF assms(1)])
qed

lemma GetEventByID_wf:
  assumes "world_ok W" "events_wf (wPb W) p" "GetEventByID E (wPb W) k p = (Ok ev, q)"
  shows "event_wf ev"
proof -
  have up: "\<not> StmtFails E (ticks p)" using assms(3) by (auto simp: GetEventByID_def)
  have "recall (wPb W) p k = Some ev"
    using GetEventByID_recall [OF world_okD(2) [OF assms(1)] assms(2) up, of k] assms(3)
    by (cases "recall (wPb W) p k") simp_all
  then show ?thesis by (rule recall_wf [OF assms(1,2)])
qed

lemma fetch_results_wf:
  assumes "world_ok W" "fetch_results E (wPb W) rs p = (xs, q)" "events_wf (wPb W) p"
  shows "list_all event_wf (map fst xs)"
  using assms(2,3)
proof (induction rs arbitrary: p xs q)
  case (Cons r rs)
  obtain y p1 where g: "GetEventByID E (wPb W) (qrID r) p = (y, p1)" by fastforce
  obtain zs p2 where f: "fetch_results E (wPb W) rs p1 = (zs, p2)" by fastforce
  have wf: "events_wf (wPb W) p1" 
    using Cons.prems(2) read_states(1) [OF g] events_wf_cong [of p1 p "wPb W"] by (simp add: same_store_def)
  have "list_all event_wf (map fst zs)" by (rule Cons.IH [OF f wf])
  then show ?case
    using Cons.prems(1) g f GetEventByID_wf [OF assms(1) Cons.prems(2)] by (cases y) auto
qed simp

lemma Search_wf:
  assumes "world_ok W" "server_inv W (s, hs)" "filter_plain (search_filter req)"
    and "Search W req s = (Ok (evs, scores), t)"
  shows "list_all event_wf evs"
  using assms(4)
proof (cases rule: Search_cases)
  case (queried emb vec y p)
  have "same_store (serverStorage s) p" by (rule QuerySimilar_state [OF assms(3) queried(3)])
  then have wf: "events_wf (wPb W) p"
    using assms(2) events_wf_cong [of p "serverStorage s" "wPb W"]
    by (simp add: server_inv_def storage_inv_def same_store_def)
  obtain rs where y: "y = Ok rs" using queried(4) by (cases y) simp_all
  obtain xs q where f: "fetch_results (wEnv W) (wPb W) rs p = (xs, q)" by fastforce
  then show ?thesis using queried(4) y fetch_results_wf [OF assms(1) f wf] by simp
qed simp_all

section \<open>What the streams receive\<close>

definition streams_wf :: "registry \<Rightarrow> bool" where
  "streams_wf s \<longleftrightarrow> (\<forall>n. list_all event_wf (received s n))"

lemma streams_wf_bus_step:
  assumes "registry_inv s" "bus_step admit s a t" "\<forall>ev. a \<noteq> Broadcast ev" "streams_wf s"
  shows "streams_wf t"
  unfolding streams_wf_def
proof
  fix n
  have old: "list_all event_wf (received s n)" using assms(4) by (simp add: streams_wf_def)
  from received_step [OF assms(1,2), of n] show "list_all event_wf (received t n)"
  proof (elim disjE exE conjE)
    fix ev assume "received s n = streamSent s n @ ev # chanBuf t n" "streamSent t n = streamSent s n"
    then show ?thesis using old by (simp add: received_def)
  qed (use old assms(3) in auto)
qed

lemma server_step_streams_wf:
  assumes ok: "world_ok W" and inv: "server_inv W c" and step: "server_step W c a d"
    and wf: "streams_wf (serverStreams (fst c))"
  shows "streams_wf (serverStreams (fst d))"
  using step
proof (cases rule: server_step.cases)
  case (answered ev hs s x t)
  have reg: "registry_inv (serverStreams s)" and ev: "event_wf ev"
    using inv answered by (auto simp: server_inv_def list_all_iff)
  show ?thesis
    using reg answered(5)
  proof (cases rule: answer_event_cases)
    case (failed name execute m s1 e)
    then show ?thesis using enhance_state [OF failed(4)] wf answered by simp
  next
    case (answered name execute m s1 result resp)
    have "event_wf resp" unfolding answered(6) by (rule response_event_wf [OF ok ev])
    then show ?thesis
      using wf \<open>c = (s, hs)\<close> \<open>d = (t, remove1 ev hs)\<close>
      by (simp add: streams_wf_def answered(11) received_after_broadcast)
  qed (use wf answered in simp_all)
next
  case (vectorized s as ev bs x t hs)
  from vectorized(5) have "serverStreams t = serverStreams s" by (cases rule: vectorizeEvent_cases) simp_all
  then show ?thesis using wf vectorized by simp
next
  case (searched req s x t hs)
  then show ?thesis using Search_state [OF searched(5,4)] wf by simp
next
  case (streamed s b t hs)
  then show ?thesis
    using streams_wf_bus_step [OF _ streamed(4,5)] wf inv by (simp add: server_inv_def)
qed (use wf in \<open>simp_all add: accept_event_parts(2)\<close>)

text \<open>
  C8: every event the server sends is a well-formed message: in any run, whatever arrives on a
  stream and whatever a search returns has UTF-8 strings and times in range, so that no stored or
  generated event can make a call fail in its encoding.
\<close>

theorem server_sends_well_formed:
  assumes "world_ok W" "storage_inv (wGraph W) (wPb W) p"
    and "runs (server_step W) (SetEmbeddingProvider emb (NewServer pe ps p), []) acts (s, hs)"
  shows "list_all event_wf (received (serverStreams s) n) \<and>
    (filter_plain (search_filter req) \<longrightarrow> Search W req s = (Ok (evs, scores), t) \<longrightarrow> list_all event_wf evs)"
proof -
  have start: "server_inv W (SetEmbeddingProvider emb (NewServer pe ps p), [])" by (rule server_inv_new [OF assms(2)])
  have inv: "server_inv W (s, hs)" using bus.run_inv [OF assms(3)] assms(1) start by blast
  have "streams_wf (serverStreams (fst (SetEmbeddingProvider emb (NewServer pe ps p), [])))"
    by (simp add: streams_wf_def bus_simps SetEmbeddingProvider_def NewServer_def)
  then have "streams_wf (serverStreams (fst (s, hs)))"
    using bus.run_keeps [OF assms(3), of "\<lambda>c. streams_wf (serverStreams (fst c))"] assms(1) start
      server_step_streams_wf by blast
  then show ?thesis using Search_wf [OF assms(1) inv] by (simp add: streams_wf_def)
qed

theorem server_sends_well_formed_witness:
  "\<exists>t :: graph server.
     Search sample_world ann_search sample_server = (Ok ([stored_form text_pb sample_event], [f32_one]), t) \<and>
     list_all event_wf [stored_form text_pb sample_event]"
proof -
  obtain t where run: "Search sample_world ann_search sample_server =
      (Ok ([stored_form text_pb sample_event], [f32_one]), t)" using ann_search_runs by blast
  have "filter_plain (search_filter ann_search)"
    by (simp add: ann_search_filter filter_plain_def where_plain [OF user_filter_wf])
  with server_sends_well_formed [OF sample_world_ok _ runs.stop [where step = "server_step sample_world"],
      of sample_stored] sample_stored_inv run
  show ?thesis unfolding sample_server_def by (metis sample_world_parts(2,4))
qed

end
