(* ===== verification/Spec2Isabelle.thy ===== *)
theory Spec2Isabelle
  imports Policy EmbeddingCache StorageProperties RagProperties Subscriptions ServerProperties ProviderProperties InteractProperties ProcessProperties ClientProperties DisplayProperties ChatProperties Benchmark WireTypes
begin

text \<open>
  A model of PCAS, an event bus for personal data, and the theorems about it.

  \<^bold>\<open>The program.\<close> Clients send events to a gRPC server. \<open>Publish\<close> stores the event in SQLite,
  starts a background task that computes and stores an embedding when the event states a fact,
  selects a compute provider by the first matching rule of a policy, lets it answer, for some
  providers after adding similar stored events as context, stores the answer as a response event
  and broadcasts it to the subscribers. \<open>Search\<close> finds stored events by the similarity of their
  embeddings. \<open>InteractStream\<close> connects a client and a streaming provider. The server process
  loads the policy, opens the database and its index file, and closes them behind a signal.

  \<^bold>\<open>The theories and the code they model\<close> (paths under \<open>src/\<close>).

  \<^item> \<open>Prelude\<close>: Go strings, maps in key order (\<open>gomap\<close>) and shared lemmas. \<open>Events\<close>: the event
    envelope, dynamic values, the protobuf calls (\<open>gen/go/pcas/events/v1\<close>) and
    \<open>internal/bus/util.go\<close>. \<open>Machine\<close>: runs of step relations with their actions.
  \<^item> \<open>GoFloat\<close>, \<open>GoNumber\<close>, \<open>GoJson\<close>, \<open>GoTime\<close>: what the code uses of Go's standard library:
    float arithmetic and comparison on bit patterns, the shortest decimal text of a float and its
    reading, \<open>encoding/json\<close> in both directions and in every layout, RFC 3339 times.
  \<^item> \<open>Policy\<close>: \<open>internal/policy/engine.go\<close>.
  \<^item> \<open>SqliteModel\<close> (tables, index, index file, environment), \<open>SqliteStore\<close> (writing), \<open>SqliteRead\<close>
    (reading), \<open>SqliteQuery\<close> (filters and vector search), \<open>SqliteProvider\<close> (opening, rebuilding,
    saving, closing), \<open>VectorCodec\<close>: \<open>internal/storage/sqlite/provider_pure.go\<close>.
    \<open>StorageInterface\<close>: the contract of \<open>internal/storage/provider.go\<close>.
  \<^item> \<open>EmbeddingCache\<close>, \<open>RagText\<close>, \<open>Rag\<close>: \<open>internal/bus/server_rag.go\<close> and the text extraction of
    \<open>internal/bus/vectorize.go\<close>.
  \<^item> \<open>Subscriptions\<close>: \<open>internal/bus/server_subscribe.go\<close>, \<open>broadcastEvent\<close>, and
    \<open>internal/bus/memory/bus.go\<close>, two admission checks over one registry.
  \<^item> \<open>Server\<close>: \<open>internal/bus/server.go\<close> and \<open>vectorizeEvent\<close>, one function per handler or task.
    \<open>ServerRuns\<close>: the same server as a step relation in which handlers, tasks and streams take
    turns, with \<open>Publish\<close> in two steps.
  \<^item> \<open>InteractStream\<close>: \<open>internal/bus/server_interactstream.go\<close>, the handshake as a function and the
    goroutines with their channels as a step relation.
  \<^item> \<open>Providers\<close>: \<open>internal/providers\<close> with the mock, OpenAI and Ollama providers.
  \<^item> \<open>Serve\<close> and \<open>Process\<close>: \<open>runServer\<close> of \<open>cmd/pcas/cmd/serve.go\<close>: start, and the main and the
    shutdown goroutine as a step relation around the server.
  \<^item> \<open>Clients\<close>: \<open>pkg/sdk/go\<close> and the \<open>emit\<close>, \<open>replay\<close> and \<open>search\<close> commands of \<open>cmd/pcasctl\<close>.
    \<open>Display\<close>: what \<open>emit\<close>, \<open>search\<close>, \<open>examples/logger-dapp\<close> and \<open>examples/hello-dapp\<close> print.
  \<^item> \<open>Chat\<close>: \<open>examples/multi-ai-chatbot/main.go\<close>, its main loop and two goroutines as a step relation;
    \<open>ChatProperties\<close> joins it to the server.
  \<^item> \<open>Similarity\<close> (the cosine similarity with its \<open>float32\<close> operations, \<open>SimilarityError\<close> its rounding
    error), \<open>BruteForce\<close> (the codec and the top-k loop) and \<open>Benchmark\<close> (the run of the program):
    \<open>poc/vector_search/main.go\<close>.
  \<^item> \<open>Instances\<close>, \<open>SampleStore\<close>: concrete instances of all parameters and a sample database, to
    which the theorems are applied.

  \<^bold>\<open>What is proved.\<close>

  \<^item> Consistency: \<open>StorageProperties\<close> shows that whatever calls are made and whichever statements
    fail, ids stay unique, edges link vectors to events, rows stay readable and the index holds
    the stored vectors; \<open>ServerProperties\<close> lifts this to every interleaving of the server, with
    the streams and the cache, and shows that no call panics; \<open>WireTypes\<close> that all events sent
    are well-formed messages.
  \<^item> Refinement: the pointer-linked cache of an LRU list (\<open>EmbeddingCache\<close>), the server of an
    abstract memory that only learns (\<open>Memory\<close>, ordered by what it knows), the storage over a
    restart (\<open>ServeProperties\<close>, \<open>ProcessProperties\<close>).
  \<^item> Behaviour: what \<open>Publish\<close> and \<open>Search\<close> answer in each case, which events the filters and the
    context enhancement select and for which user, routing, paging, batch reading, the messages
    and the retry policy of the providers, delivery in order on every stream.
  \<^item> Clients: the chatbot shows an answer once and only to a prompt it sent, and a prompt finds its way
    through server and provider back to the screen; the prototype finds the most similar of the
    vectors it wrote, and its similarity is one for equal vectors up to rounding.
  \<^item> Ends: the bidirectional stream and the shutdown end within bounded numbers of steps; the
    embedding of a fact gets into the index and stays.
  \<^item> Round trips: events, vectors, numbers, times and JSON through the storage, the wire types and
    the printed output, and from the flags of \<open>pcasctl emit\<close> to the row read back.
  \<^item> Failures that the code has, stated as what happens instead: a stale index file hides vectors, a
    taken id gets the vector of the event that was refused, a client that reconnects loses its
    registration, one subscriber or a failure of \<open>Serve\<close> keeps the process from exiting, the error
    of a streaming provider can be lost, an attribute filter finds nothing, a replay finds
    no table, a request without data takes another way than intended, the chatbot shows an answer under
    another name after a switch, and the prototype runs only once.

  \<^bold>\<open>Interfaces.\<close> \<open>event_storage\<close> (interpreted by the SQLite provider as \<open>sq\<close>) is what the bus relies
  on in a storage; \<open>bus_registry\<close> and its extension \<open>exclusive_registry\<close> (interpreted as \<open>srv\<close> and
  \<open>mem\<close>) are the registry with the admission check of either bus; \<open>machine\<close> is a step relation with
  an invariant (interpreted as \<open>bus\<close>, \<open>interact\<close>, \<open>process\<close>, \<open>sdk\<close> and \<open>chat_machine\<close>).
\<close>

text \<open>
  \<^bold>\<open>State and failure.\<close> Operations return their result (\<open>Ok\<close>, \<open>Fail\<close> with an error value, \<open>Panics\<close>)
  and the new state. Which SQL statement fails, and in which order SQLite returns rows the query
  does not order, is asked from an environment at a counter that every statement increases, so a
  theorem holds for every pattern of failures. A Go map is a list in key order where the code
  depends on no order, and what \<open>range\<close> over a map may choose is quantified.

  \<^bold>\<open>Parameters\<close>, each with its contract: the HNSW library (\<open>hnsw_ok\<close>: insertion, export and import,
  search among the nodes), the protobuf runtime (\<open>pb_ok\<close>, \<open>pb_json_ok\<close>: a \<open>Value\<close> with finite numbers unmarshals to
  what was marshalled, and any to finite numbers and UTF-8 strings), the JSON and date functions of SQLite
  (\<open>sqlite_ok\<close>), \<open>uuid\<close>, the clock and the embedding service (\<open>world_ok\<close>, \<open>client_wf\<close>), the OpenAI
  client, the HTTP exchange with Ollama, gRPC's connection, \<open>Serve\<close> and \<open>GracefulStop\<close>, and whether the
  Go compiler fuses a multiplication and an addition of floats.

  \<^bold>\<open>Bounds.\<close> The JSON parser recurses with fuel of twice the length of the text plus two, more than
  any document of that length needs (\<open>json_lay_reads_back\<close> holds from the length of the text on).
  The Ollama loop makes at most three attempts, subscription channels hold 100 events, the
  channel of the chatbot 10, the channels of a bidirectional stream \<open>stream_capacity\<close> and two errors, the cache 1000 entries; the
  step relations need no fuel.

  \<^bold>\<open>Not modelled.\<close>

  \<^item> Generated protobuf and gRPC code, cobra's command registration and flag parsing, and log lines
    other than those \<open>emit\<close> prints for received events.
  \<^item> In the context enhancement: the sharing of concurrent equal embedding requests
    (\<open>singleflight\<close>), which changes how often the service is called and not what is answered; the
    rate limiter is a parameter. JSON documents nested beyond 10000 levels, which \<open>encoding/json\<close>
    rejects.
  \<^item> Time: the cleanup and the delays of retries, timeouts of calls as such (they are outcomes of a
    parameter).
  \<^item> In the prototype, the tests of the HNSW library, the random vectors (an argument here) and the
    times and sizes it reports. In the examples, signals, timers and the connection; the chatbot as
    it stands does not compile, \<open>Chat\<close> says how it is read, and the crash of the Go runtime on
    colliding accesses to its map is not a step.
\<close>

end
